(* ===== verification/Prelude.thy ===== *)
theory Prelude
  imports Main "HOL-Library.Word" "HOL-Library.Sublist" "HOL-Library.Char_ord"
    "HOL-Library.List_Lexorder" "HOL-Library.Code_Target_Nat"
begin

text \<open>
  The vocabulary every component shares: Rust's \<^verbatim>\<open>Result\<close> as a sum with its \<^verbatim>\<open>?\<close>
  operator, the machine integers the launcher uses, and the string operations of the Rust standard
  library that the sources call. A Rust \<^verbatim>\<open>String\<close> is the list of its UTF-8 bytes, one
  \<^typ>\<open>char\<close> per byte, so \<^const>\<open>length\<close> is \<^verbatim>\<open>len()\<close> and the lexicographic order is
  the order \<^verbatim>\<open>BTreeMap<String, _>\<close> iterates in.
\<close>

named_theorems result_simps "rewriting of results and of the ? operator"

section \<open>Machine integers\<close>

type_synonym u8 = "8 word"
type_synonym u16 = "16 word"
type_synonym u32 = "32 word"
type_synonym u64 = "64 word"

abbreviation usize_max :: nat where
  "usize_max \<equiv> 18446744073709551615"

section \<open>Results and early return\<close>

definition rbind :: "('e + 'a) \<Rightarrow> ('a \<Rightarrow> 'e + 'b) \<Rightarrow> 'e + 'b" where
  "rbind m f = (case m of Inl e \<Rightarrow> Inl e | Inr a \<Rightarrow> f a)"

lemma rbind_unfold [code_unfold]: "rbind m f = (case m of Inl e \<Rightarrow> Inl e | Inr a \<Rightarrow> f a)"
  by (rule rbind_def)

definition ensure :: "bool \<Rightarrow> 'e \<Rightarrow> 'e + unit" where
  "ensure c e = (if c then Inr () else Inl e)"

definition ok_or :: "'a option \<Rightarrow> 'e \<Rightarrow> 'e + 'a" where
  "ok_or m e = (case m of None \<Rightarrow> Inl e | Some a \<Rightarrow> Inr a)"

definition map_err :: "('e \<Rightarrow> 'f) \<Rightarrow> ('e + 'a) \<Rightarrow> 'f + 'a" where
  "map_err f m = (case m of Inl e \<Rightarrow> Inl (f e) | Inr a \<Rightarrow> Inr a)"

definition is_ok :: "'e + 'a \<Rightarrow> bool" where
  "is_ok m = (case m of Inl _ \<Rightarrow> False | Inr _ \<Rightarrow> True)"

lemma rbind_simps [simp]:
  "rbind (Inl e) f = Inl e"
  "rbind (Inr a) f = f a"
  by (simp_all add: rbind_def)

lemma rbind_cong [fundef_cong]:
  "m = m' \<Longrightarrow> (\<And>a. m' = Inr a \<Longrightarrow> f a = f' a) \<Longrightarrow> rbind m f = rbind m' f'"
  by (auto simp: rbind_def split: sum.splits)

lemma rbind_eq_Inr [result_simps]:
  "rbind m f = Inr b \<longleftrightarrow> (\<exists>a. m = Inr a \<and> f a = Inr b)"
  by (cases m) auto

lemma rbind_eq_Inl [result_simps]:
  "rbind m f = Inl e \<longleftrightarrow> m = Inl e \<or> (\<exists>a. m = Inr a \<and> f a = Inl e)"
  by (cases m) auto

lemma rbind_assoc: "rbind (rbind m f) g = rbind m (\<lambda>a. rbind (f a) g)"
  by (cases m) auto

lemma ensure_eq_Inr [simp]: "ensure c e = Inr u \<longleftrightarrow> c"
  by (simp add: ensure_def)

lemma ensure_eq_Inl [result_simps]: "ensure c e = Inl d \<longleftrightarrow> \<not> c \<and> e = d"
  by (auto simp: ensure_def)

lemma ensure_bool [simp]: "ensure True e = Inr ()" "ensure False e = Inl e"
  by (simp_all add: ensure_def)

lemma ok_or_simps [simp]: "ok_or None e = Inl e" "ok_or (Some a) e = Inr a"
  by (simp_all add: ok_or_def)

lemma ok_or_eq_Inr [result_simps]: "ok_or m e = Inr a \<longleftrightarrow> m = Some a"
  by (auto simp: ok_or_def split: option.splits)

lemma map_err_simps [simp]: "map_err f (Inl e) = Inl (f e)" "map_err f (Inr a) = Inr a"
  by (simp_all add: map_err_def)

lemma map_err_eq_Inr [result_simps]: "map_err f m = Inr a \<longleftrightarrow> m = Inr a"
  by (cases m) auto

lemma is_ok_simps [simp]: "is_ok (Inl e) = False" "is_ok (Inr a) = True"
  by (simp_all add: is_ok_def)

lemma is_ok_iff: "is_ok m \<longleftrightarrow> (\<exists>a. m = Inr a)"
  by (cases m) auto

text \<open>A loop that runs a fallible body over a list and stops at the first error.\<close>

fun rfold :: "('x \<Rightarrow> 's \<Rightarrow> 'e + 's) \<Rightarrow> 'x list \<Rightarrow> 's \<Rightarrow> 'e + 's" where
  "rfold f [] s = Inr s"
| "rfold f (x # xs) s = rbind (f x s) (rfold f xs)"

lemma rfold_append: "rfold f (xs @ ys) s = rbind (rfold f xs s) (rfold f ys)"
proof (induction xs arbitrary: s)
  case (Cons x xs)
  show ?case by (cases "f x s") (auto simp: Cons)
qed simp

lemma rfold_invariant:
  assumes "rfold f xs s = Inr t" "I s"
    and "\<And>x s s'. x \<in> set xs \<Longrightarrow> I s \<Longrightarrow> f x s = Inr s' \<Longrightarrow> I s'"
  shows "I t"
  using assms
proof (induction xs arbitrary: s)
  case (Cons x xs)
  from Cons.prems(1) obtain s' where s': "f x s = Inr s'" "rfold f xs s' = Inr t"
    by (auto simp: result_simps)
  have "I s'"
    using Cons.prems(2) s'(1) by (rule Cons.prems(3) [rotated]) simp
  with s'(2) show ?case
    by (rule Cons.IH) (use Cons.prems(3) in auto)
qed simp

fun all_ok :: "('x \<Rightarrow> 'e + 'a) \<Rightarrow> 'x list \<Rightarrow> 'e + 'a list" where
  "all_ok f [] = Inr []"
| "all_ok f (x # xs) = rbind (f x) (\<lambda>a. rbind (all_ok f xs) (\<lambda>as. Inr (a # as)))"

lemma all_ok_Inr_length: "all_ok f xs = Inr ys \<Longrightarrow> length ys = length xs"
  by (induction xs arbitrary: ys) (auto simp: result_simps)

lemma all_ok_Inr_iff:
  "all_ok f xs = Inr ys \<longleftrightarrow> list_all2 (\<lambda>x y. f x = Inr y) xs ys"
proof (induction xs arbitrary: ys)
  case (Cons x xs)
  then show ?case by (cases ys) (auto simp: result_simps)
qed (auto)

section \<open>Bytes and strings\<close>

definition bytes_of :: "string \<Rightarrow> u8 list" where
  "bytes_of s = map (\<lambda>c. word_of_nat (of_char c)) s"

definition str_of :: "u8 list \<Rightarrow> string" where
  "str_of b = map (\<lambda>w. char_of (unat w)) b"

lemma unat_u8_mod [simp]: "unat (w :: u8) mod 256 = unat w"
  using unsigned_less [of w, where 'a = nat] by simp

lemma u8_char_roundtrip [simp]: "word_of_nat (of_char (char_of (unat (w :: u8)))) = w"
  by simp

lemma char_u8_roundtrip [simp]: "char_of (unat (word_of_nat (of_char c) :: u8)) = c"
  by (simp add: unat_of_nat)

lemma length_bytes_of [simp]: "length (bytes_of s) = length s"
  by (simp add: bytes_of_def)

lemma length_str_of [simp]: "length (str_of b) = length b"
  by (simp add: str_of_def)

lemma str_of_bytes_of [simp]: "str_of (bytes_of s) = s"
  by (simp add: str_of_def bytes_of_def comp_def map_idI)

lemma bytes_of_str_of [simp]: "bytes_of (str_of b) = b"
  by (simp add: str_of_def bytes_of_def comp_def map_idI)

lemma bytes_of_append: "bytes_of (a @ b) = bytes_of a @ bytes_of b"
  by (simp add: bytes_of_def)

abbreviation ord :: "char \<Rightarrow> nat" where
  "ord \<equiv> of_char"

definition is_digit :: "char \<Rightarrow> bool" where
  "is_digit c \<longleftrightarrow> 48 \<le> ord c \<and> ord c \<le> 57"

definition is_lower :: "char \<Rightarrow> bool" where
  "is_lower c \<longleftrightarrow> 97 \<le> ord c \<and> ord c \<le> 122"

definition is_upper :: "char \<Rightarrow> bool" where
  "is_upper c \<longleftrightarrow> 65 \<le> ord c \<and> ord c \<le> 90"

definition is_alnum :: "char \<Rightarrow> bool" where
  "is_alnum c \<longleftrightarrow> is_digit c \<or> is_lower c \<or> is_upper c"

definition is_hexdigit :: "char \<Rightarrow> bool" where
  "is_hexdigit c \<longleftrightarrow> is_digit c \<or> 97 \<le> ord c \<and> ord c \<le> 102 \<or> 65 \<le> ord c \<and> ord c \<le> 70"

definition is_lower_hex :: "char \<Rightarrow> bool" where
  "is_lower_hex c \<longleftrightarrow> is_digit c \<or> 97 \<le> ord c \<and> ord c \<le> 102"

definition ascii_lower_char :: "char \<Rightarrow> char" where
  "ascii_lower_char c = (if is_upper c then char_of (ord c + 32) else c)"

definition ascii_upper_char :: "char \<Rightarrow> char" where
  "ascii_upper_char c = (if is_lower c then char_of (ord c - 32) else c)"

definition ascii_lower :: "string \<Rightarrow> string" where
  "ascii_lower s = map ascii_lower_char s"

definition ascii_upper :: "string \<Rightarrow> string" where
  "ascii_upper s = map ascii_upper_char s"

definition eq_ignore_case :: "string \<Rightarrow> string \<Rightarrow> bool" where
  "eq_ignore_case a b \<longleftrightarrow> ascii_lower a = ascii_lower b"

text \<open>Digits and hexadecimal characters by their bits, for the evaluation of examples.\<close>

lemma is_digit_bits [code]: "is_digit (Char b0 b1 b2 b3 b4 b5 b6 b7) \<longleftrightarrow>
    (if b7 then False else if b6 then False else if \<not> b5 then False else if \<not> b4 then False
     else if \<not> b3 then True else \<not> b1 \<and> \<not> b2)"
  by (cases b0; cases b1; cases b2; cases b3; cases b4; cases b5; cases b6; cases b7) (simp_all add: is_digit_def)

lemma is_lower_hex_if [code]: "is_lower_hex c \<longleftrightarrow> (if is_digit c then True else 97 \<le> ord c \<and> ord c \<le> 102)"
  by (auto simp: is_lower_hex_def)

lemma length_ascii_lower [simp]: "length (ascii_lower s) = length s"
  by (simp add: ascii_lower_def)

lemma ascii_lower_char_idem [simp]: "ascii_lower_char (ascii_lower_char c) = ascii_lower_char c"
  by (auto simp: ascii_lower_char_def is_upper_def)

lemma ascii_lower_idem [simp]: "ascii_lower (ascii_lower s) = ascii_lower s"
  by (simp add: ascii_lower_def)

lemma eq_ignore_case_refl [simp]: "eq_ignore_case s s"
  by (simp add: eq_ignore_case_def)

lemma eq_ignore_case_sym: "eq_ignore_case a b \<longleftrightarrow> eq_ignore_case b a"
  by (auto simp: eq_ignore_case_def)

lemma eq_ignore_case_trans: "eq_ignore_case a b \<Longrightarrow> eq_ignore_case b c \<Longrightarrow> eq_ignore_case a c"
  by (simp add: eq_ignore_case_def)

text \<open>The control characters of ASCII. A byte of a multi-byte UTF-8 sequence is never one.\<close>

definition ascii_control :: "char \<Rightarrow> bool" where
  "ascii_control c \<longleftrightarrow> ord c < 32 \<or> ord c = 127"

lemma ascii_control_bits [code]: "ascii_control (Char b0 b1 b2 b3 b4 b5 b6 b7) \<longleftrightarrow>
    (if b7 then False else if \<not> b6 then \<not> b5 else b5 \<and> b4 \<and> b3 \<and> b2 \<and> b1 \<and> b0)"
  by (cases b0; cases b1; cases b2; cases b3; cases b4; cases b5; cases b6; cases b7) (simp_all add: ascii_control_def)

fun split_on :: "char \<Rightarrow> string \<Rightarrow> string list" where
  "split_on d [] = [[]]"
| "split_on d (c # cs) =
     (if c = d then [] # split_on d cs
      else (case split_on d cs of [] \<Rightarrow> [[c]] | p # ps \<Rightarrow> (c # p) # ps))"

lemma split_on_not_Nil [simp]: "split_on d s \<noteq> []"
  by (induction s) (auto split: list.splits)

fun join_with :: "string \<Rightarrow> string list \<Rightarrow> string" where
  "join_with d [] = []"
| "join_with d [x] = x"
| "join_with d (x # y # zs) = x @ d @ join_with d (y # zs)"

lemma join_with_Cons: "ps \<noteq> [] \<Longrightarrow> join_with d (p # ps) = p @ d @ join_with d ps"
  by (cases ps) auto

lemma join_split: "join_with [d] (split_on d s) = s"
proof (induction s)
  case (Cons c cs)
  obtain p ps where "split_on d cs = p # ps"
    by (cases "split_on d cs") auto
  with Cons show ?case
    by (cases ps) (auto simp: join_with_Cons)
qed simp

lemma split_on_part: "p \<in> set (split_on d s) \<Longrightarrow> set p \<subseteq> set s - {d}"
proof (induction s arbitrary: p)
  case (Cons c cs)
  obtain q qs where "split_on d cs = q # qs"
    by (cases "split_on d cs") auto
  with Cons show ?case
    by (fastforce split: if_splits)
qed simp

fun contains_str :: "string \<Rightarrow> string \<Rightarrow> bool" where
  "contains_str p [] = (p = [])"
| "contains_str p (c # cs) = (prefix p (c # cs) \<or> contains_str p cs)"

lemma contains_str_iff: "contains_str p s \<longleftrightarrow> (\<exists>a b. s = a @ p @ b)"
proof (induction s)
  case (Cons c cs)
  have "(\<exists>a b. c # cs = a @ p @ b) \<longleftrightarrow> prefix p (c # cs) \<or> (\<exists>a b. cs = a @ p @ b)"
  proof
    assume "\<exists>a b. c # cs = a @ p @ b"
    then obtain a b where ab: "c # cs = a @ p @ b" by blast
    show "prefix p (c # cs) \<or> (\<exists>a b. cs = a @ p @ b)"
    proof (cases a)
      case Nil
      with ab show ?thesis by (auto simp: prefix_def)
    next
      case (Cons x xs)
      with ab show ?thesis by auto
    qed
  qed (auto simp: prefix_def intro: exI [of _ "[]"] exI [of _ "c # _"], metis append_Cons)
  with Cons show ?case by simp
qed auto

definition strip_prefix :: "string \<Rightarrow> string \<Rightarrow> string option" where
  "strip_prefix p s = (if prefix p s then Some (drop (length p) s) else None)"

definition strip_suffix :: "string \<Rightarrow> string \<Rightarrow> string option" where
  "strip_suffix p s = (if suffix p s then Some (take (length s - length p) s) else None)"

lemma strip_prefix_Some: "strip_prefix p s = Some r \<longleftrightarrow> s = p @ r"
  by (auto simp: strip_prefix_def prefix_def)

lemma strip_suffix_Some: "strip_suffix p s = Some r \<longleftrightarrow> s = r @ p"
  by (auto simp: strip_suffix_def suffix_def)

definition ends_with_char :: "char \<Rightarrow> string \<Rightarrow> bool" where
  "ends_with_char c s \<longleftrightarrow> s \<noteq> [] \<and> last s = c"

end
