(* ===== verification/Bytes.thy ===== *)
theory Bytes
  imports Prelude
begin

text \<open>
  Fixed-width integers as bytes (\<^verbatim>\<open>to_le_bytes\<close>, \<^verbatim>\<open>from_le_bytes\<close>, \<^verbatim>\<open>to_be_bytes\<close>), UTF-8
  validity as \<^verbatim>\<open>std::str::from_utf8\<close> decides it, decimal and hexadecimal numerals, and the
  digest spelling of \<^verbatim>\<open>native/files.rs\<close>.
\<close>

section \<open>Integers as bytes\<close>

fun le_enc :: "nat \<Rightarrow> nat \<Rightarrow> u8 list" where
  "le_enc 0 x = []"
| "le_enc (Suc n) x = word_of_nat (x mod 256) # le_enc n (x div 256)"

fun le_dec :: "u8 list \<Rightarrow> nat" where
  "le_dec [] = 0"
| "le_dec (b # bs) = unat b + 256 * le_dec bs"

lemma length_le_enc [simp]: "length (le_enc n x) = n"
  by (induction n arbitrary: x) auto

lemma unat_u8_bound [simp]: "unat (b :: u8) < 256"
  using unsigned_less [of b, where 'a = nat] by simp

lemma le_dec_enc: "le_dec (le_enc n x) = x mod 256 ^ n"
proof (induction n arbitrary: x)
  case (Suc n)
  have "unat (word_of_nat (x mod 256) :: u8) = x mod 256"
    by (simp add: unat_of_nat)
  then show ?case
    using Suc by (simp add: mod_mult2_eq)
qed simp

lemma le_enc_dec: "le_enc (length bs) (le_dec bs) = bs"
proof (induction bs)
  case (Cons b bs)
  have "(unat b + 256 * le_dec bs) mod 256 = unat b"
    and "(unat b + 256 * le_dec bs) div 256 = le_dec bs"
    by (simp_all add: div_mult_self1)
  with Cons show ?case by simp
qed simp

lemma le_dec_bound: "le_dec bs < 256 ^ length bs"
proof (induction bs)
  case (Cons b bs)
  have "unat b + 256 * le_dec bs < 256 + 256 * le_dec bs"
    by simp
  also have "\<dots> \<le> 256 * 256 ^ length bs"
    using Cons by simp
  finally show ?case by simp
qed simp

definition le32 :: "u32 \<Rightarrow> u8 list" where
  "le32 w = le_enc 4 (unat w)"

definition le64 :: "u64 \<Rightarrow> u8 list" where
  "le64 w = le_enc 8 (unat w)"

definition be32 :: "u32 \<Rightarrow> u8 list" where
  "be32 w = rev (le32 w)"

definition be64 :: "u64 \<Rightarrow> u8 list" where
  "be64 w = rev (le64 w)"

definition from_le16 :: "u8 list \<Rightarrow> u16" where
  "from_le16 bs = word_of_nat (le_dec bs)"

definition from_le32 :: "u8 list \<Rightarrow> u32" where
  "from_le32 bs = word_of_nat (le_dec bs)"

definition from_le64 :: "u8 list \<Rightarrow> u64" where
  "from_le64 bs = word_of_nat (le_dec bs)"

lemma length_le32 [simp]: "length (le32 w) = 4"
  by (simp add: le32_def)

lemma length_le64 [simp]: "length (le64 w) = 8"
  by (simp add: le64_def)

lemma from_le32_le32 [simp]: "from_le32 (le32 w) = w"
proof -
  have "unat w < 2 ^ 32"
    using unsigned_less [of w, where 'a = nat] by simp
  then show ?thesis
    by (simp add: from_le32_def le32_def le_dec_enc)
qed

lemma from_le64_le64 [simp]: "from_le64 (le64 w) = w"
proof -
  have "unat w < 2 ^ 64"
    using unsigned_less [of w, where 'a = nat] by simp
  then show ?thesis
    by (simp add: from_le64_def le64_def le_dec_enc)
qed

lemma le32_from_le32: "length bs = 4 \<Longrightarrow> le32 (from_le32 bs) = bs"
  using le_dec_bound [of bs] le_enc_dec [of bs]
  by (simp add: le32_def from_le32_def unat_of_nat)

lemma le64_from_le64: "length bs = 8 \<Longrightarrow> le64 (from_le64 bs) = bs"
  using le_dec_bound [of bs] le_enc_dec [of bs]
  by (simp add: le64_def from_le64_def unat_of_nat)

lemma unat_word32_of_nat: "n < 4294967296 \<Longrightarrow> unat (word_of_nat n :: u32) = n"
  by (simp add: unat_of_nat)

section \<open>UTF-8\<close>

definition cont_byte :: "u8 \<Rightarrow> bool" where
  "cont_byte b \<longleftrightarrow> 128 \<le> unat b \<and> unat b \<le> 191"

definition second_of_3 :: "u8 \<Rightarrow> u8 \<Rightarrow> bool" where
  "second_of_3 a b \<longleftrightarrow> cont_byte b \<and> (a = 0xE0 \<longrightarrow> 160 \<le> unat b) \<and> (a = 0xED \<longrightarrow> unat b \<le> 159)"

definition second_of_4 :: "u8 \<Rightarrow> u8 \<Rightarrow> bool" where
  "second_of_4 a b \<longleftrightarrow> cont_byte b \<and> (a = 0xF0 \<longrightarrow> 144 \<le> unat b) \<and> (a = 0xF4 \<longrightarrow> unat b \<le> 143)"

fun utf8_valid :: "u8 list \<Rightarrow> bool" where
  "utf8_valid [] = True"
| "utf8_valid (a # bs) =
     (if unat a < 128 then utf8_valid bs
      else if 194 \<le> unat a \<and> unat a \<le> 223 then
        (case bs of b # r \<Rightarrow> cont_byte b \<and> utf8_valid r | _ \<Rightarrow> False)
      else if 224 \<le> unat a \<and> unat a \<le> 239 then
        (case bs of b # c # r \<Rightarrow> second_of_3 a b \<and> cont_byte c \<and> utf8_valid r | _ \<Rightarrow> False)
      else if 240 \<le> unat a \<and> unat a \<le> 244 then
        (case bs of b # c # d # r \<Rightarrow>
           second_of_4 a b \<and> cont_byte c \<and> cont_byte d \<and> utf8_valid r | _ \<Rightarrow> False)
      else False)"

lemma utf8_valid_ascii: "\<forall>b \<in> set bs. unat b < 128 \<Longrightarrow> utf8_valid bs"
  by (induction bs) auto

definition from_utf8 :: "u8 list \<Rightarrow> string option" where
  "from_utf8 bs = (if utf8_valid bs then Some (str_of bs) else None)"

text \<open>The type invariant of a Rust \<^verbatim>\<open>String\<close>.\<close>

definition is_string :: "string \<Rightarrow> bool" where
  "is_string s \<longleftrightarrow> utf8_valid (bytes_of s)"

lemma from_utf8_bytes_of: "is_string s \<Longrightarrow> from_utf8 (bytes_of s) = Some s"
  by (simp add: from_utf8_def is_string_def)

lemma from_utf8_Some: "from_utf8 bs = Some s \<Longrightarrow> is_string s \<and> bytes_of s = bs"
  by (auto simp: from_utf8_def is_string_def split: if_splits)

lemma is_string_ascii: "\<forall>c \<in> set s. ord c < 128 \<Longrightarrow> is_string s"
  unfolding is_string_def bytes_of_def
  by (rule utf8_valid_ascii) (auto simp: unat_of_nat)

section \<open>Numerals\<close>

fun digits_value :: "nat \<Rightarrow> nat \<Rightarrow> string \<Rightarrow> nat" where
  "digits_value base acc [] = acc"
| "digits_value base acc (c # cs) =
     digits_value base (base * acc +
       (if is_digit c then ord c - 48
        else if 97 \<le> ord c then ord c - 87 else ord c - 55)) cs"

text \<open>\<^verbatim>\<open>str::parse\<close> for an unsigned type with largest value \<open>m\<close>: one optional plus sign, then
  at least one decimal digit and nothing else.\<close>

definition parse_unsigned :: "nat \<Rightarrow> string \<Rightarrow> nat option" where
  "parse_unsigned m s =
     (let d = (case s of c # r \<Rightarrow> if c = CHR ''+'' then r else s | [] \<Rightarrow> [])
      in if d \<noteq> [] \<and> list_all is_digit d \<and> digits_value 10 0 d \<le> m
         then Some (digits_value 10 0 d) else None)"

definition parse_hex :: "nat \<Rightarrow> string \<Rightarrow> nat option" where
  "parse_hex m s =
     (let d = (case s of c # r \<Rightarrow> if c = CHR ''+'' then r else s | [] \<Rightarrow> [])
      in if d \<noteq> [] \<and> list_all is_hexdigit d \<and> digits_value 16 0 d \<le> m
         then Some (digits_value 16 0 d) else None)"

lemma parse_unsigned_bound: "parse_unsigned m s = Some n \<Longrightarrow> n \<le> m"
  by (auto simp: parse_unsigned_def Let_def split: if_splits)

lemma parse_hex_bound: "parse_hex m s = Some n \<Longrightarrow> n \<le> m"
  by (auto simp: parse_hex_def Let_def split: if_splits)

fun show_nat :: "nat \<Rightarrow> string" where
  "show_nat n = (if n < 10 then [char_of (48 + n)]
                 else show_nat (n div 10) @ [char_of (48 + n mod 10)])"

declare show_nat.simps [simp del]

lemma digits_value_append:
  "digits_value b acc (xs @ ys) = digits_value b (digits_value b acc xs) ys"
  by (induction xs arbitrary: acc) auto

lemma show_nat_nonempty [simp]: "show_nat n \<noteq> []"
  by (subst show_nat.simps) simp

lemma show_nat_digits: "list_all is_digit (show_nat n)"
proof (induction n rule: show_nat.induct)
  case (1 n)
  have "is_digit (char_of (48 + n mod 10))" "n < 10 \<Longrightarrow> is_digit (char_of (48 + n))"
    by (simp_all add: is_digit_def)
  with 1 show ?case
    by (subst show_nat.simps) simp
qed

lemma digits_value_show: "digits_value 10 0 (show_nat n) = n"
proof (induction n rule: show_nat.induct)
  case (1 n)
  then show ?case
    by (subst show_nat.simps) (auto simp: digits_value_append is_digit_def)
qed

lemma parse_show: "n \<le> m \<Longrightarrow> parse_unsigned m (show_nat n) = Some n"
proof -
  assume "n \<le> m"
  obtain c r where cr: "show_nat n = c # r"
    by (metis neq_Nil_conv show_nat_nonempty)
  then have "c \<noteq> CHR ''+''"
    using show_nat_digits [of n] by (auto simp: is_digit_def)
  with cr \<open>n \<le> m\<close> show ?thesis
    using show_nat_digits [of n] digits_value_show [of n]
    by (simp add: parse_unsigned_def Let_def)
qed

section \<open>Digests\<close>

definition hex_char :: "nat \<Rightarrow> char" where
  "hex_char n = (if n < 10 then char_of (48 + n) else char_of (87 + n))"

definition hex_encode :: "u8 list \<Rightarrow> string" where
  "hex_encode bs = concat (map (\<lambda>b. [hex_char (unat b div 16), hex_char (unat b mod 16)]) bs)"

definition hex_digest :: "string \<Rightarrow> bool" where
  "hex_digest v \<longleftrightarrow> length v = 64 \<and> list_all is_lower_hex v"

definition sha256_hex :: "(u8 list \<Rightarrow> u8 list) \<Rightarrow> u8 list \<Rightarrow> string" where
  "sha256_hex H b = hex_encode (H b)"

lemma length_hex_encode [simp]: "length (hex_encode bs) = 2 * length bs"
  by (induction bs) (auto simp: hex_encode_def)

lemma hex_char_0: "hex_char 0 = CHR ''0''"
  by code_simp

lemma hex_encode_code [code]: "hex_encode [] = []"
  "hex_encode (b # bs) = (if b = 0 then ''00'' else [hex_char (unat b div 16), hex_char (unat b mod 16)]) @ hex_encode bs"
  by (simp_all add: hex_encode_def hex_char_0)

lemma hex_char_lower: "n < 16 \<Longrightarrow> is_lower_hex (hex_char n)"
  by (auto simp: hex_char_def is_lower_hex_def is_digit_def)

lemma hex_encode_lower: "list_all is_lower_hex (hex_encode bs)"
proof (induction bs)
  case (Cons b bs)
  have "unat b div 16 < 16"
    using unat_u8_bound [of b] by linarith
  with Cons show ?case
    by (simp add: hex_encode_def hex_char_lower)
qed (simp add: hex_encode_def)

lemma hex_digest_sha256: "length (H b) = 32 \<Longrightarrow> hex_digest (sha256_hex H b)"
  by (simp add: hex_digest_def sha256_hex_def hex_encode_lower)

lemma hex_char_inj: "m < 16 \<Longrightarrow> n < 16 \<Longrightarrow> hex_char m = hex_char n \<Longrightarrow> m = n"
  by (auto simp: hex_char_def split: if_splits)

lemma hex_encode_inj: "hex_encode a = hex_encode b \<longleftrightarrow> a = b"
proof (induction a arbitrary: b)
  case Nil
  then show ?case by (cases b) (auto simp: hex_encode_def)
next
  case (Cons x xs)
  show ?case
  proof (cases b)
    case (Cons y ys)
    have "x = y" if "hex_char (unat x div 16) = hex_char (unat y div 16)"
        "hex_char (unat x mod 16) = hex_char (unat y mod 16)"
    proof -
      have "unat x div 16 < 16" "unat y div 16 < 16"
        using unat_u8_bound [of x] unat_u8_bound [of y] by linarith+
      with that have "unat x div 16 = unat y div 16" "unat x mod 16 = unat y mod 16"
        by (auto intro: hex_char_inj)
      then have "unat x = unat y"
        by (metis mult_div_mod_eq)
      then show ?thesis by (simp add: word_unat_eq_iff)
    qed
    with Cons.IH [of ys] Cons show ?thesis
      by (auto simp: hex_encode_def)
  qed (auto simp: hex_encode_def)
qed

text \<open>\<open>SHA-256\<close> is the \<^verbatim>\<open>sha2\<close> crate: a parameter of the model. What the code relies on is the
  length of its digest.\<close>

definition is_sha256 :: "(u8 list \<Rightarrow> u8 list) \<Rightarrow> bool" where
  "is_sha256 H \<longleftrightarrow> (\<forall>b. length (H b) = 32)"

end
