(* ===== verification/OrderedMap.thy ===== *)
theory OrderedMap
  imports Prelude
begin

text \<open>
  Rust's \<^verbatim>\<open>BTreeMap\<close> and \<^verbatim>\<open>BTreeSet\<close> as association lists in strictly increasing key
  order: iterating is reading the list. The interface the components use is the locale
  \<open>ordered_map\<close>; its laws are discharged for the list model at the end of the theory.
\<close>

section \<open>The interface\<close>

locale ordered_map =
  fixes get :: "'m \<Rightarrow> 'k :: linorder \<Rightarrow> 'v option"
    and put :: "'k \<Rightarrow> 'v \<Rightarrow> 'm \<Rightarrow> 'm"
    and del :: "'k \<Rightarrow> 'm \<Rightarrow> 'm"
    and entries :: "'m \<Rightarrow> ('k \<times> 'v) list"
    and inv :: "'m \<Rightarrow> bool"
    and nil :: 'm
  assumes get_put: "get (put k v m) j = (if j = k then Some v else get m j)"
    and get_del: "get (del k m) j = (if j = k then None else get m j)"
    and get_nil: "get nil j = None"
    and inv_nil: "inv nil"
    and inv_put: "inv m \<Longrightarrow> inv (put k v m)"
    and inv_del: "inv m \<Longrightarrow> inv (del k m)"
    and entries_get: "inv m \<Longrightarrow> (k, v) \<in> set (entries m) \<longleftrightarrow> get m k = Some v"
    and entries_sorted: "inv m \<Longrightarrow> sorted_wrt (<) (map fst (entries m))"
begin

text \<open>Building a map by insertion: the last write of a key wins and the invariant holds.\<close>

lemma inv_fold_put: "inv m \<Longrightarrow> inv (fold (\<lambda>(k, v). put k v) kvs m)"
  by (induction kvs arbitrary: m) (auto intro: inv_put)

lemma get_fold_put:
  "get (fold (\<lambda>(k, v). put k v) kvs m) j =
     (case map_of (rev kvs) j of Some v \<Rightarrow> Some v | None \<Rightarrow> get m j)"
proof (induction kvs arbitrary: m)
  case (Cons kv kvs)
  obtain k v where [simp]: "kv = (k, v)" by (cases kv)
  show ?case
    by (auto simp: Cons get_put map_of_append map_add_def split: option.splits)
qed simp

lemma distinct_entries: "inv m \<Longrightarrow> distinct (map fst (entries m))"
  using entries_sorted strict_sorted_iff by blast

text \<open>The entries of a map are determined by its lookup function.\<close>

lemma entries_unique:
  assumes "inv m" "inv n" "get m = get n"
  shows "entries m = entries n"
proof -
  have eq: "set (entries m) = set (entries n)"
    using assms entries_get by auto
  have "inj_on fst (set (entries m) \<union> set (entries n))"
    using assms entries_get by (intro inj_onI) (auto simp: eq)
  then show ?thesis
    using eq entries_sorted [OF assms(1)] entries_sorted [OF assms(2)]
    by (intro map_sorted_distinct_set_unique [where f = fst]) (auto simp: strict_sorted_iff)
qed

end

section \<open>The model\<close>

type_synonym ('k, 'v) btree = "('k \<times> 'v) list"

definition bt_ok :: "('k :: linorder, 'v) btree \<Rightarrow> bool" where
  "bt_ok m \<longleftrightarrow> sorted_wrt (<) (map fst m)"

definition bt_get :: "('k, 'v) btree \<Rightarrow> 'k \<Rightarrow> 'v option" where
  "bt_get m = map_of m"

definition bt_has :: "('k, 'v) btree \<Rightarrow> 'k \<Rightarrow> bool" where
  "bt_has m k \<longleftrightarrow> bt_get m k \<noteq> None"

fun bt_put :: "'k :: linorder \<Rightarrow> 'v \<Rightarrow> ('k, 'v) btree \<Rightarrow> ('k, 'v) btree" where
  "bt_put k v [] = [(k, v)]"
| "bt_put k v ((j, w) # m) =
     (if k < j then (k, v) # (j, w) # m
      else if k = j then (k, v) # m
      else (j, w) # bt_put k v m)"

definition bt_del :: "'k \<Rightarrow> ('k, 'v) btree \<Rightarrow> ('k, 'v) btree" where
  "bt_del k m = filter (\<lambda>e. fst e \<noteq> k) m"

definition bt_keys :: "('k, 'v) btree \<Rightarrow> 'k list" where
  "bt_keys m = map fst m"

definition bt_of_list :: "('k :: linorder \<times> 'v) list \<Rightarrow> ('k, 'v) btree" where
  "bt_of_list kvs = fold (\<lambda>(k, v). bt_put k v) kvs []"

definition sorted_set :: "'k :: linorder list \<Rightarrow> 'k list" where
  "sorted_set xs = sort (remdups xs)"

lemma set_sorted_set [simp]: "set (sorted_set xs) = set xs"
  by (simp add: sorted_set_def)

lemma strict_sorted_set: "sorted_wrt (<) (sorted_set xs)"
  by (simp add: sorted_set_def strict_sorted_iff)

lemma distinct_sorted_set [simp]: "distinct (sorted_set xs)"
  by (simp add: sorted_set_def)

lemma sorted_set_cong: "set xs = set ys \<Longrightarrow> sorted_set xs = sorted_set ys"
  by (metis set_sorted_set strict_sorted_equal strict_sorted_set)

lemma bt_get_put: "bt_get (bt_put k v m) j = (if j = k then Some v else bt_get m j)"
  by (induction k v m rule: bt_put.induct) (auto simp: bt_get_def)

lemma bt_get_del: "bt_get (bt_del k m) j = (if j = k then None else bt_get m j)"
  by (induction m) (auto simp: bt_get_def bt_del_def)

lemma bt_keys_put: "set (map fst (bt_put k v m)) = insert k (set (map fst m))"
  by (induction k v m rule: bt_put.induct) auto

lemma bt_ok_Nil [simp]: "bt_ok []"
  by (simp add: bt_ok_def)

lemma bt_ok_Cons: "bt_ok ((k, v) # m) \<longleftrightarrow> (\<forall>j \<in> set (map fst m). k < j) \<and> bt_ok m"
  by (auto simp: bt_ok_def)

lemma bt_ok_put: "bt_ok m \<Longrightarrow> bt_ok (bt_put k v m)"
proof (induction k v m rule: bt_put.induct)
  case (2 k v j w m)
  show ?case
  proof (cases "k < j \<or> k = j")
    case True
    with "2.prems" show ?thesis
      by (auto simp: bt_ok_Cons intro: less_trans)
  next
    case False
    then have "bt_ok (bt_put k v m)"
      using 2 by (simp add: bt_ok_Cons)
    moreover have "j < k"
      using False by auto
    ultimately show ?thesis
      using False "2.prems" by (simp add: bt_ok_Cons bt_keys_put [unfolded list.set_map])
  qed
qed (simp add: bt_ok_def)

lemma bt_ok_del: "bt_ok m \<Longrightarrow> bt_ok (bt_del k m)"
  by (induction m) (auto simp: bt_del_def bt_ok_def)

lemma bt_ok_distinct: "bt_ok m \<Longrightarrow> distinct (map fst m)"
  by (simp add: bt_ok_def strict_sorted_iff)

lemma bt_get_iff: "bt_ok m \<Longrightarrow> (k, v) \<in> set m \<longleftrightarrow> bt_get m k = Some v"
  by (simp add: bt_get_def bt_ok_distinct)

interpretation bt: ordered_map bt_get bt_put bt_del "\<lambda>m. m" bt_ok "[]"
  by unfold_locales
    (auto simp: bt_get_put bt_get_del bt_ok_put bt_ok_del bt_get_iff, auto simp: bt_get_def bt_ok_def)

lemma bt_eqI: "bt_ok m \<Longrightarrow> bt_ok n \<Longrightarrow> (\<And>k. bt_get m k = bt_get n k) \<Longrightarrow> m = n"
  by (rule bt.entries_unique) auto

lemma bt_ok_of_list: "bt_ok (bt_of_list kvs)"
  by (simp add: bt_of_list_def bt.inv_fold_put)

lemma bt_has_iff: "bt_has m k \<longleftrightarrow> k \<in> set (bt_keys m)"
  by (auto simp: bt_has_def bt_get_def bt_keys_def map_of_eq_None_iff)

lemma bt_put_last:
  assumes "\<forall>j \<in> set (bt_keys m). j < k"
  shows "bt_put k v m = m @ [(k, v)]"
  using assms by (induction k v m rule: bt_put.induct) (auto simp: bt_keys_def)

lemma bt_ok_append: "bt_ok (m @ n) \<longleftrightarrow>
    bt_ok m \<and> bt_ok n \<and> (\<forall>a \<in> set (bt_keys m). \<forall>b \<in> set (bt_keys n). a < b)"
  by (auto simp: bt_ok_def bt_keys_def sorted_wrt_append)

lemma length_bt_put_new: "\<not> bt_has m k \<Longrightarrow> length (bt_put k v m) = Suc (length m)"
  by (induction k v m rule: bt_put.induct) (auto simp: bt_has_iff bt_keys_def)

lemma set_bt_put_new: "\<not> bt_has m k \<Longrightarrow> set (bt_put k v m) = insert (k, v) (set m)"
  by (induction k v m rule: bt_put.induct) (auto simp: bt_has_iff bt_keys_def)

lemma sum_list_bt_put_new:
  fixes f :: "'k :: linorder \<times> 'v \<Rightarrow> nat"
  shows "\<not> bt_has m k \<Longrightarrow> sum_list (map f (bt_put k v m)) = f (k, v) + sum_list (map f m)"
  by (induction k v m rule: bt_put.induct) (auto simp: bt_has_iff bt_keys_def)

text \<open>Inserting distinct fresh keys permutes the entries; sorted entries are rebuilt as they are.\<close>

lemma fold_put_fresh:
  fixes f :: "'k :: linorder \<times> 'v \<Rightarrow> nat"
  assumes "distinct (map fst kvs)" "\<forall>k \<in> set (map fst kvs). \<not> bt_has m k"
  shows "sum_list (map f (fold (\<lambda>(k, v). bt_put k v) kvs m)) =
      sum_list (map f kvs) + sum_list (map f m) \<and>
    set (fold (\<lambda>(k, v). bt_put k v) kvs m) = set kvs \<union> set m"
  using assms
proof (induction kvs arbitrary: m)
  case (Cons kv kvs)
  obtain k v where [simp]: "kv = (k, v)" by (cases kv)
  have fresh: "\<not> bt_has m k" "\<forall>j \<in> set (map fst kvs). \<not> bt_has (bt_put k v m) j"
    using Cons.prems by (auto simp: bt_has_def bt_get_put)
  then show ?case
    using Cons.IH [of "bt_put k v m"] Cons.prems
    by (simp add: sum_list_bt_put_new set_bt_put_new)
qed auto

lemma sum_list_bt_of_list:
  fixes f :: "'k :: linorder \<times> 'v \<Rightarrow> nat"
  assumes "distinct (map fst kvs)"
  shows "sum_list (map f (bt_of_list kvs)) = sum_list (map f kvs)"
  using fold_put_fresh [OF assms, of "[]" f] by (simp add: bt_of_list_def bt_has_def bt_get_def)

lemma set_bt_of_list: "distinct (map fst kvs) \<Longrightarrow> set (bt_of_list kvs) = set kvs"
  using fold_put_fresh [of kvs "[]"] by (simp add: bt_of_list_def bt_has_def bt_get_def)

lemma length_bt_of_list: "distinct (map fst kvs) \<Longrightarrow> length (bt_of_list kvs) = length kvs"
  using sum_list_bt_of_list [of kvs "\<lambda>_. 1"] by (simp add: sum_list_triv)

lemma fold_put_sorted: "bt_ok (m @ kvs) \<Longrightarrow> fold (\<lambda>(k, v). bt_put k v) kvs m = m @ kvs"
proof (induction kvs arbitrary: m)
  case (Cons kv kvs)
  obtain k v where [simp]: "kv = (k, v)" by (cases kv)
  have "bt_put k v m = m @ [(k, v)]"
    using Cons.prems by (intro bt_put_last) (auto simp: bt_ok_append bt_keys_def)
  with Cons show ?case by simp
qed simp

lemma bt_of_list_sorted: "bt_ok m \<Longrightarrow> bt_of_list m = m"
  using fold_put_sorted [of "[]" m] by (simp add: bt_of_list_def)

end
