(* ===== verification/Json.thy ===== *)
theory Json
  imports Bytes OrderedMap
begin

text \<open>
  \<^verbatim>\<open>serde_json::Value\<close> as the crate is built here: with \<^verbatim>\<open>preserve_order\<close> an object is the list
  of its members in insertion order, with \<^verbatim>\<open>arbitrary_precision\<close> a number is its spelling.
  The second half is \<^verbatim>\<open>native/strict_json.rs\<close> and \<^verbatim>\<open>native/ordered_json.rs\<close>. The crate's
  tokenizer and its float conversion are parameters.
\<close>

section \<open>Values\<close>

datatype json =
    JNull
  | JBool bool
  | JNum string
  | JStr string
  | JArr "json list"
  | JObj "(string \<times> json) list"

definition as_str :: "json \<Rightarrow> string option" where
  "as_str v = (case v of JStr s \<Rightarrow> Some s | _ \<Rightarrow> None)"

definition as_bool :: "json \<Rightarrow> bool option" where
  "as_bool v = (case v of JBool b \<Rightarrow> Some b | _ \<Rightarrow> None)"

definition as_array :: "json \<Rightarrow> json list option" where
  "as_array v = (case v of JArr xs \<Rightarrow> Some xs | _ \<Rightarrow> None)"

definition as_object :: "json \<Rightarrow> (string \<times> json) list option" where
  "as_object v = (case v of JObj m \<Rightarrow> Some m | _ \<Rightarrow> None)"

definition is_object :: "json \<Rightarrow> bool" where
  "is_object v = (case v of JObj _ \<Rightarrow> True | _ \<Rightarrow> False)"

definition as_u64 :: "json \<Rightarrow> nat option" where
  "as_u64 v = (case v of JNum n \<Rightarrow> parse_unsigned 18446744073709551615 n | _ \<Rightarrow> None)"

definition jnum :: "nat \<Rightarrow> json" where
  "jnum n = JNum (show_nat n)"

definition jopt :: "('a \<Rightarrow> json) \<Rightarrow> 'a option \<Rightarrow> json" where
  "jopt f m = (case m of None \<Rightarrow> JNull | Some a \<Rightarrow> f a)"

lemma as_u64_jnum: "n \<le> usize_max \<Longrightarrow> as_u64 (jnum n) = Some n"
  by (simp add: as_u64_def jnum_def parse_show)

lemma as_str_JStr [simp]: "as_str (JStr s) = Some s"
  by (simp add: as_str_def)

lemma as_str_Some: "as_str v = Some s \<longleftrightarrow> v = JStr s"
  by (auto simp: as_str_def split: json.splits)

section \<open>Members of an object\<close>

text \<open>\<^verbatim>\<open>value[key]\<close> reads \<^verbatim>\<open>Null\<close> for a missing member or a value that is no object;
  \<^verbatim>\<open>value[key] = x\<close> replaces in place or appends (a \<^verbatim>\<open>Null\<close> becomes an object first; on any
  other value the source panics, which the callers never do).\<close>

definition jget :: "json \<Rightarrow> string \<Rightarrow> json" where
  "jget v k = (case v of JObj m \<Rightarrow> (case map_of m k of Some x \<Rightarrow> x | None \<Rightarrow> JNull) | _ \<Rightarrow> JNull)"

definition jfind :: "json \<Rightarrow> string \<Rightarrow> json option" where
  "jfind v k = (case v of JObj m \<Rightarrow> map_of m k | _ \<Rightarrow> None)"

fun member_put :: "string \<Rightarrow> json \<Rightarrow> (string \<times> json) list \<Rightarrow> (string \<times> json) list" where
  "member_put k x [] = [(k, x)]"
| "member_put k x ((j, y) # m) = (if j = k then (k, x) # m else (j, y) # member_put k x m)"

definition jset :: "string \<Rightarrow> json \<Rightarrow> json \<Rightarrow> json" where
  "jset k x v = (case v of JObj m \<Rightarrow> JObj (member_put k x m) | JNull \<Rightarrow> JObj [(k, x)] | _ \<Rightarrow> v)"

definition jextend :: "(string \<times> json) list \<Rightarrow> json \<Rightarrow> json" where
  "jextend kvs v = fold (\<lambda>(k, x). jset k x) kvs v"

lemma map_of_member_put: "map_of (member_put k x m) j = (if j = k then Some x else map_of m j)"
  by (induction k x m rule: member_put.induct) auto

lemma member_put_keys: "fst ` set (member_put k x m) = insert k (fst ` set m)"
  by (induction k x m rule: member_put.induct) auto

lemma distinct_member_put: "distinct (map fst m) \<Longrightarrow> distinct (map fst (member_put k x m))"
proof (induction k x m rule: member_put.induct)
  case (2 k x j y m)
  then show ?case
    using member_put_keys [of k x m] by auto
qed simp

definition settable :: "json \<Rightarrow> bool" where
  "settable v \<longleftrightarrow> v = JNull \<or> is_object v"

lemma jget_jset: "settable v \<Longrightarrow> jget (jset k x v) j = (if j = k then x else jget v j)"
  by (cases v) (auto simp: settable_def is_object_def jget_def jset_def map_of_member_put)

lemma is_object_jset: "settable v \<Longrightarrow> is_object (jset k x v)"
  by (cases v) (auto simp: settable_def is_object_def jset_def)

lemma settable_jset: "settable v \<Longrightarrow> settable (jset k x v)"
  using is_object_jset by (auto simp: settable_def)

lemma settable_JObj [simp]: "settable (JObj m)"
  by (simp add: settable_def is_object_def)

lemma settable_jextend: "settable v \<Longrightarrow> settable (jextend kvs v)"
  unfolding jextend_def by (induction kvs arbitrary: v) (auto intro: settable_jset)

lemma jget_jextend:
  "settable v \<Longrightarrow>
   jget (jextend kvs v) j = (case map_of (rev kvs) j of Some x \<Rightarrow> x | None \<Rightarrow> jget v j)"
proof (induction kvs arbitrary: v)
  case (Cons kv kvs)
  obtain k x where [simp]: "kv = (k, x)" by (cases kv)
  show ?case
    using Cons by (auto simp: jextend_def jget_jset settable_jset map_of_append map_add_def
        split: option.splits)
qed (simp add: jextend_def)

text \<open>Every member a JSON object built from a literal list has, by name.\<close>

lemma jget_JObj: "jget (JObj m) k = (case map_of m k of Some x \<Rightarrow> x | None \<Rightarrow> JNull)"
  by (simp add: jget_def)

section \<open>Strict decoding (native/strict_json.rs)\<close>

text \<open>A raw syntax tree, as the crate's tokenizer delivers it: members may repeat.\<close>

datatype raw =
    RScalar json
  | RArr "raw list"
  | RObj "(string \<times> raw) list"

fun insert_unique ::
  "(string \<times> json) list \<Rightarrow> string \<Rightarrow> json \<Rightarrow> (string \<times> json) list option" where
  "insert_unique m k x = (if map_of m k = None then Some (m @ [(k, x)]) else None)"

fun strict :: "(string \<Rightarrow> bool) \<Rightarrow> raw \<Rightarrow> json option"
  and strict_seq :: "(string \<Rightarrow> bool) \<Rightarrow> raw list \<Rightarrow> json list \<Rightarrow> json list option"
  and strict_map :: "(string \<Rightarrow> bool) \<Rightarrow> (string \<times> raw) list \<Rightarrow> (string \<times> json) list \<Rightarrow>
       (string \<times> json) list option" where
  "strict fin (RScalar v) =
     (case v of JNum n \<Rightarrow> if fin n then Some v else None | _ \<Rightarrow> Some v)"
| "strict fin (RArr rs) = map_option JArr (strict_seq fin rs [])"
| "strict fin (RObj ms) = map_option JObj (strict_map fin ms [])"
| "strict_seq fin [] acc = Some acc"
| "strict_seq fin (r # rs) acc =
     (case strict fin r of None \<Rightarrow> None | Some v \<Rightarrow> strict_seq fin rs (acc @ [v]))"
| "strict_map fin [] acc = Some acc"
| "strict_map fin ((k, r) # ms) acc =
     (case strict fin r of None \<Rightarrow> None
      | Some v \<Rightarrow> (case insert_unique acc k v of None \<Rightarrow> None
                 | Some acc' \<Rightarrow> strict_map fin ms acc'))"

definition strict_decode ::
  "(u8 list \<Rightarrow> raw option) \<Rightarrow> (string \<Rightarrow> bool) \<Rightarrow> u8 list \<Rightarrow> json option" where
  "strict_decode tokenize fin b = Option.bind (tokenize b) (strict fin)"

text \<open>Values no object of which repeats a key, at any depth.\<close>

fun unique_keys :: "json \<Rightarrow> bool" where
  "unique_keys (JArr vs) = list_all unique_keys vs"
| "unique_keys (JObj ms) = (distinct (map fst ms) \<and> list_all (\<lambda>(k, v). unique_keys v) ms)"
| "unique_keys _ = True"

fun raw_unique :: "raw \<Rightarrow> bool" where
  "raw_unique (RScalar v) = True"
| "raw_unique (RArr rs) = list_all raw_unique rs"
| "raw_unique (RObj ms) = (distinct (map fst ms) \<and> list_all (\<lambda>(k, r). raw_unique r) ms)"

definition scalar :: "json \<Rightarrow> bool" where
  "scalar v \<longleftrightarrow> (case v of JArr _ \<Rightarrow> False | JObj _ \<Rightarrow> False | _ \<Rightarrow> True)"

fun raw_wf :: "(string \<Rightarrow> bool) \<Rightarrow> raw \<Rightarrow> bool" where
  "raw_wf fin (RScalar v) \<longleftrightarrow> scalar v \<and> (\<forall>n. v = JNum n \<longrightarrow> fin n)"
| "raw_wf fin (RArr rs) \<longleftrightarrow> list_all (raw_wf fin) rs"
| "raw_wf fin (RObj ms) \<longleftrightarrow> list_all (\<lambda>(k, r). raw_wf fin r) ms"

lemma strict_seq_iff:
  assumes "\<And>r. r \<in> set rs \<Longrightarrow> strict fin r \<noteq> None \<longleftrightarrow> raw_unique r"
  shows "strict_seq fin rs acc \<noteq> None \<longleftrightarrow> list_all raw_unique rs"
  using assms
proof (induction rs arbitrary: acc)
  case (Cons r rs)
  from Cons.prems [of r] Cons.IH [of "acc @ [the (strict fin r)]"] Cons.prems show ?case
    by (cases "strict fin r") auto
qed simp

lemma strict_map_iff:
  assumes "\<And>k r. (k, r) \<in> set ms \<Longrightarrow> strict fin r \<noteq> None \<longleftrightarrow> raw_unique r"
  shows "strict_map fin ms acc \<noteq> None \<longleftrightarrow>
     distinct (map fst ms) \<and> fst ` set ms \<inter> fst ` set acc = {} \<and>
     list_all (\<lambda>(k, r). raw_unique r) ms"
  using assms
proof (induction ms arbitrary: acc)
  case (Cons kr ms)
  obtain k r where [simp]: "kr = (k, r)" by (cases kr)
  from Cons.prems [of k r] Cons.IH [of "acc @ [(k, the (strict fin r))]"] Cons.prems show ?case
    by (cases "strict fin r") (auto simp: map_of_eq_None_iff)
qed simp

lemma strict_unique_iff:
  "raw_wf fin r \<Longrightarrow> strict fin r \<noteq> None \<longleftrightarrow> raw_unique r"
proof (induction r)
  case (RScalar v)
  then show ?case by (cases v) auto
next
  case (RArr rs)
  then have "strict_seq fin rs [] \<noteq> None \<longleftrightarrow> list_all raw_unique rs"
    by (intro strict_seq_iff) (auto simp: list_all_iff)
  then show ?case by auto
next
  case (RObj ms)
  have "strict fin r \<noteq> None \<longleftrightarrow> raw_unique r" if "(k, r) \<in> set ms" for k r
    using RObj.prems that by (intro RObj.IH [OF that]) (auto simp: list_all_iff)
  from strict_map_iff [of ms fin "[]", OF this] show ?case by auto
qed

lemma strict_seq_keys:
  assumes "\<And>r v. r \<in> set rs \<Longrightarrow> strict fin r = Some v \<Longrightarrow> unique_keys v"
    and "strict_seq fin rs acc = Some vs" "list_all unique_keys acc"
  shows "list_all unique_keys vs"
  using assms
proof (induction rs arbitrary: acc)
  case (Cons r rs)
  from Cons.prems(2) obtain v where v: "strict fin r = Some v" "strict_seq fin rs (acc @ [v]) = Some vs"
    by (auto split: option.splits)
  with Cons.prems show ?case
    by (intro Cons.IH [OF _ v(2)]) auto
qed simp

lemma strict_map_keys:
  assumes "\<And>k r v. (k, r) \<in> set ms \<Longrightarrow> strict fin r = Some v \<Longrightarrow> unique_keys v"
    and "strict_map fin ms acc = Some mvs"
    and "distinct (map fst acc)" "list_all (\<lambda>(k, v). unique_keys v) acc"
  shows "distinct (map fst mvs) \<and> list_all (\<lambda>(k, v). unique_keys v) mvs"
  using assms
proof (induction ms arbitrary: acc)
  case (Cons kr ms)
  obtain k r where [simp]: "kr = (k, r)" by (cases kr)
  from Cons.prems(2) obtain v where v: "strict fin r = Some v"
      "map_of acc k = None" "strict_map fin ms (acc @ [(k, v)]) = Some mvs"
    by (auto split: option.splits if_splits)
  with Cons.prems show ?case
    by (intro Cons.IH [OF _ v(3)]) (auto simp: map_of_eq_None_iff)
qed simp

lemma strict_unique_keys:
  "raw_wf fin r \<Longrightarrow> strict fin r = Some v \<Longrightarrow> unique_keys v"
proof (induction r arbitrary: v)
  case (RScalar w)
  then show ?case by (cases w) (auto simp: scalar_def split: if_splits)
next
  case (RArr rs)
  then obtain vs where vs: "strict_seq fin rs [] = Some vs" "v = JArr vs"
    by auto
  have "list_all unique_keys vs"
    using RArr by (intro strict_seq_keys [OF _ vs(1)]) (auto simp: list_all_iff)
  with vs show ?case by simp
next
  case (RObj ms)
  then obtain mvs where vs: "strict_map fin ms [] = Some mvs" "v = JObj mvs"
    by auto
  have "distinct (map fst mvs) \<and> list_all (\<lambda>(k, v). unique_keys v) mvs"
    using RObj by (intro strict_map_keys [OF _ vs(1)]) (auto simp: list_all_iff)
  with vs show ?case by simp
qed

end
