(* ===== verification/Errors.thy ===== *)
theory Errors
  imports Json
begin

text \<open>
  \<^verbatim>\<open>native/error.rs\<close> and \<^verbatim>\<open>native/cloud.rs\<close>: the error values, \<^verbatim>\<open>require\<close>, the cancellation and
  deadline checks, and the bounded readers of remote JSON values. Failures of the cloud code carry
  the source's static codes.
\<close>

section \<open>Error values\<close>

record failure =
  code :: string
  committed_containers :: nat
  recovery_required :: bool
  http_status :: "u16 option"
  native_hresult :: "u32 option"
  detail :: "json option"

definition Failure :: "string \<Rightarrow> failure" where
  "Failure c = \<lparr>code = c, committed_containers = 0, recovery_required = False,
     http_status = None, native_hresult = None, detail = None\<rparr>"

definition with_status :: "u16 \<Rightarrow> failure \<Rightarrow> failure" where
  "with_status s f = f\<lparr>http_status := (if 100 \<le> unat s \<and> unat s \<le> 599 then Some s else None)\<rparr>"

lemma Failure_sel [simp]:
  "code (Failure c) = c" "committed_containers (Failure c) = 0"
  "recovery_required (Failure c) = False" "http_status (Failure c) = None"
  "detail (Failure c) = None" "native_hresult (Failure c) = None"
  by (simp_all add: Failure_def)

lemma with_status_sel [simp]: "code (with_status s f) = code f"
  "committed_containers (with_status s f) = committed_containers f"
  "recovery_required (with_status s f) = recovery_required f"
  by (simp_all add: with_status_def)

lemma Failure_inject [simp]: "Failure a = Failure b \<longleftrightarrow> a = b"
  by (auto simp: Failure_def)

text \<open>\<open>Io\<close> carries \<^verbatim>\<open>raw_os_error()\<close>; the payload of a JSON error is never inspected.\<close>

datatype error =
    Invalid string
  | Io "int option"
  | Json
  | Cancelled
  | AuthRequired string
  | Cloud failure
  | Framework error
  | Graphics error

definition failure_of_error :: "error \<Rightarrow> failure" where
  "failure_of_error e = (case e of Cloud f \<Rightarrow> f | Cancelled \<Rightarrow> Failure ''cancelled''
     | _ \<Rightarrow> Failure ''local_storage'')"

definition require :: "bool \<Rightarrow> string \<Rightarrow> error + unit" where
  "require condition message = (if condition then Inr () else Inl (Invalid message))"

definition cloud_require :: "bool \<Rightarrow> string \<Rightarrow> failure + unit" where
  "cloud_require okay c = (if okay then Inr () else Inl (Failure c))"

lemma require_simps [simp]:
  "require True m = Inr ()" "require False m = Inl (Invalid m)"
  "require c m = Inr u \<longleftrightarrow> c"
  by (simp_all add: require_def)

lemma require_eq_Inl: "require c m = Inl e \<longleftrightarrow> \<not> c \<and> e = Invalid m"
  by (auto simp: require_def)

lemma cloud_require_simps [simp]:
  "cloud_require True m = Inr ()" "cloud_require False m = Inl (Failure m)"
  "cloud_require c m = Inr u \<longleftrightarrow> c"
  by (simp_all add: cloud_require_def)

lemma cloud_require_eq_Inl: "cloud_require c m = Inl e \<longleftrightarrow> \<not> c \<and> e = Failure m"
  by (auto simp: cloud_require_def)

section \<open>Messages\<close>

definition a_uml :: string where "a_uml = [CHR 0xC3, CHR 0xA4]"
definition o_uml :: string where "o_uml = [CHR 0xC3, CHR 0xB6]"
definition u_uml :: string where "u_uml = [CHR 0xC3, CHR 0xBC]"
definition big_u_uml :: string where "big_u_uml = [CHR 0xC3, CHR 0x9C]"
definition sharp_s :: string where "sharp_s = [CHR 0xC3, CHR 0x9F]"

lemmas uml_defs = a_uml_def o_uml_def u_uml_def big_u_uml_def sharp_s_def

definition failure_text :: "failure \<Rightarrow> string" where
  "failure_text f =
     (let c = code f in
      if c = ''authentication'' then ''Die Xbox-Anmeldung muss erneuert werden.''
      else if c = ''changed'' \<or> c = ''local_changed'' then
        ''Die Spielst'' @ a_uml @ ''nde haben sich ge'' @ a_uml @ ''ndert. Bitte erneut vergleichen.''
      else if c = ''conflict'' then
        ''Die Spielst'' @ a_uml @ ''nde unterscheiden sich. Bitte einen Stand ausw'' @ a_uml @ ''hlen.''
      else if c = ''invalid_scope'' then
        ''Das Xbox-Spielprofil hat sich ge'' @ a_uml @ ''ndert. Bitte erneut vergleichen.''
      else if c = ''busy'' then
        ''Die Spielst'' @ a_uml @ ''nde werden gerade verwendet. Bitte den Simulator beenden.''
      else if c = ''lease_lost'' then
        ''Die Xbox-Cloud-Sperre ist nicht mehr verf'' @ u_uml @
        ''gbar. Bitte sp'' @ a_uml @ ''ter erneut vergleichen.''
      else if c = ''quota'' then
        ''Der verf'' @ u_uml @ ''gbare Xbox-Cloud-Speicher reicht f'' @ u_uml @
        ''r diese Spielst'' @ a_uml @ ''nde nicht aus.''
      else if c = ''cancelled'' then ''Der Cloud-Vorgang wurde abgebrochen.''
      else if c = ''deadline'' then
        ''Der Cloud-Vorgang hat sein Zeitlimit '' @ u_uml @ ''berschritten.''
      else if c = ''unsafe_session'' then
        ''Die vorherige Spielsitzung ist noch nicht freigegeben. Sitzung pr'' @ u_uml @
        ''fen beendet ihre verbliebenen Prozesse.''
      else if c = ''invalid_snapshot'' then
        ''Die Cloud-Kopie ist ung'' @ u_uml @ ''ltig. Bitte erneut herunterladen.''
      else if c = ''invalid_plan'' then
        ''Dieser Spielstandvergleich ist nicht mehr g'' @ u_uml @ ''ltig. Bitte erneut vergleichen.''
      else if c = ''local_storage'' \<or> c = ''durability_unknown'' then
        ''Die Spielstandsicherung konnte nicht sicher abgeschlossen werden.''
      else ''Der Cloud-Abgleich konnte nicht best'' @ a_uml @
        ''tigt werden. Lokale Sicherungen bleiben erhalten.'')"

fun error_text :: "error \<Rightarrow> string" where
  "error_text (Cloud f) = failure_text f"
| "error_text (Framework e) = error_text e"
| "error_text (Graphics e) = error_text e"
| "error_text (Invalid m) = m"
| "error_text (AuthRequired m) = m"
| "error_text (Io _) =
     ''Der lokale Vorgang ist fehlgeschlagen. Bitte Pfad und Schreibrechte pr'' @ u_uml @ ''fen.''"
| "error_text Json = ''Ung'' @ u_uml @ ''ltige oder besch'' @ a_uml @ ''digte Konfigurationsdaten.''"
| "error_text Cancelled = ''Vorgang abgebrochen.''"

section \<open>Cancellation and deadlines\<close>

definition cloud_check :: "bool \<Rightarrow> failure + unit" where
  "cloud_check cancel = cloud_require (\<not> cancel) ''cancelled''"

text \<open>Instants are nanoseconds; \<open>now\<close> is the clock the call reads.\<close>

definition remaining :: "bool \<Rightarrow> nat \<Rightarrow> nat \<Rightarrow> failure + nat" where
  "remaining cancel now deadline =
     rbind (cloud_check cancel) (\<lambda>_.
     if now < deadline then Inr (deadline - now) else Inl (Failure ''deadline''))"

lemma remaining_Inr:
  "remaining cancel now deadline = Inr d \<longleftrightarrow> \<not> cancel \<and> now < deadline \<and> d = deadline - now"
  by (auto simp: remaining_def cloud_check_def cloud_require_def)

section \<open>Bounded values of a remote answer\<close>

definition cloud_json :: "(u8 list \<Rightarrow> json option) \<Rightarrow> u8 list \<Rightarrow> failure + json" where
  "cloud_json decode bytes =
     rbind (ok_or (decode bytes) (Failure ''invalid_response'')) (\<lambda>value.
     rbind (cloud_require (is_object value) ''invalid_response'') (\<lambda>_. Inr value))"

definition cloud_text :: "json \<Rightarrow> nat \<Rightarrow> bool \<Rightarrow> failure + string" where
  "cloud_text value maximum allow_empty =
     rbind (ok_or (as_str value) (Failure ''invalid_response'')) (\<lambda>v.
     rbind (cloud_require ((allow_empty \<or> v \<noteq> []) \<and> \<not> list_ex ascii_control v) ''invalid_response'') (\<lambda>_.
     rbind (cloud_require (length v \<le> maximum) ''bounds'') (\<lambda>_. Inr v)))"

definition cloud_number :: "json \<Rightarrow> nat \<Rightarrow> failure + nat" where
  "cloud_number value maximum =
     ok_or (Option.bind (as_u64 value) (\<lambda>v. if v \<le> maximum then Some v else None))
       (Failure ''invalid_response'')"

definition guid :: "string \<Rightarrow> bool" where
  "guid value \<longleftrightarrow> length value = 36 \<and>
     list_all (\<lambda>(i, b). if i = 8 \<or> i = 13 \<or> i = 18 \<or> i = 23 then b = CHR ''-'' else is_hexdigit b)
       (zip [0..<length value] value)"

definition cloud_identifier :: "string \<Rightarrow> string \<Rightarrow> bool" where
  "cloud_identifier value p =
     (case strip_prefix p value of None \<Rightarrow> False
      | Some v \<Rightarrow> length v = 32 \<and> list_all is_lower_hex v)"

lemma cloud_text_Inr:
  "cloud_text value maximum allow_empty = Inr v \<Longrightarrow>
   value = JStr v \<and> length v \<le> maximum \<and> (allow_empty \<or> v \<noteq> []) \<and> (\<forall>c \<in> set v. \<not> ascii_control c)"
  by (auto simp: cloud_text_def result_simps as_str_Some list_ex_iff)

lemma cloud_number_Inr: "cloud_number value maximum = Inr n \<Longrightarrow> n \<le> maximum"
  by (auto simp: cloud_number_def result_simps bind_eq_Some_conv split: if_splits)

lemma cloud_identifier_iff:
  "cloud_identifier value p \<longleftrightarrow> (\<exists>v. value = p @ v \<and> length v = 32 \<and> list_all is_lower_hex v)"
  by (auto simp: cloud_identifier_def strip_prefix_Some split: option.splits) (auto simp: strip_prefix_def)

end
