(* ===== verification/SaveState.thy ===== *)
theory SaveState
  imports Errors
begin

text \<open>
  \<^verbatim>\<open>native/save_state.rs\<close>: the binary interchange format of a local save. Names, the bounded
  reader, \<^verbatim>\<open>decode\<close>, \<^verbatim>\<open>encode\<close> and the content digest. SHA-256 is the parameter \<open>H\<close>.
\<close>

section \<open>Data\<close>

abbreviation QUOTA :: nat where "QUOTA \<equiv> 268435456"
abbreviation METADATA_LIMIT :: nat where "METADATA_LIMIT \<equiv> 33554432"
abbreviation CONTAINER_LIMIT :: nat where "CONTAINER_LIMIT \<equiv> 4096"
abbreviation BLOB_LIMIT :: nat where "BLOB_LIMIT \<equiv> 65536"

definition INVALID :: string where
  "INVALID = ''Ung'' @ u_uml @ ''ltiger oder besch'' @ a_uml @ ''digter Spielstand.''"

definition BAD_CHECKSUM :: string where
  "BAD_CHECKSUM = ''Pr'' @ u_uml @ ''fsumme des Spielstands stimmt nicht.''"

definition MAGIC :: "u8 list" where
  "MAGIC = bytes_of ''XDLOCAL1''"

lemma length_MAGIC [simp]: "length MAGIC = 8"
  by (simp add: MAGIC_def)

record container =
  display_name :: string
  modified :: u64
  blobs :: "(string, u8 list) btree"

record state =
  generation :: u64
  containers :: "(string, container) btree"

section \<open>Names\<close>

definition part_byte :: "bool \<Rightarrow> char \<Rightarrow> bool" where
  "part_byte parent b \<longleftrightarrow>
     is_alnum b \<or> b = CHR ''_'' \<or> (\<not> parent \<and> (b = CHR ''.'' \<or> b = CHR ''-''))"

fun name_parts :: "bool \<Rightarrow> string list \<Rightarrow> error + unit" where
  "name_parts container [] = Inr ()"
| "name_parts container (part # parts) =
     rbind (require (part \<noteq> []) INVALID) (\<lambda>_.
     let parent = parts \<noteq> [] in
     rbind (require (\<not> parent \<or> container) INVALID) (\<lambda>_.
     rbind (require (list_all (part_byte parent) part) INVALID) (\<lambda>_.
     name_parts container parts)))"

definition save_name :: "string \<Rightarrow> bool \<Rightarrow> error + unit" where
  "save_name value container =
     rbind (require (value \<noteq> [] \<and> length value \<le> 256 \<and> \<not> contains_str ''..'' value \<and>
                     \<not> ends_with_char (CHR ''.'') value) INVALID) (\<lambda>_.
     name_parts container (split_on (CHR ''/'') value))"

section \<open>The reader\<close>

record reader =
  data :: "u8 list"
  position :: nat

definition take_bytes :: "nat \<Rightarrow> reader \<Rightarrow> error + (u8 list \<times> reader)" where
  "take_bytes n r =
     (let e = position r + n in
      if e \<le> usize_max then
        (if e \<le> length (data r)
         then Inr (take n (drop (position r) (data r)), r\<lparr>position := e\<rparr>)
         else Inl (Invalid INVALID))
      else Inl (Invalid INVALID))"

definition read_u32 :: "reader \<Rightarrow> error + (u32 \<times> reader)" where
  "read_u32 r = rbind (take_bytes 4 r) (\<lambda>(b, r). Inr (from_le32 b, r))"

definition read_u64 :: "reader \<Rightarrow> error + (u64 \<times> reader)" where
  "read_u64 r = rbind (take_bytes 8 r) (\<lambda>(b, r). Inr (from_le64 b, r))"

definition read_text :: "nat \<Rightarrow> reader \<Rightarrow> error + (string \<times> reader)" where
  "read_text limit r =
     rbind (read_u32 r) (\<lambda>(w, r).
     let n = unat w in
     rbind (require (n \<le> limit) INVALID) (\<lambda>_.
     rbind (take_bytes n r) (\<lambda>(b, r).
     rbind (ok_or (from_utf8 b) (Invalid INVALID)) (\<lambda>t.
     rbind (require (CHR 0x00 \<notin> set t) INVALID) (\<lambda>_.
     Inr (t, r))))))"

section \<open>Decoding\<close>

text \<open>The inner loop reads \<open>n\<close> blobs into an entry; \<open>used\<close> is the running byte total.\<close>

fun decode_blobs :: "nat \<Rightarrow> (string, u8 list) btree \<Rightarrow> nat \<Rightarrow> reader \<Rightarrow>
    error + ((string, u8 list) btree \<times> nat \<times> reader)" where
  "decode_blobs 0 m used r = Inr (m, used, r)"
| "decode_blobs (Suc n) m used r =
     rbind (read_text 256 r) (\<lambda>(key, r).
     rbind (save_name key False) (\<lambda>_.
     rbind (require (\<not> bt_has m key) INVALID) (\<lambda>_.
     rbind (read_u32 r) (\<lambda>(w, r).
     let sz = unat w in
     rbind (require (sz \<le> QUOTA - used) INVALID) (\<lambda>_.
     rbind (take_bytes sz r) (\<lambda>(b, r).
     decode_blobs n (bt_put key b m) (used + sz) r))))))"

text \<open>The outer loop reads \<open>n\<close> containers; \<open>seen\<close> counts the blobs of all of them.\<close>

fun decode_containers :: "nat \<Rightarrow> (string, container) btree \<Rightarrow> nat \<Rightarrow> nat \<Rightarrow> reader \<Rightarrow>
    error + ((string, container) btree \<times> nat \<times> nat \<times> reader)" where
  "decode_containers 0 m used seen r = Inr (m, used, seen, r)"
| "decode_containers (Suc n) m used seen r =
     rbind (read_text 256 r) (\<lambda>(key, r).
     rbind (save_name key True) (\<lambda>_.
     rbind (require (\<not> bt_has m key) INVALID) (\<lambda>_.
     rbind (read_text 4096 r) (\<lambda>(display, r).
     rbind (read_u64 r) (\<lambda>(modi, r).
     rbind (require (unat modi \<le> 9223372036854775807) INVALID) (\<lambda>_.
     rbind (read_u32 r) (\<lambda>(w, r).
     let count = unat w in
     rbind (require (count \<le> BLOB_LIMIT - seen) INVALID) (\<lambda>_.
     rbind (decode_blobs count [] used r) (\<lambda>(bs, used, r).
     decode_containers n
       (bt_put key \<lparr>display_name = display, modified = modi, blobs = bs\<rparr> m)
       used (seen + count) r)))))))))"

definition decode :: "(u8 list \<Rightarrow> u8 list) \<Rightarrow> u8 list \<Rightarrow> error + state" where
  "decode H d =
     rbind (require (56 \<le> length d \<and> length d \<le> QUOTA + METADATA_LIMIT + 32 \<and> prefix MAGIC d)
             INVALID) (\<lambda>_.
     let body = take (length d - 32) d; checksum = drop (length d - 32) d in
     rbind (require (H body = checksum) BAD_CHECKSUM) (\<lambda>_.
     rbind (read_u32 \<lparr>data = body, position = 8\<rparr>) (\<lambda>(version, r).
     rbind (require (version = 1) INVALID) (\<lambda>_.
     rbind (read_u64 r) (\<lambda>(gen, r).
     rbind (read_u32 r) (\<lambda>(w, r).
     let count = unat w in
     rbind (require (count \<le> CONTAINER_LIMIT) INVALID) (\<lambda>_.
     rbind (decode_containers count [] 0 0 r) (\<lambda>(m, used, seen, r).
     rbind (require (position r = length body) INVALID) (\<lambda>_.
     Inr \<lparr>generation = gen, containers = m\<rparr>)))))))))"

section \<open>Encoding\<close>

definition put_text :: "string \<Rightarrow> nat \<Rightarrow> u8 list \<Rightarrow> error + u8 list" where
  "put_text value maximum out =
     rbind (require (length value \<le> maximum \<and> CHR 0x00 \<notin> set value) INVALID) (\<lambda>_.
     Inr (out @ le32 (word_of_nat (length value)) @ bytes_of value))"

definition encode_blob :: "string \<times> u8 list \<Rightarrow> u8 list \<times> nat \<Rightarrow> error + (u8 list \<times> nat)" where
  "encode_blob = (\<lambda>(key, b) (out, used).
     rbind (save_name key False) (\<lambda>_.
     rbind (require (length b \<le> QUOTA - used) INVALID) (\<lambda>_.
     rbind (put_text key 256 out) (\<lambda>out.
     Inr (out @ le32 (word_of_nat (length b)) @ b, used + length b)))))"

definition encode_container ::
  "string \<times> container \<Rightarrow> u8 list \<times> nat \<times> nat \<Rightarrow> error + (u8 list \<times> nat \<times> nat)" where
  "encode_container = (\<lambda>(key, entry) (out, used, seen).
     rbind (save_name key True) (\<lambda>_.
     rbind (require (unat (modified entry) \<le> 9223372036854775807 \<and>
                     length (blobs entry) \<le> BLOB_LIMIT - seen) INVALID) (\<lambda>_.
     let seen = seen + length (blobs entry) in
     rbind (put_text key 256 out) (\<lambda>out.
     rbind (put_text (display_name entry) 4096 out) (\<lambda>out.
     let out = out @ le64 (modified entry) @ le32 (word_of_nat (length (blobs entry))) in
     rbind (rfold encode_blob (blobs entry) (out, used)) (\<lambda>(out, used).
     rbind (require (length out \<le> QUOTA + METADATA_LIMIT) INVALID) (\<lambda>_.
     Inr (out, used, seen))))))))"

definition encode_body :: "state \<Rightarrow> error + u8 list" where
  "encode_body s =
     rbind (require (length (containers s) \<le> CONTAINER_LIMIT) INVALID) (\<lambda>_.
     let out = MAGIC @ le32 1 @ le64 (generation s) @ le32 (word_of_nat (length (containers s))) in
     rbind (rfold encode_container (containers s) (out, 0, 0)) (\<lambda>(out, used, seen). Inr out))"

definition encode :: "(u8 list \<Rightarrow> u8 list) \<Rightarrow> state \<Rightarrow> error + u8 list" where
  "encode H s = rbind (encode_body s) (\<lambda>out. Inr (out @ H out))"

definition clear_time :: "container \<Rightarrow> container" where
  "clear_time c = c\<lparr>modified := 0\<rparr>"

definition canonical :: "state \<Rightarrow> state" where
  "canonical s = s\<lparr>generation := 0, containers := map (\<lambda>(k, c). (k, clear_time c)) (containers s)\<rparr>"

definition content_digest :: "(u8 list \<Rightarrow> u8 list) \<Rightarrow> state \<Rightarrow> error + string" where
  "content_digest H s = rbind (encode H (canonical s)) (\<lambda>b. Inr (sha256_hex H b))"

section \<open>The namespace key\<close>

text \<open>\<open>parse\<close> is \<^verbatim>\<open>uuid::Uuid::parse_str(..).hyphenated()\<close>: a third-party crate.\<close>

definition NAMESPACE_TAG :: "u8 list" where
  "NAMESPACE_TAG = bytes_of ''xodus.localgamesave.namespace.v1'' @ [0]"

definition namespace_key ::
  "(u8 list \<Rightarrow> u8 list) \<Rightarrow> (string \<Rightarrow> string option) \<Rightarrow> u32 \<Rightarrow> string \<Rightarrow> u64 \<Rightarrow> error + string" where
  "namespace_key H parse title_id scid xuid =
     rbind (require (title_id \<noteq> 0 \<and> xuid \<noteq> 0) INVALID) (\<lambda>_.
     rbind (ok_or (parse scid) (Invalid INVALID)) (\<lambda>identity.
     rbind (require (ascii_lower scid = identity) INVALID) (\<lambda>_.
     Inr (hex_encode (H (NAMESPACE_TAG @ be32 title_id @ bytes_of identity @ [1] @ be64 xuid))))))"

section \<open>What a reader consumes\<close>

text \<open>\<open>consumes r b r'\<close>: the bytes at the reader's position are \<open>b\<close> and \<open>r'\<close> stands after
  them. Every read is characterised by it, so parsing is reasoning about concatenation.\<close>

definition consumes :: "reader \<Rightarrow> u8 list \<Rightarrow> reader \<Rightarrow> bool" where
  "consumes r b r' \<longleftrightarrow>
     r' = r\<lparr>position := position r + length b\<rparr> \<and> position r + length b \<le> usize_max \<and>
     position r + length b \<le> length (data r) \<and> prefix b (drop (position r) (data r))"

lemma prefix_append_drop: "prefix (b @ c) xs \<longleftrightarrow> prefix b xs \<and> prefix c (drop (length b) xs)"
  by (auto simp: prefix_def)

lemma prefix_take_iff: "n \<le> length xs \<Longrightarrow> take n xs = b \<longleftrightarrow> length b = n \<and> prefix b xs"
  by (auto simp: prefix_def take_is_prefix) (metis append_take_drop_id)

lemma consumes_append:
  "consumes r (b @ c) r'' \<longleftrightarrow> (\<exists>r'. consumes r b r' \<and> consumes r' c r'')"
  by (auto simp: consumes_def prefix_append_drop add_ac)

lemma consumes_Nil: "consumes r [] r' \<longleftrightarrow>
    r' = r \<and> position r \<le> usize_max \<and> position r \<le> length (data r)"
  by (auto simp: consumes_def)

lemma take_bytes_iff: "take_bytes n r = Inr (b, r') \<longleftrightarrow> length b = n \<and> consumes r b r'"
proof (cases "position r + n \<le> usize_max \<and> position r + n \<le> length (data r)")
  case True
  then have "take n (drop (position r) (data r)) = b \<longleftrightarrow>
      length b = n \<and> prefix b (drop (position r) (data r))"
    by (intro prefix_take_iff) auto
  with True show ?thesis
    by (auto simp: take_bytes_def consumes_def Let_def)
qed (auto simp: take_bytes_def consumes_def Let_def)

lemma read_u32_iff: "read_u32 r = Inr (w, r') \<longleftrightarrow> consumes r (le32 w) r'"
proof
  assume "read_u32 r = Inr (w, r')"
  then show "consumes r (le32 w) r'"
    by (auto simp: read_u32_def result_simps take_bytes_iff le32_from_le32)
next
  assume "consumes r (le32 w) r'"
  then have "take_bytes 4 r = Inr (le32 w, r')"
    by (simp add: take_bytes_iff)
  then show "read_u32 r = Inr (w, r')"
    by (simp add: read_u32_def)
qed

lemma read_u64_iff: "read_u64 r = Inr (w, r') \<longleftrightarrow> consumes r (le64 w) r'"
proof
  assume "read_u64 r = Inr (w, r')"
  then show "consumes r (le64 w) r'"
    by (auto simp: read_u64_def result_simps take_bytes_iff le64_from_le64)
next
  assume "consumes r (le64 w) r'"
  then have "take_bytes 8 r = Inr (le64 w, r')"
    by (simp add: take_bytes_iff)
  then show "read_u64 r = Inr (w, r')"
    by (simp add: read_u64_def)
qed

definition wire_text :: "string \<Rightarrow> u8 list" where
  "wire_text t = le32 (word_of_nat (length t)) @ bytes_of t"

definition text_ok :: "nat \<Rightarrow> string \<Rightarrow> bool" where
  "text_ok limit t \<longleftrightarrow> length t \<le> limit \<and> is_string t \<and> CHR 0x00 \<notin> set t"

lemma from_utf8_iff: "from_utf8 b = Some t \<longleftrightarrow> is_string t \<and> bytes_of t = b"
  using from_utf8_Some from_utf8_bytes_of by auto

lemma read_text_iff:
  assumes "limit < 4294967296"
  shows "read_text limit r = Inr (t, r') \<longleftrightarrow> consumes r (wire_text t) r' \<and> text_ok limit t"
proof
  assume "read_text limit r = Inr (t, r')"
  then obtain w r1 where w: "consumes r (le32 w) r1" "unat w \<le> limit" "length t = unat w"
      "consumes r1 (bytes_of t) r'" "is_string t" "CHR 0x00 \<notin> set t"
    unfolding read_text_def
    by (auto simp: result_simps read_u32_iff take_bytes_iff from_utf8_iff Let_def)
  then have "word_of_nat (length t) = w"
    by simp
  with w show "consumes r (wire_text t) r' \<and> text_ok limit t"
    by (auto simp: wire_text_def text_ok_def consumes_append)
next
  assume "consumes r (wire_text t) r' \<and> text_ok limit t"
  moreover from this assms have "unat (word_of_nat (length t) :: u32) = length t"
    by (intro unat_word32_of_nat) (simp add: text_ok_def)
  ultimately obtain r1 where "read_u32 r = Inr (word_of_nat (length t), r1)"
      "take_bytes (length t) r1 = Inr (bytes_of t, r')" "text_ok limit t"
      "unat (word_of_nat (length t) :: u32) = length t"
    by (auto simp: read_u32_iff take_bytes_iff wire_text_def consumes_append)
  then show "read_text limit r = Inr (t, r')"
    by (simp add: read_text_def text_ok_def from_utf8_bytes_of)
qed

end
