(* ===== verification/SaveCodec.thy ===== *)
theory SaveCodec
  imports SaveState
begin

text \<open>
  The wire format of a save as a specification (\<open>wire_blob\<close>, \<open>wire_container\<close>, \<open>wire_state\<close>),
  exact characterisations of \<open>decode\<close> and \<open>encode\<close> against it, and what follows: round trips,
  canonicity, bounds of what a decoded save may hold.
\<close>

section \<open>The wire format\<close>

type_synonym raw_blob = "string \<times> u8 list"
type_synonym raw_container = "string \<times> string \<times> u64 \<times> raw_blob list"

definition wire_blob :: "raw_blob \<Rightarrow> u8 list" where
  "wire_blob = (\<lambda>(k, b). wire_text k @ le32 (word_of_nat (length b)) @ b)"

definition wire_blobs :: "raw_blob list \<Rightarrow> u8 list" where
  "wire_blobs bs = concat (map wire_blob bs)"

definition wire_container :: "raw_container \<Rightarrow> u8 list" where
  "wire_container = (\<lambda>(k, d, t, bs).
     wire_text k @ wire_text d @ le64 t @ le32 (word_of_nat (length bs)) @ wire_blobs bs)"

definition wire_containers :: "raw_container list \<Rightarrow> u8 list" where
  "wire_containers cs = concat (map wire_container cs)"

definition wire_body :: "u64 \<Rightarrow> raw_container list \<Rightarrow> u8 list" where
  "wire_body g cs =
     MAGIC @ le32 1 @ le64 g @ le32 (word_of_nat (length cs)) @ wire_containers cs"

definition blob_size :: "raw_blob list \<Rightarrow> nat" where
  "blob_size bs = sum_list (map (length \<circ> snd) bs)"

definition total_size :: "raw_container list \<Rightarrow> nat" where
  "total_size cs = sum_list (map (\<lambda>(k, d, t, bs). blob_size bs) cs)"

definition total_blobs :: "raw_container list \<Rightarrow> nat" where
  "total_blobs cs = sum_list (map (\<lambda>(k, d, t, bs). length bs) cs)"

definition blob_ok :: "raw_blob \<Rightarrow> bool" where
  "blob_ok = (\<lambda>(k, b). save_name k False = Inr () \<and> text_ok 256 k)"

definition container_ok :: "raw_container \<Rightarrow> bool" where
  "container_ok = (\<lambda>(k, d, t, bs).
     save_name k True = Inr () \<and> text_ok 256 k \<and> text_ok 4096 d \<and>
     unat t \<le> 9223372036854775807 \<and> list_all blob_ok bs \<and> distinct (map fst bs))"

definition build_blobs :: "raw_blob list \<Rightarrow> (string, u8 list) btree" where
  "build_blobs = bt_of_list"

definition build :: "raw_container \<Rightarrow> string \<times> container" where
  "build = (\<lambda>(k, d, t, bs).
     (k, \<lparr>display_name = d, modified = t, blobs = build_blobs bs\<rparr>))"

lemmas size_defs = blob_size_def total_size_def total_blobs_def
lemmas wire_simps = wire_blobs_def wire_containers_def

lemma wire_blobs_Cons: "wire_blobs ((k, b) # bs) =
    wire_text k @ le32 (word_of_nat (length b)) @ b @ wire_blobs bs"
  by (simp add: wire_blobs_def wire_blob_def)

lemma wire_containers_Cons: "wire_containers ((k, d, t, bs) # cs) =
    wire_text k @ wire_text d @ le64 t @ le32 (word_of_nat (length bs)) @ wire_blobs bs @
    wire_containers cs"
  by (simp add: wire_containers_def wire_container_def)

definition reader_ok :: "reader \<Rightarrow> bool" where
  "reader_ok r \<longleftrightarrow> position r \<le> usize_max \<and> position r \<le> length (data r)"

lemma consumes_reader_ok: "consumes r b r' \<Longrightarrow> reader_ok r'"
  by (auto simp: consumes_def reader_ok_def)

lemma consumes_Nil_ok: "reader_ok r \<Longrightarrow> consumes r [] r' \<longleftrightarrow> r' = r"
  by (auto simp: consumes_Nil reader_ok_def)

section \<open>Decoding\<close>

lemma put_text_iff: "put_text v n out = Inr out' \<longleftrightarrow>
    length v \<le> n \<and> CHR 0x00 \<notin> set v \<and> out' = out @ wire_text v"
  by (auto simp: put_text_def result_simps wire_text_def)

lemma sized_u32:
  assumes "length b \<le> QUOTA"
  shows "unat (word_of_nat (length b) :: u32) = length b"
  using assms by (intro unat_word32_of_nat) simp

lemma decode_blob_step:
  assumes "used \<le> QUOTA"
  shows "decode_blobs (Suc n) m used r = Inr res \<longleftrightarrow>
    (\<exists>k b r'. consumes r (wire_blob (k, b)) r' \<and> blob_ok (k, b) \<and> \<not> bt_has m k \<and>
       used + length b \<le> QUOTA \<and> decode_blobs n (bt_put k b m) (used + length b) r' = Inr res)"
    (is "?L \<longleftrightarrow> ?R")
proof
  assume ?L
  then obtain k r1 w r2 b r3 where st:
      "consumes r (wire_text k) r1" "text_ok 256 k" "save_name k False = Inr ()" "\<not> bt_has m k"
      "consumes r1 (le32 w) r2" "unat w \<le> QUOTA - used" "length b = unat w" "consumes r2 b r3"
      "decode_blobs n (bt_put k b m) (used + unat w) r3 = Inr res"
    by (auto simp: result_simps read_text_iff read_u32_iff take_bytes_iff Let_def)
  moreover from st have "word_of_nat (length b) = w"
    by simp
  ultimately show ?R
    using assms by (intro exI [of _ k] exI [of _ b] exI [of _ r3])
      (auto simp: wire_blob_def blob_ok_def consumes_append)
next
  assume ?R
  then obtain k b r1 r2 r3 where st:
      "consumes r (wire_text k) r1" "consumes r1 (le32 (word_of_nat (length b))) r2"
      "consumes r2 b r3" "text_ok 256 k" "save_name k False = Inr ()" "\<not> bt_has m k"
      "used + length b \<le> QUOTA" "decode_blobs n (bt_put k b m) (used + length b) r3 = Inr res"
    by (auto simp: wire_blob_def blob_ok_def consumes_append)
  then have "read_text 256 r = Inr (k, r1)"
    and "read_u32 r1 = Inr (word_of_nat (length b), r2)"
    and "take_bytes (length b) r2 = Inr (b, r3)"
    by (simp_all add: read_text_iff read_u32_iff take_bytes_iff)
  moreover have "unat (word_of_nat (length b) :: u32) = length b"
    using st(7) by (intro sized_u32) simp
  moreover have "length b \<le> QUOTA - used"
    using st(7) by simp
  ultimately show ?L
    using st by simp
qed

declare decode_blobs.simps(2) [simp del]

lemma decode_blobs_iff:
  assumes "used \<le> QUOTA" "reader_ok r"
  shows "decode_blobs n m used r = Inr (m', used', r') \<longleftrightarrow>
    (\<exists>bs. length bs = n \<and> consumes r (wire_blobs bs) r' \<and> list_all blob_ok bs \<and>
       distinct (map fst bs) \<and> (\<forall>k \<in> set (map fst bs). \<not> bt_has m k) \<and>
       used' = used + blob_size bs \<and> used' \<le> QUOTA \<and>
       m' = fold (\<lambda>(k, v). bt_put k v) bs m)"
  using assms
proof (induction n arbitrary: m used r)
  case 0
  then show ?case
    by (auto simp: wire_blobs_def size_defs consumes_Nil_ok)
next
  case (Suc n)
  have has_put: "bt_has (bt_put k b m) j \<longleftrightarrow> j = k \<or> bt_has m j" for k b j
    by (simp add: bt_has_def bt_get_put)
  have IH: "decode_blobs n (bt_put k b m) (used + length b) r1 = Inr (m', used', r') \<longleftrightarrow>
    (\<exists>bs. length bs = n \<and> consumes r1 (wire_blobs bs) r' \<and> list_all blob_ok bs \<and>
       distinct (map fst bs) \<and> (\<forall>j \<in> set (map fst bs). j \<noteq> k \<and> \<not> bt_has m j) \<and>
       used' = used + length b + blob_size bs \<and> used' \<le> QUOTA \<and>
       m' = fold (\<lambda>(k, v). bt_put k v) bs (bt_put k b m))"
    if "consumes r (wire_blob (k, b)) r1" "used + length b \<le> QUOTA" for k b r1
    using Suc.IH [of "used + length b" r1 "bt_put k b m"] that consumes_reader_ok
    by (simp add: has_put)
  show ?case (is "?L \<longleftrightarrow> ?R")
  proof
    assume ?L
    then obtain k b r1 where st: "consumes r (wire_blob (k, b)) r1" "blob_ok (k, b)"
        "\<not> bt_has m k" "used + length b \<le> QUOTA"
        "decode_blobs n (bt_put k b m) (used + length b) r1 = Inr (m', used', r')"
      unfolding decode_blob_step [OF Suc.prems(1)] by blast
    from st(5) obtain bs where
        "length bs = n" "consumes r1 (wire_blobs bs) r'" "list_all blob_ok bs"
        "distinct (map fst bs)" "\<forall>j \<in> set (map fst bs). j \<noteq> k \<and> \<not> bt_has m j"
        "used' = used + length b + blob_size bs" "used' \<le> QUOTA"
        "m' = fold (\<lambda>(k, v). bt_put k v) bs (bt_put k b m)"
      unfolding IH [OF st(1,4)] by blast
    with st show ?R
      by (intro exI [of _ "(k, b) # bs"])
        (auto simp: wire_blobs_def consumes_append size_defs)
  next
    assume ?R
    then obtain bs0 where bs0: "length bs0 = Suc n" "consumes r (wire_blobs bs0) r'"
        "list_all blob_ok bs0" "distinct (map fst bs0)" "\<forall>k \<in> set (map fst bs0). \<not> bt_has m k"
        "used' = used + blob_size bs0" "used' \<le> QUOTA"
        "m' = fold (\<lambda>(k, v). bt_put k v) bs0 m"
      by blast
    then obtain k b bs where [simp]: "bs0 = (k, b) # bs"
      by (metis length_Suc_conv surj_pair)
    obtain r1 where r1: "consumes r (wire_blob (k, b)) r1" "consumes r1 (wire_blobs bs) r'"
      using bs0 by (auto simp: wire_blobs_def consumes_append)
    have "used + length b \<le> QUOTA"
      using bs0 by (simp add: size_defs)
    moreover have "decode_blobs n (bt_put k b m) (used + length b) r1 = Inr (m', used', r')"
      using IH [OF r1(1)] calculation bs0 r1
      by (auto simp: size_defs intro!: exI [of _ bs])
    ultimately show ?L
      using decode_blob_step [OF Suc.prems(1)] r1 bs0 by auto
  qed
qed

declare decode_containers.simps(2) [simp del]

lemma decode_container_step:
  assumes "used \<le> QUOTA" "seen \<le> BLOB_LIMIT"
  shows "decode_containers (Suc n) m used seen r = Inr res \<longleftrightarrow>
    (\<exists>k d t bs r'. consumes r (wire_container (k, d, t, bs)) r' \<and> container_ok (k, d, t, bs) \<and>
       \<not> bt_has m k \<and> used + blob_size bs \<le> QUOTA \<and> seen + length bs \<le> BLOB_LIMIT \<and>
       decode_containers n (bt_put k (snd (build (k, d, t, bs))) m)
         (used + blob_size bs) (seen + length bs) r' = Inr res)" (is "?L \<longleftrightarrow> ?R")
proof
  assume ?L
  then obtain k r1 d r2 t r3 w r4 m' used' r5 where st:
      "consumes r (wire_text k) r1" "text_ok 256 k" "save_name k True = Inr ()" "\<not> bt_has m k"
      "consumes r1 (wire_text d) r2" "text_ok 4096 d" "consumes r2 (le64 t) r3"
      "unat t \<le> 9223372036854775807" "consumes r3 (le32 w) r4" "unat w \<le> BLOB_LIMIT - seen"
      "decode_blobs (unat w) [] used r4 = Inr (m', used', r5)"
      "decode_containers n (bt_put k \<lparr>display_name = d, modified = t, blobs = m'\<rparr> m)
         used' (seen + unat w) r5 = Inr res"
    by (auto simp: decode_containers.simps result_simps read_text_iff read_u32_iff read_u64_iff Let_def)
  from st(11) obtain bs where bs: "length bs = unat w" "consumes r4 (wire_blobs bs) r5"
      "list_all blob_ok bs" "distinct (map fst bs)" "used' = used + blob_size bs" "used' \<le> QUOTA"
      "m' = build_blobs bs"
    unfolding decode_blobs_iff [OF assms(1) consumes_reader_ok [OF st(9)]]
    by (auto simp: build_blobs_def bt_of_list_def)
  moreover from bs(1) have "word_of_nat (length bs) = w"
    by simp
  ultimately show ?R
    using st assms
    by (intro exI [of _ k] exI [of _ d] exI [of _ t] exI [of _ bs] exI [of _ r5])
      (auto simp: wire_container_def container_ok_def consumes_append build_def)
next
  assume ?R
  then obtain k d t bs r1 r2 r3 r4 r5 where st:
      "consumes r (wire_text k) r1" "consumes r1 (wire_text d) r2" "consumes r2 (le64 t) r3"
      "consumes r3 (le32 (word_of_nat (length bs))) r4" "consumes r4 (wire_blobs bs) r5"
      "container_ok (k, d, t, bs)" "\<not> bt_has m k" "used + blob_size bs \<le> QUOTA"
      "seen + length bs \<le> BLOB_LIMIT"
      "decode_containers n (bt_put k (snd (build (k, d, t, bs))) m)
         (used + blob_size bs) (seen + length bs) r5 = Inr res"
    by (auto simp: wire_container_def consumes_append)
  have w: "unat (word_of_nat (length bs) :: u32) = length bs"
    using st(9) by (intro unat_word32_of_nat) simp
  have "decode_blobs (length bs) [] used r4 = Inr (build_blobs bs, used + blob_size bs, r5)"
    unfolding decode_blobs_iff [OF assms(1) consumes_reader_ok [OF st(4)]]
    using st by (intro exI [of _ bs])
      (auto simp: container_ok_def build_blobs_def bt_of_list_def bt_has_def bt_get_def)
  moreover have "read_text 256 r = Inr (k, r1)" "read_text 4096 r1 = Inr (d, r2)"
      "read_u64 r2 = Inr (t, r3)" "read_u32 r3 = Inr (word_of_nat (length bs), r4)"
    using st by (simp_all add: read_text_iff read_u32_iff read_u64_iff container_ok_def)
  moreover have "length bs \<le> BLOB_LIMIT - seen"
    using st(9) by simp
  ultimately show ?L
    using st w by (simp add: decode_containers.simps container_ok_def build_def)
qed

lemma decode_containers_iff:
  assumes "used \<le> QUOTA" "seen \<le> BLOB_LIMIT" "reader_ok r"
  shows "decode_containers n m used seen r = Inr (m', used', seen', r') \<longleftrightarrow>
    (\<exists>cs. length cs = n \<and> consumes r (wire_containers cs) r' \<and> list_all container_ok cs \<and>
       distinct (map fst cs) \<and> (\<forall>k \<in> set (map fst cs). \<not> bt_has m k) \<and>
       used' = used + total_size cs \<and> used' \<le> QUOTA \<and>
       seen' = seen + total_blobs cs \<and> seen' \<le> BLOB_LIMIT \<and>
       m' = fold (\<lambda>(k, v). bt_put k v) (map build cs) m)"
  using assms
proof (induction n arbitrary: m used seen r)
  case 0
  then show ?case
    by (auto simp: wire_containers_def size_defs consumes_Nil_ok)
next
  case (Suc n)
  have has_put: "bt_has (bt_put k b m) j \<longleftrightarrow> j = k \<or> bt_has m j" for k b j
    by (simp add: bt_has_def bt_get_put)
  have IH: "decode_containers n (bt_put k b m) (used + blob_size bs) (seen + length bs) r1 =
      Inr (m', used', seen', r') \<longleftrightarrow>
    (\<exists>cs. length cs = n \<and> consumes r1 (wire_containers cs) r' \<and> list_all container_ok cs \<and>
       distinct (map fst cs) \<and> (\<forall>j \<in> set (map fst cs). j \<noteq> k \<and> \<not> bt_has m j) \<and>
       used' = used + blob_size bs + total_size cs \<and> used' \<le> QUOTA \<and>
       seen' = seen + length bs + total_blobs cs \<and> seen' \<le> BLOB_LIMIT \<and>
       m' = fold (\<lambda>(k, v). bt_put k v) (map build cs) (bt_put k b m))"
    if "consumes r (wire_container (k, d, t, bs)) r1" "used + blob_size bs \<le> QUOTA"
      "seen + length bs \<le> BLOB_LIMIT" for k b d t bs r1
    using Suc.IH [of "used + blob_size bs" "seen + length bs" r1 "bt_put k b m"] that
      consumes_reader_ok
    by (simp add: has_put)
  note step = decode_container_step [OF Suc.prems(1,2)]
  show ?case (is "?L \<longleftrightarrow> ?R")
  proof
    assume ?L
    then obtain k d t bs r1 where st: "consumes r (wire_container (k, d, t, bs)) r1"
        "container_ok (k, d, t, bs)" "\<not> bt_has m k" "used + blob_size bs \<le> QUOTA"
        "seen + length bs \<le> BLOB_LIMIT"
        "decode_containers n (bt_put k (snd (build (k, d, t, bs))) m) (used + blob_size bs)
           (seen + length bs) r1 = Inr (m', used', seen', r')"
      unfolding step by blast
    from st(6) obtain cs where "length cs = n" "consumes r1 (wire_containers cs) r'"
        "list_all container_ok cs" "distinct (map fst cs)"
        "\<forall>j \<in> set (map fst cs). j \<noteq> k \<and> \<not> bt_has m j"
        "used' = used + blob_size bs + total_size cs" "used' \<le> QUOTA"
        "seen' = seen + length bs + total_blobs cs" "seen' \<le> BLOB_LIMIT"
        "m' = fold (\<lambda>(k, v). bt_put k v) (map build cs) (bt_put k (snd (build (k, d, t, bs))) m)"
      unfolding IH [OF st(1,4,5)] by blast
    with st show ?R
      by (intro exI [of _ "(k, d, t, bs) # cs"])
        (auto simp: wire_containers_def consumes_append size_defs build_def)
  next
    assume ?R
    then obtain cs0 where cs0: "length cs0 = Suc n" "consumes r (wire_containers cs0) r'"
        "list_all container_ok cs0" "distinct (map fst cs0)"
        "\<forall>k \<in> set (map fst cs0). \<not> bt_has m k"
        "used' = used + total_size cs0" "used' \<le> QUOTA"
        "seen' = seen + total_blobs cs0" "seen' \<le> BLOB_LIMIT"
        "m' = fold (\<lambda>(k, v). bt_put k v) (map build cs0) m"
      by blast
    then obtain k d t bs cs where [simp]: "cs0 = (k, d, t, bs) # cs"
      by (metis length_Suc_conv prod_cases4)
    obtain r1 where r1: "consumes r (wire_container (k, d, t, bs)) r1"
        "consumes r1 (wire_containers cs) r'"
      using cs0 by (auto simp: wire_containers_def consumes_append)
    have b: "used + blob_size bs \<le> QUOTA" "seen + length bs \<le> BLOB_LIMIT"
      using cs0 by (simp_all add: size_defs)
    have "decode_containers n (bt_put k (snd (build (k, d, t, bs))) m) (used + blob_size bs)
        (seen + length bs) r1 = Inr (m', used', seen', r')"
      unfolding IH [OF r1(1) b] using cs0 r1
      by (auto simp: size_defs build_def intro!: exI [of _ cs])
    moreover have "container_ok (k, d, t, bs)" "\<not> bt_has m k"
      using cs0 by simp_all
    ultimately show ?L
      unfolding step using r1 b by blast
  qed
qed

definition save_ok :: "raw_container list \<Rightarrow> bool" where
  "save_ok cs \<longleftrightarrow> length cs \<le> CONTAINER_LIMIT \<and> list_all container_ok cs \<and>
     distinct (map fst cs) \<and> total_size cs \<le> QUOTA \<and> total_blobs cs \<le> BLOB_LIMIT"

text \<open>Exactly the sealed wire forms of admissible containers decode.\<close>

lemma decode_iff:
  assumes "is_sha256 H"
  shows "decode H w = Inr s \<longleftrightarrow>
    (\<exists>g cs. w = wire_body g cs @ H (wire_body g cs) \<and> save_ok cs \<and>
       length (wire_body g cs) \<le> QUOTA + METADATA_LIMIT \<and>
       s = \<lparr>generation = g, containers = bt_of_list (map build cs)\<rparr>)" (is "?L \<longleftrightarrow> ?R")
proof
  let ?body = "take (length w - 32) w"
  let ?r0 = "\<lparr>data = ?body, position = 8\<rparr>"
  assume ?L
  then obtain r1 g r2 n r3 m used seen r4 where st:
      "56 \<le> length w" "length w \<le> QUOTA + METADATA_LIMIT + 32" "prefix MAGIC w"
      "H ?body = drop (length w - 32) w"
      "consumes ?r0 (le32 1) r1" "consumes r1 (le64 g) r2" "consumes r2 (le32 n) r3"
      "unat n \<le> CONTAINER_LIMIT" "decode_containers (unat n) [] 0 0 r3 = Inr (m, used, seen, r4)"
      "position r4 = length ?body" "s = \<lparr>generation = g, containers = m\<rparr>"
    by (auto simp: decode_def result_simps Let_def read_u32_iff read_u64_iff)
  from st(9) obtain cs where cs: "length cs = unat n" "consumes r3 (wire_containers cs) r4"
      "list_all container_ok cs" "distinct (map fst cs)" "total_size cs \<le> QUOTA"
      "total_blobs cs \<le> BLOB_LIMIT" "m = bt_of_list (map build cs)"
    using decode_containers_iff [of 0 0 r3 "unat n" "[]" m used seen r4] consumes_reader_ok [OF st(7)]
    by (auto simp: bt_of_list_def)
  have n: "word_of_nat (length cs) = n"
    using cs(1) by simp
  have all: "consumes ?r0 (le32 1 @ le64 g @ le32 n @ wire_containers cs) r4"
    using st cs by (auto simp: consumes_append)
  obtain zs where zs: "drop 8 ?body = (le32 1 @ le64 g @ le32 n @ wire_containers cs) @ zs"
    using all by (auto simp: consumes_def prefix_def)
  have "length (le32 1 @ le64 g @ le32 n @ wire_containers cs) = length (drop 8 ?body)"
    using all st(10) by (auto simp: consumes_def)
  with zs have "le32 1 @ le64 g @ le32 n @ wire_containers cs = drop 8 ?body"
    by simp
  moreover have "take 8 ?body = MAGIC"
    using st(1,3) by (auto simp: prefix_def)
  ultimately have body: "?body = wire_body g cs"
    unfolding wire_body_def n by (metis append_take_drop_id)
  have "length (wire_body g cs) \<le> QUOTA + METADATA_LIMIT"
    using st(2) arg_cong [OF body, of length] by simp
  moreover have "w = wire_body g cs @ H (wire_body g cs)"
    using st(4) unfolding body [symmetric] by simp
  moreover have "save_ok cs"
    using st(8) cs by (simp add: save_ok_def)
  ultimately show ?R
    using st(11) cs(7) by blast
next
  assume ?R
  then obtain g cs where w: "w = wire_body g cs @ H (wire_body g cs)" and ok: "save_ok cs"
    and len: "length (wire_body g cs) \<le> QUOTA + METADATA_LIMIT"
    and s: "s = \<lparr>generation = g, containers = bt_of_list (map build cs)\<rparr>"
    by blast
  let ?B = "wire_body g cs"
  let ?r0 = "\<lparr>data = ?B, position = 8\<rparr>"
  have l: "length w = length ?B + 32"
    using assms w by (simp add: is_sha256_def)
  have d: "take (length ?B) w = ?B" "drop (length ?B) w = H ?B"
    using w by auto
  have B: "24 \<le> length ?B" "prefix MAGIC w"
    by (simp_all add: w wire_body_def)
  have "consumes ?r0 (le32 1 @ le64 g @ le32 (word_of_nat (length cs)) @ wire_containers cs)
      \<lparr>data = ?B, position = length ?B\<rparr>"
    using len by (auto simp: consumes_def wire_body_def)
  then obtain r1 r2 r3 where r: "consumes ?r0 (le32 1) r1" "consumes r1 (le64 g) r2"
      "consumes r2 (le32 (word_of_nat (length cs))) r3"
      "consumes r3 (wire_containers cs) \<lparr>data = ?B, position = length ?B\<rparr>"
    unfolding consumes_append by blast
  have rd: "read_u32 ?r0 = Inr (1, r1)" "read_u64 r1 = Inr (g, r2)"
      "read_u32 r2 = Inr (word_of_nat (length cs), r3)"
    using r by (simp_all add: read_u32_iff read_u64_iff)
  have n: "unat (word_of_nat (length cs) :: u32) = length cs"
    using ok by (intro unat_word32_of_nat) (simp add: save_ok_def)
  have "decode_containers (length cs) [] 0 0 r3 =
      Inr (bt_of_list (map build cs), total_size cs, total_blobs cs, \<lparr>data = ?B, position = length ?B\<rparr>)"
    using ok r(4) consumes_reader_ok [OF r(3)]
    by (subst decode_containers_iff)
      (auto simp: save_ok_def bt_of_list_def bt_has_def bt_get_def)
  then show ?L
    using rd n B l len ok by (simp add: decode_def Let_def d s save_ok_def)
qed

section \<open>Names\<close>

lemma split_on_cover: "c \<in> set s \<Longrightarrow> c = d \<or> (\<exists>p \<in> set (split_on d s). c \<in> set p)"
proof (induction s)
  case (Cons x xs)
  obtain q qs where "split_on d xs = q # qs"
    by (cases "split_on d xs") auto
  with Cons show ?case by auto
qed simp

lemma name_parts_bytes:
  "name_parts b ps = Inr () \<Longrightarrow> p \<in> set ps \<Longrightarrow> p \<noteq> [] \<and> (\<forall>c \<in> set p. part_byte False c)"
proof (induction ps)
  case (Cons q qs)
  from Cons.prems(1) have "q \<noteq> []" "\<forall>c \<in> set q. part_byte (qs \<noteq> []) c" "name_parts b qs = Inr ()"
    by (auto simp: result_simps Let_def list_all_iff)
  with Cons show ?case
    by (auto simp: part_byte_def)
qed simp

lemma part_byte_ascii: "part_byte b c \<Longrightarrow> ord c < 128 \<and> ord c \<noteq> 0"
  by (auto simp: part_byte_def is_alnum_def is_digit_def is_lower_def is_upper_def)

lemma save_name_bytes:
  assumes "save_name k b = Inr ()" "c \<in> set k"
  shows "ord c < 128 \<and> ord c \<noteq> 0"
proof (cases "c = CHR ''/''")
  case False
  with assms(2) obtain p where "p \<in> set (split_on (CHR ''/'') k)" "c \<in> set p"
    using split_on_cover by blast
  with assms(1) show ?thesis
    using name_parts_bytes part_byte_ascii by (fastforce simp: save_name_def result_simps)
qed simp

lemma save_name_text_ok: "save_name k b = Inr () \<Longrightarrow> text_ok 256 k"
  using save_name_bytes [of k b]
  by (fastforce simp: text_ok_def save_name_def result_simps intro: is_string_ascii)

lemma blob_ok_name: "blob_ok (k, b) \<longleftrightarrow> save_name k False = Inr ()"
  by (auto simp: blob_ok_def intro: save_name_text_ok)

section \<open>Encoding\<close>

definition raw_of :: "string \<times> container \<Rightarrow> raw_container" where
  "raw_of = (\<lambda>(k, c). (k, display_name c, modified c, blobs c))"

definition raws :: "state \<Rightarrow> raw_container list" where
  "raws s = map raw_of (containers s)"

text \<open>What the Rust types guarantee of a \<^verbatim>\<open>State\<close>: ordered maps and UTF-8 strings.\<close>

definition is_state :: "state \<Rightarrow> bool" where
  "is_state s \<longleftrightarrow> bt_ok (containers s) \<and>
     (\<forall>(k, c) \<in> set (containers s). is_string (display_name c) \<and> bt_ok (blobs c))"

definition enc_ok :: "raw_container \<Rightarrow> bool" where
  "enc_ok = (\<lambda>(k, d, t, bs). save_name k True = Inr () \<and> length d \<le> 4096 \<and> CHR 0x00 \<notin> set d \<and>
     unat t \<le> 9223372036854775807 \<and> list_all blob_ok bs)"

lemma encode_blobs_iff:
  "used \<le> QUOTA \<Longrightarrow> rfold encode_blob bs (out, used) = Inr (out', used') \<longleftrightarrow>
     list_all blob_ok bs \<and> out' = out @ wire_blobs bs \<and>
     used' = used + blob_size bs \<and> used' \<le> QUOTA"
proof (induction bs arbitrary: out used)
  case Nil
  then show ?case by (auto simp: wire_blobs_def size_defs)
next
  case (Cons kb bs)
  obtain k b where [simp]: "kb = (k, b)" by (cases kb)
  have "encode_blob (k, b) (out, used) = Inr (out1, used1) \<longleftrightarrow>
      blob_ok (k, b) \<and> used + length b \<le> QUOTA \<and> out1 = out @ wire_blob (k, b) \<and>
      used1 = used + length b" for out1 used1
    using Cons.prems save_name_text_ok [of k False]
    by (auto simp: encode_blob_def result_simps put_text_iff blob_ok_name wire_blob_def text_ok_def)
  then have "rfold encode_blob (kb # bs) (out, used) = Inr (out', used') \<longleftrightarrow>
      blob_ok (k, b) \<and> used + length b \<le> QUOTA \<and>
      rfold encode_blob bs (out @ wire_blob (k, b), used + length b) = Inr (out', used')"
    by (auto simp: result_simps)
  then show ?case
    using Cons.IH [of "used + length b" "out @ wire_blob (k, b)"]
    by (auto simp: wire_blobs_def size_defs)
qed

lemma encode_containers_iff:
  "used \<le> QUOTA \<Longrightarrow> seen \<le> BLOB_LIMIT \<Longrightarrow> length out \<le> QUOTA + METADATA_LIMIT \<Longrightarrow>
   rfold encode_container cs (out, used, seen) = Inr (out', used', seen') \<longleftrightarrow>
     list_all enc_ok (map raw_of cs) \<and> out' = out @ wire_containers (map raw_of cs) \<and>
     used' = used + total_size (map raw_of cs) \<and> used' \<le> QUOTA \<and>
     seen' = seen + total_blobs (map raw_of cs) \<and> seen' \<le> BLOB_LIMIT \<and>
     length out' \<le> QUOTA + METADATA_LIMIT"
proof (induction cs arbitrary: out used seen)
  case Nil
  then show ?case by (auto simp: wire_containers_def size_defs)
next
  case (Cons kc cs)
  obtain k c where [simp]: "kc = (k, c)" by (cases kc)
  let ?out1 = "out @ wire_container (raw_of (k, c))"
  let ?used1 = "used + blob_size (blobs c)"
  let ?seen1 = "seen + length (blobs c)"
  have wc: "wire_container (raw_of (k, c)) = wire_text k @ wire_text (display_name c) @
      le64 (modified c) @ le32 (word_of_nat (length (blobs c))) @ wire_blobs (blobs c)"
    by (simp add: wire_container_def raw_of_def)
  have one: "encode_container (k, c) (out, used, seen) = Inr (out1, used1, seen1) \<longleftrightarrow>
      enc_ok (raw_of (k, c)) \<and> ?used1 \<le> QUOTA \<and> ?seen1 \<le> BLOB_LIMIT \<and>
      length ?out1 \<le> QUOTA + METADATA_LIMIT \<and>
      out1 = ?out1 \<and> used1 = ?used1 \<and> seen1 = ?seen1" for out1 used1 seen1
    using Cons.prems save_name_text_ok [of k True]
    by (auto simp: encode_container_def result_simps put_text_iff encode_blobs_iff Let_def
        raw_of_def enc_ok_def text_ok_def wire_container_def)
  have "rfold encode_container (kc # cs) (out, used, seen) = Inr (out', used', seen') \<longleftrightarrow>
      enc_ok (raw_of (k, c)) \<and> ?used1 \<le> QUOTA \<and> ?seen1 \<le> BLOB_LIMIT \<and>
      length ?out1 \<le> QUOTA + METADATA_LIMIT \<and>
      rfold encode_container cs (?out1, ?used1, ?seen1) = Inr (out', used', seen')"
    using one by (auto simp: result_simps)
  moreover have "rfold encode_container cs (?out1, ?used1, ?seen1) = Inr (out', used', seen') \<longleftrightarrow>
     list_all enc_ok (map raw_of cs) \<and> out' = ?out1 @ wire_containers (map raw_of cs) \<and>
     used' = ?used1 + total_size (map raw_of cs) \<and> used' \<le> QUOTA \<and>
     seen' = ?seen1 + total_blobs (map raw_of cs) \<and> seen' \<le> BLOB_LIMIT \<and>
     length out' \<le> QUOTA + METADATA_LIMIT"
    if "?used1 \<le> QUOTA" "?seen1 \<le> BLOB_LIMIT" "length ?out1 \<le> QUOTA + METADATA_LIMIT"
    using that by (rule Cons.IH)
  ultimately show ?case
    by (auto simp: wire_containers_def size_defs raw_of_def)
qed

lemma encode_iff:
  "encode H s = Inr w \<longleftrightarrow>
     length (containers s) \<le> CONTAINER_LIMIT \<and> list_all enc_ok (raws s) \<and>
     total_size (raws s) \<le> QUOTA \<and> total_blobs (raws s) \<le> BLOB_LIMIT \<and>
     length (wire_body (generation s) (raws s)) \<le> QUOTA + METADATA_LIMIT \<and>
     w = wire_body (generation s) (raws s) @ H (wire_body (generation s) (raws s))"
proof -
  let ?h = "MAGIC @ le32 1 @ le64 (generation s) @ le32 (word_of_nat (length (containers s)))"
  have "length ?h \<le> QUOTA + METADATA_LIMIT"
    by simp
  note rf = encode_containers_iff [of 0 0, OF _ _ this, simplified]
  have "encode_body s = Inr out \<longleftrightarrow>
     length (containers s) \<le> CONTAINER_LIMIT \<and> list_all enc_ok (raws s) \<and>
     total_size (raws s) \<le> QUOTA \<and> total_blobs (raws s) \<le> BLOB_LIMIT \<and>
     length (wire_body (generation s) (raws s)) \<le> QUOTA + METADATA_LIMIT \<and>
     out = wire_body (generation s) (raws s)" for out
    by (auto simp: encode_body_def result_simps rf Let_def wire_body_def raws_def)
  then show ?thesis
    by (auto simp: encode_def result_simps)
qed

section \<open>Round trips and bounds\<close>

lemma raws_build:
  assumes "is_state s"
  shows "bt_of_list (map build (raws s)) = containers s"
proof -
  have "build (raw_of e) = e" if "e \<in> set (containers s)" for e
    using that assms by (cases e) (auto simp: is_state_def raw_of_def build_def build_blobs_def
        bt_of_list_sorted)
  then have "map build (raws s) = containers s"
    by (simp add: raws_def comp_def map_idI)
  with assms show ?thesis
    by (simp add: is_state_def bt_of_list_sorted)
qed

lemma enc_ok_container_ok:
  assumes "enc_ok (raw_of (k, c))" "is_string (display_name c)" "bt_ok (blobs c)"
  shows "container_ok (raw_of (k, c))"
  using assms by (auto simp: enc_ok_def raw_of_def container_ok_def text_ok_def bt_ok_distinct
      dest: save_name_text_ok)

lemma encoded_save_ok:
  assumes "encode H s = Inr w" "is_state s"
  shows "save_ok (raws s)"
proof -
  have "distinct (map fst (raws s))"
    using assms(2) bt_ok_distinct [of "containers s"]
    by (simp add: raws_def is_state_def raw_of_def case_prod_unfold comp_def)
  moreover have "list_all container_ok (raws s)"
    using assms by (fastforce simp: encode_iff raws_def list_all_iff is_state_def
        intro: enc_ok_container_ok)
  ultimately show ?thesis
    using assms by (auto simp: save_ok_def encode_iff raws_def)
qed

lemma decode_encode_aux:
  assumes "is_sha256 H" "is_state s" "encode H s = Inr w"
  shows "decode H w = Inr s"
proof -
  have "s = \<lparr>generation = generation s, containers = bt_of_list (map build (raws s))\<rparr>"
    using raws_build [OF assms(2)] by simp
  then show ?thesis
    using assms encoded_save_ok [OF assms(3,2)] unfolding decode_iff [OF assms(1)]
    by (auto simp: encode_iff)
qed

text \<open>C1. A save written by \<^verbatim>\<open>encode\<close> is read back exactly by \<^verbatim>\<open>decode\<close>: generation, order,
  display names, times and every blob byte.\<close>

theorem decode_encode:
  assumes "is_sha256 H" "is_state s" "encode H s = Inr w"
  shows "decode H w = Inr s"
  using assms by (rule decode_encode_aux)

lemma build_inverse:
  assumes "container_ok x"
  shows "raw_of (build x) = (case x of (k, d, t, bs) \<Rightarrow> (k, d, t, bt_of_list bs))"
  using assms by (cases x) (auto simp: build_def raw_of_def build_blobs_def)

lemma length_wire_blobs: "length (wire_blobs bs) = sum_list (map (length \<circ> wire_blob) bs)"
  by (simp add: wire_blobs_def length_concat comp_def)

lemma decoded_raws:
  assumes "save_ok cs" and s_def: "s = \<lparr>generation = g, containers = bt_of_list (map build cs)\<rparr>"
  shows "is_state s" "list_all enc_ok (raws s)" "length (containers s) = length cs"
    "total_size (raws s) = total_size cs" "total_blobs (raws s) = total_blobs cs"
    "length (wire_containers (raws s)) = length (wire_containers cs)"
proof -
  have dist: "distinct (map fst (map build cs))"
    using assms by (simp add: save_ok_def build_def case_prod_unfold comp_def)
  have ok: "container_ok x" if "x \<in> set cs" for x
    using that assms by (auto simp: save_ok_def list_all_iff)
  have elems: "set (containers s) = build ` set cs"
    by (simp add: s_def set_bt_of_list [OF dist])
  have sums: "sum_list (map f (raws s)) = sum_list (map (f \<circ> raw_of \<circ> build) cs)"
    for f :: "raw_container \<Rightarrow> nat"
    using sum_list_bt_of_list [OF dist, of "f \<circ> raw_of"] by (simp add: raws_def s_def comp_assoc)
  show "length (containers s) = length cs"
    using length_bt_of_list [OF dist] by (simp add: s_def)
  show "is_state s"
    using elems ok by (auto simp: is_state_def s_def bt_ok_of_list container_ok_def build_def
        text_ok_def build_blobs_def)
  have "enc_ok (raw_of (build x))" if "x \<in> set cs" for x
    using ok [OF that] by (cases x) (auto simp: build_inverse container_ok_def enc_ok_def text_ok_def
        list_all_iff set_bt_of_list)
  then show "list_all enc_ok (raws s)"
    using elems by (auto simp: raws_def list_all_iff)
  have bsz: "blob_size (bt_of_list bs) = blob_size bs"
      "length (wire_blobs (bt_of_list bs)) = length (wire_blobs bs)"
      "length (bt_of_list bs) = length bs" if "(k, d, t, bs) \<in> set cs" for k d t bs
    using ok [OF that] sum_list_bt_of_list [of bs "length \<circ> snd"]
      sum_list_bt_of_list [of bs "length \<circ> wire_blob"] length_bt_of_list [of bs]
    by (auto simp: container_ok_def size_defs length_wire_blobs)
  show "total_size (raws s) = total_size cs"
    unfolding total_size_def sums
    by (intro arg_cong [where f = sum_list] map_cong) (auto simp: build_inverse ok bsz)
  show "total_blobs (raws s) = total_blobs cs"
    unfolding total_blobs_def sums
    by (intro arg_cong [where f = sum_list] map_cong) (auto simp: build_inverse ok bsz)
  have "length (wire_containers ds) = sum_list (map (length \<circ> wire_container) ds)" for ds
    by (simp add: wire_containers_def length_concat comp_def)
  then show "length (wire_containers (raws s)) = length (wire_containers cs)"
    using sums [of "length \<circ> wire_container"]
    by (auto intro!: arg_cong [where f = sum_list] map_cong
        simp: build_inverse ok bsz wire_container_def)
qed

lemma encode_decode_aux:
  assumes "is_sha256 H" "decode H w = Inr s"
  shows "is_state s \<and> (\<exists>w'. encode H s = Inr w' \<and> length w' = length w \<and> decode H w' = Inr s)"
proof -
  obtain g cs where w: "w = wire_body g cs @ H (wire_body g cs)" and ok: "save_ok cs"
    and len: "length (wire_body g cs) \<le> QUOTA + METADATA_LIMIT"
    and s: "s = \<lparr>generation = g, containers = bt_of_list (map build cs)\<rparr>"
    using assms(2) unfolding decode_iff [OF assms(1)] by blast
  note d = decoded_raws [OF ok s]
  have b: "length (wire_body (generation s) (raws s)) = length (wire_body g cs)"
    using d(6) by (simp add: wire_body_def)
  let ?w = "wire_body (generation s) (raws s) @ H (wire_body (generation s) (raws s))"
  have e: "encode H s = Inr ?w"
    unfolding encode_iff using d ok len b by (simp add: save_ok_def)
  moreover have "length ?w = length w"
    using b w assms(1) by (simp add: is_sha256_def)
  ultimately show ?thesis
    using d(1) decode_encode_aux [OF assms(1) d(1) e] by blast
qed

text \<open>C2. Whatever \<^verbatim>\<open>decode\<close> accepts can be written again: \<^verbatim>\<open>encode\<close> never refuses a decoded
  save, its output has the same length (the input may list its containers in another order) and
  decodes to the same save.\<close>

theorem encode_decode:
  assumes "is_sha256 H" "decode H w = Inr s"
  shows "\<exists>w'. encode H s = Inr w' \<and> length w' = length w \<and> decode H w' = Inr s"
  using encode_decode_aux [OF assms] by blast

text \<open>C3. The bounds of a decoded save: at most 4096 containers, 65536 blobs and 256 MiB of blob
  bytes in all, valid names throughout and times within \<^verbatim>\<open>i64\<close>.\<close>

theorem decode_bounds:
  assumes "is_sha256 H" "decode H w = Inr s"
  shows "length (containers s) \<le> CONTAINER_LIMIT \<and>
    (\<Sum>(k, c) \<leftarrow> containers s. length (blobs c)) \<le> BLOB_LIMIT \<and>
    (\<Sum>(k, c) \<leftarrow> containers s. \<Sum>(b, d) \<leftarrow> blobs c. length d) \<le> QUOTA \<and>
    (\<forall>(k, c) \<in> set (containers s). save_name k True = Inr () \<and>
       unat (modified c) < 2 ^ 63 \<and> (\<forall>(b, d) \<in> set (blobs c). save_name b False = Inr ()))"
proof -
  obtain w' where "encode H s = Inr w'"
    using encode_decode_aux [OF assms] by blast
  then have e: "length (containers s) \<le> CONTAINER_LIMIT" "list_all enc_ok (raws s)"
      "total_size (raws s) \<le> QUOTA" "total_blobs (raws s) \<le> BLOB_LIMIT"
    by (auto simp: encode_iff)
  moreover have "total_blobs (raws s) = (\<Sum>(k, c) \<leftarrow> containers s. length (blobs c))"
    by (simp add: total_blobs_def raws_def raw_of_def comp_def case_prod_unfold)
  moreover have "total_size (raws s) = (\<Sum>(k, c) \<leftarrow> containers s. \<Sum>(b, d) \<leftarrow> blobs c. length d)"
    by (simp add: size_defs raws_def raw_of_def comp_def case_prod_unfold)
  moreover have "\<forall>(k, c) \<in> set (containers s). save_name k True = Inr () \<and>
      unat (modified c) < 2 ^ 63 \<and> (\<forall>(b, d) \<in> set (blobs c). save_name b False = Inr ())"
    using e(2) by (fastforce simp: raws_def list_all_iff enc_ok_def raw_of_def blob_ok_name)
  ultimately show ?thesis
    by simp
qed

text \<open>C4. The format has no slack: if a sealed body decodes, no proper extension of it decodes,
  even when it is sealed again with a correct checksum.\<close>

theorem decode_no_trailing:
  assumes "is_sha256 H" "decode H (b @ H b) = Inr s" "decode H ((b @ x) @ H (b @ x)) = Inr s'"
  shows "x = []"
proof -
  have split: "c = wire_body g cs" if "c @ H c = wire_body g cs @ H (wire_body g cs)" for c g cs
    using that assms(1) by (simp add: is_sha256_def append_eq_append_conv)
  obtain g cs g' cs' where c: "b = wire_body g cs" "save_ok cs" "b @ x = wire_body g' cs'"
      "save_ok cs'" "length (b @ x) \<le> QUOTA + METADATA_LIMIT"
    using assms(2,3) split unfolding decode_iff [OF assms(1)] by metis
  let ?r = "\<lparr>data = b @ x, position = 8\<rparr>"
  let ?e = "\<lambda>n. \<lparr>data = b @ x, position = n\<rparr>"
  have parse: "\<exists>r1 r2 r3. read_u32 ?r = Inr (1, r1) \<and> read_u64 r1 = Inr (h, r2) \<and>
      read_u32 r2 = Inr (word_of_nat (length ds), r3) \<and>
      decode_containers (length ds) [] 0 0 r3 =
        Inr (bt_of_list (map build ds), total_size ds, total_blobs ds, ?e n)"
    if "save_ok ds" "wire_body h ds @ y = b @ x" "n = length (wire_body h ds)" for h ds y n
  proof -
    have "n \<le> length (b @ x)"
      using that(2,3) by (metis length_append le_add1)
    moreover have "drop 8 (b @ x) =
        le32 1 @ le64 h @ le32 (word_of_nat (length ds)) @ wire_containers ds @ y"
      unfolding that(2) [symmetric] by (simp add: wire_body_def)
    ultimately have "consumes ?r (le32 1 @ le64 h @ le32 (word_of_nat (length ds)) @ wire_containers ds)
        (?e n)"
      using c(5) that(3) by (auto simp: consumes_def wire_body_def prefix_def)
    then obtain r1 r2 r3 where r: "consumes ?r (le32 1) r1" "consumes r1 (le64 h) r2"
        "consumes r2 (le32 (word_of_nat (length ds))) r3" "consumes r3 (wire_containers ds) (?e n)"
      unfolding consumes_append by blast
    have "decode_containers (length ds) [] 0 0 r3 =
        Inr (bt_of_list (map build ds), total_size ds, total_blobs ds, ?e n)"
      using that(1) r(4) consumes_reader_ok [OF r(3)]
      by (subst decode_containers_iff) (auto simp: save_ok_def bt_of_list_def bt_has_def bt_get_def)
    then show ?thesis
      using r by (auto simp: read_u32_iff read_u64_iff intro!: exI)
  qed
  have n: "unat (word_of_nat (length ds) :: u32) = length ds" if "save_ok ds" for ds
    using that by (intro unat_word32_of_nat) (simp add: save_ok_def)
  obtain r1 r2 r3 where p: "read_u32 ?r = Inr (1, r1)" "read_u64 r1 = Inr (g, r2)"
      "read_u32 r2 = Inr (word_of_nat (length cs), r3)"
      "decode_containers (length cs) [] 0 0 r3 =
        Inr (bt_of_list (map build cs), total_size cs, total_blobs cs, ?e (length b))"
    using parse [OF c(2), of g x "length b"] c(1) by auto
  obtain r1' r2' r3' where q: "read_u32 ?r = Inr (1, r1')" "read_u64 r1' = Inr (g', r2')"
      "read_u32 r2' = Inr (word_of_nat (length cs'), r3')"
      "decode_containers (length cs') [] 0 0 r3' =
        Inr (bt_of_list (map build cs'), total_size cs', total_blobs cs', ?e (length (b @ x)))"
    using parse [OF c(4), of g' "[]" "length (b @ x)"] c(3) by auto
  have r: "r2 = r2'"
    using p q by simp
  have "length cs = length cs'" "r3 = r3'"
    using p(3) q(3) n [OF c(2)] n [OF c(4)] unfolding r by auto
  with p(4) q(4) show ?thesis
    by simp
qed

lemma is_state_canonical: "is_state s \<Longrightarrow> is_state (canonical s)"
  by (fastforce simp: is_state_def canonical_def bt_ok_def clear_time_def case_prod_unfold comp_def)

text \<open>C5. The content digest identifies the save up to generation and times: for two saves whose
  encodings do not collide under SHA-256, equal digests mean equal names, display names and
  blobs, and changing times or the generation never changes a digest.\<close>

theorem content_digest_iff:
  assumes "is_sha256 H" "is_state s" "is_state s'"
    and "content_digest H s = Inr d" "content_digest H s' = Inr d'"
    and "\<And>a b. encode H (canonical s) = Inr a \<Longrightarrow> encode H (canonical s') = Inr b \<Longrightarrow>
           H a = H b \<Longrightarrow> a = b"
  shows "d = d' \<longleftrightarrow> canonical s = canonical s'"
proof -
  obtain a b where ab: "encode H (canonical s) = Inr a" "d = sha256_hex H a"
      "encode H (canonical s') = Inr b" "d' = sha256_hex H b"
    using assms(4,5) by (auto simp: content_digest_def result_simps)
  have "decode H a = Inr (canonical s)" "decode H b = Inr (canonical s')"
    using decode_encode_aux [OF assms(1) is_state_canonical] assms(2,3) ab by blast+
  moreover have "d = d' \<longleftrightarrow> a = b"
    using assms(6) [OF ab(1,3)] ab(2,4) by (auto simp: sha256_hex_def hex_encode_inj)
  ultimately show ?thesis
    using ab by auto
qed

lemma last_join_with:
  "ps \<noteq> [] \<Longrightarrow> last ps \<noteq> [] \<Longrightarrow>
   join_with [d] ps \<noteq> [] \<and> last (join_with [d] ps) = last (last ps)"
  by (induction "[d]" ps rule: join_with.induct) (auto simp: last_append)

text \<open>An accepted name never leads out of its folder: no part of it is empty, \<^verbatim>\<open>.\<close> or
  \<^verbatim>\<open>..\<close>, none holds a backslash, a colon or a NUL, and a blob name has one part only.\<close>

theorem save_name_no_escape:
  assumes "save_name v container = Inr ()"
  shows "(\<forall>p \<in> set (split_on (CHR ''/'') v). p \<noteq> [] \<and> p \<noteq> ''.'' \<and> p \<noteq> ''..'' \<and>
           CHR 0x5C \<notin> set p \<and> CHR '':'' \<notin> set p \<and> CHR 0x00 \<notin> set p) \<and>
    (\<not> container \<longrightarrow> split_on (CHR ''/'') v = [v])"
proof -
  let ?ps = "split_on (CHR ''/'') v"
  have np: "name_parts container ?ps = Inr ()" and v: "\<not> contains_str ''..'' v" "v \<noteq> []" "last v \<noteq> CHR ''.''"
    using assms by (auto simp: save_name_def result_simps ends_with_char_def)
  have parts: "name_parts c ps = Inr () \<Longrightarrow> (\<forall>p \<in> set (butlast ps). CHR ''.'' \<notin> set p) \<and>
      (\<not> c \<longrightarrow> length ps \<le> 1)" for c ps
  proof (induction ps)
    case (Cons q qs)
    then show ?case
      by (auto simp: result_simps Let_def list_all_iff part_byte_def is_alnum_def is_digit_def
          is_lower_def is_upper_def)
  qed simp
  have one: "\<not> container \<longrightarrow> ?ps = [v]"
  proof
    assume "\<not> container"
    then have "length ?ps = 1"
      using parts [OF np] by (metis One_nat_def le_Suc_eq le_zero_eq length_0_conv split_on_not_Nil)
    then obtain p where "?ps = [p]"
      by (metis One_nat_def length_0_conv length_Suc_conv)
    then show "?ps = [v]"
      using join_split [of "CHR ''/''" v] by simp
  qed
  have last: "last ?ps \<noteq> ''.'' \<and> last ?ps \<noteq> ''..''"
  proof -
    note last_join_with
    moreover have "last ?ps \<noteq> []"
      using name_parts_bytes [OF np] by simp
    ultimately have "last (last ?ps) \<noteq> CHR ''.''"
      using v(3) join_split [of "CHR ''/''" v] by (metis split_on_not_Nil)
    then show ?thesis by auto
  qed
  have "p \<noteq> ''.'' \<and> p \<noteq> ''..''" if "p \<in> set ?ps" for p
  proof (cases "p \<in> set (butlast ?ps)")
    case True
    then show ?thesis using parts [OF np] by auto
  next
    case False
    then have "p = last ?ps"
      using that by (metis append_butlast_last_id in_set_conv_decomp_last set_ConsD
          split_on_not_Nil rotate1.simps(2) set_rotate1)
    with last show ?thesis by simp
  qed
  moreover have "p \<noteq> [] \<and> CHR 0x5C \<notin> set p \<and> CHR '':'' \<notin> set p \<and> CHR 0x00 \<notin> set p"
    if "p \<in> set ?ps" for p
    using name_parts_bytes [OF np that]
    by (auto simp: part_byte_def is_alnum_def is_digit_def is_lower_def is_upper_def)
  ultimately show ?thesis
    using one by blast
qed

section \<open>Witnesses\<close>

text \<open>The save of the repository's wire fixture, and a digest that is concrete but not SHA-256.\<close>

definition zero_hash :: "u8 list \<Rightarrow> u8 list" where
  "zero_hash b = replicate 32 0"

definition sum_hash :: "u8 list \<Rightarrow> u8 list" where
  "sum_hash b = sum_list b # replicate 31 0"

definition fixture_save :: state where
  "fixture_save = \<lparr>generation = 7, containers =
     [(''profile'', \<lparr>display_name = ''Pilot'', modified = 123, blobs = [(''data'', [0, 255, 66])]\<rparr>)]\<rparr>"

definition later_save :: state where
  "later_save = \<lparr>generation = 8, containers =
     [(''profile'', \<lparr>display_name = ''Pilot'', modified = 124, blobs = [(''data'', [0, 255, 66])]\<rparr>)]\<rparr>"

definition fixture_body :: "u8 list" where
  "fixture_body =
     [0x58, 0x44, 0x4c, 0x4f, 0x43, 0x41, 0x4c, 0x31, 1, 0, 0, 0, 7, 0, 0, 0, 0, 0, 0, 0, 1, 0, 0, 0,
      7, 0, 0, 0, 0x70, 0x72, 0x6f, 0x66, 0x69, 0x6c, 0x65, 5, 0, 0, 0, 0x50, 0x69, 0x6c, 0x6f, 0x74,
      0x7b, 0, 0, 0, 0, 0, 0, 0, 1, 0, 0, 0, 4, 0, 0, 0, 0x64, 0x61, 0x74, 0x61, 3, 0, 0, 0, 0, 0xff, 0x42]"

lemma is_sha256_toys: "is_sha256 zero_hash" "is_sha256 sum_hash"
  by (simp_all add: is_sha256_def zero_hash_def sum_hash_def)

lemma fixture_is_state: "is_state fixture_save" "is_state later_save"
  by (simp_all add: is_state_def fixture_save_def later_save_def bt_ok_def is_string_ascii)

lemma fixture_encodes: "encode sum_hash fixture_save = Inr (fixture_body @ sum_hash fixture_body)"
  by code_simp

lemma fixture_decodes: "decode sum_hash (fixture_body @ sum_hash fixture_body) = Inr fixture_save"
  by (rule decode_encode_aux [OF is_sha256_toys(2) fixture_is_state(1) fixture_encodes])

theorem decode_encode_witness:
  "encode sum_hash fixture_save = Inr (fixture_body @ sum_hash fixture_body) \<and>
   decode sum_hash (fixture_body @ sum_hash fixture_body) = Inr fixture_save"
  using fixture_encodes decode_encode [OF is_sha256_toys(2) fixture_is_state(1) fixture_encodes]
  by simp

theorem encode_decode_witness:
  "decode sum_hash (fixture_body @ sum_hash fixture_body) = Inr fixture_save \<and>
   (\<exists>w'. encode sum_hash fixture_save = Inr w' \<and>
      length w' = length (fixture_body @ sum_hash fixture_body) \<and>
      decode sum_hash w' = Inr fixture_save)"
  using fixture_decodes encode_decode [OF is_sha256_toys(2) fixture_decodes] by simp

theorem decode_bounds_witness:
  "decode sum_hash (fixture_body @ sum_hash fixture_body) = Inr fixture_save \<and>
   length (containers fixture_save) \<le> CONTAINER_LIMIT \<and>
   (\<Sum>(k, c) \<leftarrow> containers fixture_save. length (blobs c)) \<le> BLOB_LIMIT"
  using fixture_decodes decode_bounds [OF is_sha256_toys(2) fixture_decodes] by blast

theorem decode_no_trailing_witness:
  "decode sum_hash (fixture_body @ sum_hash fixture_body) = Inr fixture_save \<and>
   \<not> is_ok (decode sum_hash ((fixture_body @ [0]) @ sum_hash (fixture_body @ [0])))"
proof -
  have "decode sum_hash ((fixture_body @ [0]) @ sum_hash (fixture_body @ [0])) \<noteq> Inr s" for s
    using decode_no_trailing [OF is_sha256_toys(2) fixture_decodes, of "[0]" s] by fastforce
  then show ?thesis
    using fixture_decodes unfolding is_ok_iff by blast
qed

lemma later_encodes: "encode sum_hash (canonical later_save) = encode sum_hash (canonical fixture_save)"
  by (simp add: canonical_def later_save_def fixture_save_def clear_time_def)

lemma canonical_encodes: "is_ok (encode sum_hash (canonical fixture_save))"
  by code_simp

theorem content_digest_iff_witness:
  "\<exists>d. content_digest sum_hash fixture_save = Inr d \<and> content_digest sum_hash later_save = Inr d \<and>
     fixture_save \<noteq> later_save \<and> canonical fixture_save = canonical later_save"
proof -
  obtain a where a: "encode sum_hash (canonical fixture_save) = Inr a"
    using canonical_encodes by (auto simp: is_ok_iff)
  let ?d = "sha256_hex sum_hash a"
  have d: "content_digest sum_hash fixture_save = Inr ?d" "content_digest sum_hash later_save = Inr ?d"
    by (simp_all add: content_digest_def a later_encodes)
  have "?d = ?d \<longleftrightarrow> canonical fixture_save = canonical later_save"
    by (rule content_digest_iff [OF is_sha256_toys(2) fixture_is_state d]) (simp add: a later_encodes)
  with d show ?thesis
    by (auto simp: fixture_save_def later_save_def)
qed

theorem save_name_no_escape_witness:
  "split_on (CHR ''/'') ''folder/profile'' = [''folder'', ''profile''] \<and>
   ''folder'' \<noteq> ''..'' \<and> ''profile'' \<noteq> ''''"
proof -
  have ok: "save_name ''folder/profile'' True = Inr ()"
      and parts: "split_on (CHR ''/'') ''folder/profile'' = [''folder'', ''profile'']"
    by code_simp+
  from save_name_no_escape [OF ok] parts show ?thesis by auto
qed

end
