(* ===== verification/CloudPolicy.thy ===== *)
theory CloudPolicy
  imports SaveCodec
begin

text \<open>
  \<^verbatim>\<open>native/cloud_policy.rs\<close>: the comparison of local saves, cloud saves and the last common
  baseline. A save set is a scope binding and the content digest of each container. The
  specification is the three-way merge of single containers, \<open>merge3\<close>.
\<close>

section \<open>Save sets\<close>

record save_set =
  binding :: string
  digests :: "(string, string) btree"

definition SYNC_INVALID :: string where
  "SYNC_INVALID = ''Ung'' @ u_uml @ ''ltige Cloud-Sync-Daten.''"

definition SYNC_BINDING :: string where
  "SYNC_BINDING = ''Ung'' @ u_uml @ ''ltige Cloud-Sync-Zuordnung.''"

definition check_entry :: "string \<times> string \<Rightarrow> unit \<Rightarrow> error + unit" where
  "check_entry = (\<lambda>(name, digest) _.
     rbind (save_name name True) (\<lambda>_. require (hex_digest digest) SYNC_INVALID))"

definition save_set_new :: "string \<Rightarrow> (string, string) btree \<Rightarrow> error + save_set" where
  "save_set_new b m =
     rbind (require (hex_digest b \<and> length m \<le> CONTAINER_LIMIT) SYNC_INVALID) (\<lambda>_.
     rbind (rfold check_entry m ()) (\<lambda>_. Inr \<lparr>binding = b, digests = m\<rparr>))"

definition container_digest ::
  "(u8 list \<Rightarrow> u8 list) \<Rightarrow> string \<times> container \<Rightarrow> (string, string) btree \<Rightarrow>
   error + (string, string) btree" where
  "container_digest H = (\<lambda>(key, entry) m.
     rbind (content_digest H \<lparr>generation = 0, containers = [(key, entry)]\<rparr>) (\<lambda>d.
     Inr (bt_put key d m)))"

definition save_set_from_state ::
  "(u8 list \<Rightarrow> u8 list) \<Rightarrow> string \<Rightarrow> state \<Rightarrow> error + save_set" where
  "save_set_from_state H b s =
     rbind (encode H s) (\<lambda>_.
     rbind (rfold (container_digest H) (containers s) []) (\<lambda>m. save_set_new b m))"

section \<open>Decisions\<close>

datatype action = Noop | ImportCloud | UploadLocal | Merge | Conflict | Blocked

datatype origin = FromLocal | FromCloud

record selection =
  sel_name :: string
  sel_source :: origin
  sel_digest :: "string option"

record decision =
  action :: action
  reason :: string
  target :: "save_set option"
  selections :: "selection list"
  conflicts :: "string list"
  backup_required :: bool
  baseline_required :: bool

definition decision_new :: "action \<Rightarrow> string \<Rightarrow> decision" where
  "decision_new a r = \<lparr>action = a, reason = r, target = None, selections = [], conflicts = [],
     backup_required = False, baseline_required = False\<rparr>"

definition select_all :: "(string, string) btree \<Rightarrow> origin \<Rightarrow> string list \<Rightarrow> selection list" where
  "select_all m src names =
     map (\<lambda>name. \<lparr>sel_name = name, sel_source = src, sel_digest = bt_get m name\<rparr>) names"

text \<open>One iteration of the merge loop over the union of the names.\<close>

definition merge_step ::
  "(string, string) btree \<Rightarrow> (string, string) btree \<Rightarrow> (string, string) btree \<Rightarrow> string \<Rightarrow>
   selection list \<times> string list \<times> (string, string) btree \<Rightarrow>
   selection list \<times> string list \<times> (string, string) btree" where
  "merge_step left right old name = (\<lambda>(sels, confs, tgt).
     let a = bt_get left name; b = bt_get right name; previous = bt_get old name;
         choice = (if a = b then Some (FromLocal, a)
                   else if a = previous then Some (FromCloud, b)
                   else if b = previous then Some (FromLocal, a) else None)
     in case choice of
          None \<Rightarrow> (sels, confs @ [name], tgt)
        | Some (src, digest) \<Rightarrow>
            (sels @ [\<lparr>sel_name = name, sel_source = src, sel_digest = digest\<rparr>], confs,
             (case digest of None \<Rightarrow> tgt | Some d \<Rightarrow> bt_put name d tgt)))"

definition decide :: "string \<Rightarrow> save_set option \<Rightarrow> save_set option \<Rightarrow> save_set option \<Rightarrow>
    error + decision" where
  "decide b local remote baseline =
     rbind (require (hex_digest b) SYNC_BINDING) (\<lambda>_.
     if list_ex (\<lambda>v. case v of None \<Rightarrow> False | Some x \<Rightarrow> binding x \<noteq> b) [local, remote, baseline]
     then Inr (decision_new Blocked ''scope_mismatch'')
     else case local of None \<Rightarrow> Inr (decision_new Blocked ''local_unavailable'')
     | Some local \<Rightarrow>
       (case remote of None \<Rightarrow> Inr (decision_new Blocked ''remote_unavailable'')
        | Some remote \<Rightarrow>
          (let left = digests local; right = digests remote; old = map_option digests baseline;
               names = sorted_set (bt_keys left @ bt_keys right @
                 (case old of None \<Rightarrow> [] | Some v \<Rightarrow> bt_keys v))
           in if left = right then
             Inr ((decision_new Noop ''already_equal'')\<lparr>target := Some local,
               baseline_required := old \<noteq> Some left,
               selections := select_all left FromLocal names\<rparr>)
           else case old of
             None \<Rightarrow>
               (let (selected, src, act, why) =
                  (if right = [] then (local, FromLocal, UploadLocal, ''first_local'')
                   else (remote, FromCloud, ImportCloud, ''first_cloud''))
                in Inr ((decision_new act why)\<lparr>target := Some selected,
                     backup_required := True, baseline_required := True,
                     selections := select_all (digests selected) src names\<rparr>))
           | Some old \<Rightarrow>
               (let (sels, confs, tgt) = fold (merge_step left right old) names ([], [], [])
                in if confs \<noteq> [] then
                     Inr ((decision_new Conflict ''diverged'')\<lparr>conflicts := confs\<rparr>)
                   else if CONTAINER_LIMIT < length tgt then
                     Inr (decision_new Blocked ''bounds'')
                   else
                     (let (act, why) =
                        (if tgt = right then (ImportCloud, ''remote_changed'')
                         else if tgt = left then (UploadLocal, ''local_changed'')
                         else (Merge, ''independent_changes''))
                      in rbind (save_set_new b tgt) (\<lambda>t.
                         Inr ((decision_new act why)\<lparr>target := Some t, selections := sels,
                           backup_required := True, baseline_required := True\<rparr>)))))))"

section \<open>The specification: three-way merge\<close>

text \<open>\<open>merge3 a b o\<close>: what becomes of one container that is \<open>a\<close> locally, \<open>b\<close> in the cloud
  and was \<open>o\<close> when both agreed last; \<open>None\<close> when both sides changed it differently.\<close>

definition merge3 :: "'a \<Rightarrow> 'a \<Rightarrow> 'a \<Rightarrow> 'a option" where
  "merge3 a b previous =
     (if a = previous then Some b else if b = previous then Some a
      else if a = b then Some a else None)"

lemma merge3_sym: "merge3 a b previous = merge3 b a previous"
  by (auto simp: merge3_def)

definition set_names :: "(string, string) btree \<Rightarrow> (string, string) btree \<Rightarrow>
    (string, string) btree \<Rightarrow> string list" where
  "set_names left right old = sorted_set (bt_keys left @ bt_keys right @ bt_keys old)"

definition diverged :: "(string, string) btree \<Rightarrow> (string, string) btree \<Rightarrow>
    (string, string) btree \<Rightarrow> string \<Rightarrow> bool" where
  "diverged left right old name \<longleftrightarrow>
     merge3 (bt_get left name) (bt_get right name) (bt_get old name) = None"

definition merged :: "(string, string) btree \<Rightarrow> (string, string) btree \<Rightarrow>
    (string, string) btree \<Rightarrow> string \<Rightarrow> string option" where
  "merged left right old name =
     (case merge3 (bt_get left name) (bt_get right name) (bt_get old name) of
        Some d \<Rightarrow> d | None \<Rightarrow> None)"

text \<open>What the Rust types guarantee of a \<^verbatim>\<open>SaveSet\<close>: only \<^verbatim>\<open>SaveSet::new\<close> makes one.\<close>

definition is_save_set :: "save_set \<Rightarrow> bool" where
  "is_save_set v \<longleftrightarrow> bt_ok (digests v) \<and> save_set_new (binding v) (digests v) = Inr v"

lemma rfold_check_entry:
  "rfold check_entry m u = Inr v \<longleftrightarrow>
     (\<forall>(k, d) \<in> set m. save_name k True = Inr () \<and> hex_digest d)"
  by (induction m arbitrary: u) (auto simp: result_simps check_entry_def split: prod.splits)

lemma save_set_new_iff:
  "save_set_new b m = Inr v \<longleftrightarrow> hex_digest b \<and> length m \<le> CONTAINER_LIMIT \<and>
     (\<forall>(k, d) \<in> set m. save_name k True = Inr () \<and> hex_digest d) \<and>
     v = \<lparr>binding = b, digests = m\<rparr>"
  by (auto simp: save_set_new_def result_simps rfold_check_entry)

lemma is_save_set_entry:
  "is_save_set v \<Longrightarrow> bt_get (digests v) k = Some d \<Longrightarrow> save_name k True = Inr () \<and> hex_digest d"
  by (auto simp: is_save_set_def save_set_new_iff bt_get_iff [symmetric])

section \<open>The merge loop\<close>

lemma merge_loop:
  assumes "distinct names" "bt_ok tgt" "\<forall>n \<in> set names. bt_get tgt n = None"
  shows "\<exists>sels' tgt'. fold (merge_step left right old) names (sels, confs, tgt) =
      (sels', confs @ filter (diverged left right old) names, tgt') \<and> bt_ok tgt' \<and>
      (\<forall>n. bt_get tgt' n = (if n \<in> set names then merged left right old n else bt_get tgt n))"
  using assms
proof (induction names arbitrary: sels confs tgt)
  case (Cons n ns)
  let ?st = "merge_step left right old n (sels, confs, tgt)"
  obtain sels1 confs1 tgt1 where st: "?st = (sels1, confs1, tgt1)"
    by (cases ?st)
  have s: "confs1 = confs @ filter (diverged left right old) [n]" "bt_ok tgt1"
      "\<forall>m. bt_get tgt1 m = (if m = n then merged left right old n else bt_get tgt m)"
    using st Cons.prems
    by (auto simp: merge_step_def diverged_def merged_def merge3_def Let_def bt_get_put bt_ok_put
        split: if_splits option.splits)
  have "\<forall>m \<in> set ns. bt_get tgt1 m = None"
    using s(3) Cons.prems by auto
  from Cons.IH [OF _ s(2) this, of sels1 confs1] Cons.prems(1) obtain sels' tgt' where
      "fold (merge_step left right old) ns (sels1, confs1, tgt1) =
        (sels', confs1 @ filter (diverged left right old) ns, tgt')" "bt_ok tgt'"
      "\<forall>m. bt_get tgt' m = (if m \<in> set ns then merged left right old m else bt_get tgt1 m)"
    by auto
  with st s Cons.prems(1) show ?case
    by auto
qed auto

lemma merged_outside:
  "n \<notin> set (set_names left right old) \<Longrightarrow> merged left right old n = None"
  by (auto simp: set_names_def merged_def merge3_def bt_has_iff [symmetric] bt_has_def)

lemma merge_result:
  obtains sels tgt where
    "fold (merge_step left right old) (set_names left right old) ([], [], []) =
      (sels, filter (diverged left right old) (set_names left right old), tgt)"
    "bt_ok tgt" "\<And>n. bt_get tgt n = merged left right old n"
proof -
  have "\<exists>sels tgt. fold (merge_step left right old) (set_names left right old) ([], [], []) =
      (sels, [] @ filter (diverged left right old) (set_names left right old), tgt) \<and> bt_ok tgt \<and>
      (\<forall>n. bt_get tgt n = (if n \<in> set (set_names left right old) then merged left right old n
                          else bt_get [] n))"
    by (rule merge_loop) (auto simp: set_names_def bt_get_def)
  with that show ?thesis
    using merged_outside by (force simp: bt_get_def)
qed

lemma merged_from:
  assumes "merged left right old n = Some d"
  shows "bt_get left n = Some d \<or> bt_get right n = Some d"
  using assms by (auto simp: merged_def merge3_def split: if_splits)

lemma merged_save_set:
  assumes "is_save_set l" "is_save_set r" "bt_ok tgt"
    and "\<And>n. bt_get tgt n = merged (digests l) (digests r) old n"
    and "length tgt \<le> CONTAINER_LIMIT" "hex_digest b"
  shows "save_set_new b tgt = Inr \<lparr>binding = b, digests = tgt\<rparr>"
  unfolding save_set_new_iff
  using assms merged_from is_save_set_entry
  by (fastforce simp: bt_get_iff)

section \<open>What a decision does\<close>

definition same_scope :: "string \<Rightarrow> save_set \<Rightarrow> save_set \<Rightarrow> save_set \<Rightarrow> bool" where
  "same_scope b l r old \<longleftrightarrow> hex_digest b \<and>
     is_save_set l \<and> is_save_set r \<and> is_save_set old \<and>
     binding l = b \<and> binding r = b \<and> binding old = b"

lemma save_set_eqI: "binding l = binding r \<Longrightarrow> digests l = digests r \<Longrightarrow> (l :: save_set) = r"
  by simp

lemma same_scope_swap: "same_scope b l r old \<longleftrightarrow> same_scope b r l old"
  by (auto simp: same_scope_def)

lemma decide_equal:
  assumes "same_scope b l r old" "digests l = digests r"
  shows "decide b (Some l) (Some r) (Some old) =
    Inr ((decision_new Noop ''already_equal'')\<lparr>target := Some l,
      baseline_required := digests old \<noteq> digests l,
      selections := select_all (digests l) FromLocal (set_names (digests l) (digests r) (digests old))\<rparr>)"
  using assms by (simp add: decide_def same_scope_def set_names_def Let_def)

text \<open>The outcome once the sides differ, from the merged map and the diverged names.\<close>

definition changed_outcome ::
  "string \<Rightarrow> (string, string) btree \<Rightarrow> (string, string) btree \<Rightarrow> (string, string) btree \<Rightarrow>
   selection list \<Rightarrow> (string, string) btree \<Rightarrow> error + decision" where
  "changed_outcome b left right old sels tgt =
     (let confs = filter (diverged left right old) (set_names left right old) in
      if confs \<noteq> [] then Inr ((decision_new Conflict ''diverged'')\<lparr>conflicts := confs\<rparr>)
      else if CONTAINER_LIMIT < length tgt then Inr (decision_new Blocked ''bounds'')
      else Inr ((decision_new
             (if tgt = right then ImportCloud else if tgt = left then UploadLocal else Merge)
             (if tgt = right then ''remote_changed''
              else if tgt = left then ''local_changed'' else ''independent_changes''))\<lparr>
             target := Some \<lparr>binding = b, digests = tgt\<rparr>, selections := sels,
             backup_required := True, baseline_required := True\<rparr>))"

lemma decide_changed:
  assumes "same_scope b l r old" "digests l \<noteq> digests r"
  obtains sels tgt where
    "decide b (Some l) (Some r) (Some old) =
      changed_outcome b (digests l) (digests r) (digests old) sels tgt"
    "bt_ok tgt" "\<And>n. bt_get tgt n = merged (digests l) (digests r) (digests old) n"
proof -
  let ?l = "digests l" and ?r = "digests r" and ?o = "digests old"
  obtain sels tgt where m: "fold (merge_step ?l ?r ?o) (set_names ?l ?r ?o) ([], [], []) =
      (sels, filter (diverged ?l ?r ?o) (set_names ?l ?r ?o), tgt)"
      "bt_ok tgt" "\<And>n. bt_get tgt n = merged ?l ?r ?o n"
    using merge_result [of ?l ?r ?o] by blast
  have "save_set_new b tgt = Inr \<lparr>binding = b, digests = tgt\<rparr>" if "length tgt \<le> CONTAINER_LIMIT"
    using assms(1) that by (intro merged_save_set [OF _ _ m(2,3)]) (auto simp: same_scope_def)
  then have "decide b (Some l) (Some r) (Some old) = changed_outcome b ?l ?r ?o sels tgt"
    using assms m(1)
    by (simp add: decide_def changed_outcome_def same_scope_def set_names_def [symmetric] Let_def)
  then show thesis
    by (rule that [OF _ m(2,3)])
qed

lemma diverged_outside: "diverged left right old n \<Longrightarrow> n \<in> set (set_names left right old)"
  by (auto simp: set_names_def diverged_def merge3_def bt_has_iff [symmetric] bt_has_def
      split: if_splits)

lemma diverged_merged: "\<not> diverged left right old n \<Longrightarrow>
    merge3 (bt_get left n) (bt_get right n) (bt_get old n) = Some (merged left right old n)"
  by (auto simp: diverged_def merged_def)

text \<open>C6. With a baseline, a target is the three-way merge of every container: what only one
  side changed is taken from that side, and the target is a valid save set of the same scope.\<close>

theorem decide_three_way:
  assumes "same_scope b l r old"
    and "decide b (Some l) (Some r) (Some old) = Inr d" "target d = Some t"
  shows "is_save_set t \<and> binding t = b \<and>
    (\<forall>n. merge3 (bt_get (digests l) n) (bt_get (digests r) n) (bt_get (digests old) n) =
         Some (bt_get (digests t) n))"
proof (cases "digests l = digests r")
  case True
  with assms show ?thesis
    by (auto simp: decide_equal same_scope_def merge3_def)
next
  case False
  let ?l = "digests l" and ?r = "digests r" and ?o = "digests old"
  obtain sels tgt where eq: "decide b (Some l) (Some r) (Some old) = changed_outcome b ?l ?r ?o sels tgt"
    and tgt: "bt_ok tgt" "\<And>n. bt_get tgt n = merged ?l ?r ?o n"
    by (rule decide_changed [OF assms(1) False]) blast
  have nd: "filter (diverged ?l ?r ?o) (set_names ?l ?r ?o) = []" "length tgt \<le> CONTAINER_LIMIT"
      "t = \<lparr>binding = b, digests = tgt\<rparr>"
    using assms(2,3) unfolding eq by (auto simp: changed_outcome_def Let_def decision_new_def split: if_splits)
  then have "\<not> diverged ?l ?r ?o n" for n
    using diverged_outside by (fastforce simp: filter_empty_conv)
  moreover have "save_set_new b tgt = Inr \<lparr>binding = b, digests = tgt\<rparr>"
    using assms(1) nd by (intro merged_save_set [OF _ _ tgt]) (auto simp: same_scope_def)
  ultimately show ?thesis
    using nd tgt by (auto simp: is_save_set_def dest: diverged_merged)
qed

text \<open>C7. A conflict is reported exactly when some container was changed differently on both
  sides; the listed names are exactly those, and a conflict carries no partial merge.\<close>

theorem decide_conflict_iff:
  assumes "same_scope b l r old" "decide b (Some l) (Some r) (Some old) = Inr d"
  shows "(action d = Conflict \<longleftrightarrow> (\<exists>n. diverged (digests l) (digests r) (digests old) n)) \<and>
    set (conflicts d) = {n. diverged (digests l) (digests r) (digests old) n} \<and>
    (action d = Conflict \<longrightarrow> target d = None \<and> selections d = [])"
proof (cases "digests l = digests r")
  case True
  with assms show ?thesis
    by (auto simp: decide_equal decision_new_def diverged_def merge3_def)
next
  case False
  let ?D = "{n. diverged (digests l) (digests r) (digests old) n}"
  have D: "set (filter (diverged (digests l) (digests r) (digests old))
      (set_names (digests l) (digests r) (digests old))) = ?D"
    using diverged_outside by auto
  then have E: "filter (diverged (digests l) (digests r) (digests old))
      (set_names (digests l) (digests r) (digests old)) = [] \<longleftrightarrow> ?D = {}"
    by (metis set_empty)
  show ?thesis
    by (rule decide_changed [OF assms(1) False], use assms(2) D E in \<open>auto simp: changed_outcome_def Let_def decision_new_def split: if_splits\<close>)
qed

definition swap_action :: "action \<Rightarrow> action" where
  "swap_action a = (case a of ImportCloud \<Rightarrow> UploadLocal | UploadLocal \<Rightarrow> ImportCloud | _ \<Rightarrow> a)"

text \<open>With a baseline the decision does not favour a side: with local and cloud exchanged, target and
  conflicts are the same and importing and uploading change places. Without one it does: a first
  synchronisation takes the cloud's save unless that is empty.\<close>

theorem decide_symmetric:
  assumes "same_scope b l r old" "decide b (Some l) (Some r) (Some old) = Inr d"
  shows "\<exists>d'. decide b (Some r) (Some l) (Some old) = Inr d' \<and>
    target d' = target d \<and> conflicts d' = conflicts d \<and> action d' = swap_action (action d)"
proof (cases "digests l = digests r")
  case True
  moreover from this have "l = r"
    using assms(1) by (intro save_set_eqI) (auto simp: same_scope_def)
  ultimately show ?thesis
    using assms by (auto simp: decide_equal decision_new_def swap_action_def)
next
  case False
  let ?l = "digests l" and ?r = "digests r" and ?o = "digests old"
  have dsym: "diverged ?r ?l ?o = diverged ?l ?r ?o" "merged ?r ?l ?o = merged ?l ?r ?o"
    by (auto simp: diverged_def merged_def merge3_sym)
  have nsym: "set_names ?r ?l ?o = set_names ?l ?r ?o"
    unfolding set_names_def by (rule sorted_set_cong) auto
  obtain sels tgt where A: "decide b (Some l) (Some r) (Some old) = changed_outcome b ?l ?r ?o sels tgt"
    and a: "bt_ok tgt" "\<And>n. bt_get tgt n = merged ?l ?r ?o n"
    by (rule decide_changed [OF assms(1) False]) blast
  obtain sels' tgt' where B: "decide b (Some r) (Some l) (Some old) = changed_outcome b ?r ?l ?o sels' tgt'"
    and b: "bt_ok tgt'" "\<And>n. bt_get tgt' n = merged ?r ?l ?o n"
    by (rule decide_changed [OF same_scope_swap [THEN iffD1, OF assms(1)] False [symmetric]]) blast
  have "tgt' = tgt"
    using a b by (intro bt_eqI) (auto simp: dsym)
  then show ?thesis
    using assms(2) False unfolding A B
    by (auto simp: changed_outcome_def Let_def dsym nsym decision_new_def swap_action_def split: if_splits)
qed

text \<open>For a valid binding and valid save sets \<^verbatim>\<open>decide\<close> never fails, and a decision offers a
  target only when both sides are known and belong to the scope; anything but \<^verbatim>\<open>Noop\<close> then asks
  for a backup first. An unknown side is never taken for an empty one.\<close>

theorem decide_needs_both:
  assumes "hex_digest b" "\<And>x. Some x \<in> {lo, re, base} \<Longrightarrow> is_save_set x"
  shows "\<exists>d. decide b lo re base = Inr d \<and>
    (target d \<noteq> None \<longrightarrow> (\<exists>l r. lo = Some l \<and> re = Some r \<and> binding l = b \<and> binding r = b) \<and>
       action d \<notin> {Conflict, Blocked} \<and>
       (action d \<noteq> Noop \<longrightarrow> backup_required d \<and> baseline_required d))"
proof (cases "\<exists>x. Some x \<in> set [lo, re, base] \<and> binding x \<noteq> b")
  case True
  then have "decide b lo re base = Inr (decision_new Blocked ''scope_mismatch'')"
    using assms(1) by (auto simp: decide_def list_ex_iff split: option.splits)
  then show ?thesis by (simp add: decision_new_def)
next
  case False
  then have noex: "\<not> list_ex (\<lambda>v. case v of None \<Rightarrow> False | Some x \<Rightarrow> binding x \<noteq> b) [lo, re, base]"
    by (auto split: option.splits)
  show ?thesis
  proof (cases "lo = None \<or> re = None")
    case True
    then show ?thesis
      using noex assms(1) by (cases lo) (auto simp: decide_def decision_new_def)
  next
    case sides: False
    then obtain l r where lr: "lo = Some l" "re = Some r" by auto
    with False have bind: "binding l = b" "binding r = b" by auto
    show ?thesis
    proof (cases base)
      case None
      then show ?thesis
        using noex assms(1) lr bind
        by (auto simp: decide_def decision_new_def Let_def split: if_splits)
    next
      case (Some old)
      then have ss: "same_scope b l r old"
        using assms(1) assms(2) [of l] assms(2) [of r] assms(2) [of old] lr bind False
        by (auto simp: same_scope_def)
      show ?thesis
      proof (cases "digests l = digests r")
        case True
        with ss lr Some bind show ?thesis
          by (auto simp: decide_equal decision_new_def)
      next
        case False
        show ?thesis
          by (rule decide_changed [OF ss False])
            (auto simp: lr Some bind changed_outcome_def Let_def decision_new_def split: if_splits)
      qed
    qed
  qed
qed

text \<open>Without a baseline and with differing sides the cloud wins unless it is empty; the
  local save is uploaded only then. A backup is required either way.\<close>

theorem decide_first_sync:
  assumes "hex_digest b" "binding l = b" "binding r = b" "digests l \<noteq> digests r"
  shows "\<exists>d. decide b (Some l) (Some r) None = Inr d \<and> backup_required d \<and> baseline_required d \<and>
    (if digests r = [] then action d = UploadLocal \<and> target d = Some l
     else action d = ImportCloud \<and> target d = Some r)"
  using assms by (simp add: decide_def decision_new_def Let_def)

section \<open>Witnesses\<close>

definition hex64 :: "char \<Rightarrow> string" where
  "hex64 c = replicate 64 c"

definition ws :: "(string \<times> char) list \<Rightarrow> save_set" where
  "ws kvs = \<lparr>binding = hex64 (CHR ''a''), digests = map (\<lambda>(k, c). (k, hex64 c)) kvs\<rparr>"

text \<open>Both sides changed one container each since the baseline, and one container diverged.\<close>

definition w_old :: save_set where "w_old = ws [(''a'', CHR ''0''), (''b'', CHR ''0'')]"
definition w_left :: save_set where "w_left = ws [(''a'', CHR ''1''), (''b'', CHR ''0'')]"
definition w_right :: save_set where "w_right = ws [(''a'', CHR ''0''), (''b'', CHR ''1'')]"
definition w_clash :: save_set where "w_clash = ws [(''a'', CHR ''2''), (''b'', CHR ''0'')]"

lemmas w_defs = w_old_def w_left_def w_right_def w_clash_def ws_def

lemma w_sets: "hex_digest (hex64 (CHR ''a''))"
  "is_save_set w_left" "is_save_set w_right" "is_save_set w_old" "is_save_set w_clash"
  unfolding is_save_set_def bt_ok_def by code_simp+

lemma w_scope: "same_scope (hex64 (CHR ''a'')) w_left w_right w_old"
  "same_scope (hex64 (CHR ''a'')) w_left w_clash w_old"
  using w_sets by (simp_all add: same_scope_def) (simp_all add: w_defs)

definition w_merge :: decision where
  "w_merge = (case decide (hex64 (CHR ''a'')) (Some w_left) (Some w_right) (Some w_old) of
     Inr d \<Rightarrow> d | Inl _ \<Rightarrow> decision_new Blocked [])"

definition w_conflict :: decision where
  "w_conflict = (case decide (hex64 (CHR ''a'')) (Some w_left) (Some w_clash) (Some w_old) of
     Inr d \<Rightarrow> d | Inl _ \<Rightarrow> decision_new Blocked [])"

lemma w_decides:
  "decide (hex64 (CHR ''a'')) (Some w_left) (Some w_right) (Some w_old) = Inr w_merge"
  "decide (hex64 (CHR ''a'')) (Some w_left) (Some w_clash) (Some w_old) = Inr w_conflict"
  "target w_merge = Some (ws [(''a'', CHR ''1''), (''b'', CHR ''1'')])"
  "action w_merge = Merge" "action w_conflict = Conflict"
  by code_simp+

theorem decide_three_way_witness:
  "is_save_set (ws [(''a'', CHR ''1''), (''b'', CHR ''1'')]) \<and>
   merge3 (bt_get (digests w_left) ''b'') (bt_get (digests w_right) ''b'') (bt_get (digests w_old) ''b'')
     = Some (Some (hex64 (CHR ''1'')))"
proof -
  have "bt_get (digests (ws [(''a'', CHR ''1''), (''b'', CHR ''1'')])) ''b'' = Some (hex64 (CHR ''1''))"
    by (simp add: ws_def bt_get_def)
  with decide_three_way [OF w_scope(1) w_decides(1,3)] show ?thesis by auto
qed

theorem decide_conflict_iff_witness:
  "action w_conflict = Conflict \<and> target w_conflict = None \<and>
   (\<exists>n. diverged (digests w_left) (digests w_clash) (digests w_old) n)"
  using decide_conflict_iff [OF w_scope(2) w_decides(2)] w_decides(5) by blast

theorem decide_symmetric_witness:
  "\<exists>d'. decide (hex64 (CHR ''a'')) (Some w_right) (Some w_left) (Some w_old) = Inr d' \<and>
     target d' = Some (ws [(''a'', CHR ''1''), (''b'', CHR ''1'')]) \<and> action d' = Merge"
  using decide_symmetric [OF w_scope(1) w_decides(1)] w_decides(3,4)
  by (auto simp: swap_action_def)

theorem decide_needs_both_witness:
  "\<exists>d. decide (hex64 (CHR ''a'')) (Some w_left) None (Some w_old) = Inr d \<and> target d = None"
proof -
  have "is_save_set x" if "Some x \<in> {Some w_left, None, Some w_old}" for x
    using that w_sets by auto
  from decide_needs_both [OF w_sets(1) this] show ?thesis by force
qed

theorem decide_first_sync_witness:
  "\<exists>d. decide (hex64 (CHR ''a'')) (Some w_left) (Some w_right) None = Inr d \<and>
     action d = ImportCloud \<and> backup_required d"
proof -
  have "binding w_left = hex64 (CHR ''a'')" "binding w_right = hex64 (CHR ''a'')"
      "digests w_left \<noteq> digests w_right" "digests w_right \<noteq> []"
    by (simp_all add: w_defs hex64_def)
  with decide_first_sync [OF w_sets(1) this(1-3)] show ?thesis by auto
qed

end
