(* ===== verification/Progress.thy ===== *)
theory Progress
  imports Json
begin

text \<open>
  \<^verbatim>\<open>native/progress.rs\<close>: the bounded framing of transfer progress. A frame is one line of JSON of
  at most 1024 bytes. The tokenizer of \<^verbatim>\<open>serde_json\<close> is the parameter \<open>tok\<close>; what
  \<^verbatim>\<open>derive(Deserialize)\<close> makes of the tokens is \<open>frame_of_raw\<close>.
\<close>

section \<open>Transfers\<close>

abbreviation MAX_FRAME :: nat where "MAX_FRAME \<equiv> 1024"
abbreviation MAX_INTEGER :: nat where "MAX_INTEGER \<equiv> 9007199254740991"

datatype kind = Game | Components

record transfer =
  kind :: kind
  received_bytes :: u64
  verified_bytes :: u64
  total_bytes :: "u64 option"
  completed_files :: "u64 option"
  total_files :: "u64 option"

record frame =
  frame_format :: u32
  frame_received :: u64
  frame_verified :: u64
  frame_total :: "u64 option"
  frame_completed :: "u64 option"
  frame_files :: "u64 option"

definition transfer_valid :: "transfer \<Rightarrow> bool" where
  "transfer_valid t \<longleftrightarrow>
     list_all (\<lambda>m. case m of None \<Rightarrow> True | Some v \<Rightarrow> unat v \<le> MAX_INTEGER)
       [Some (received_bytes t), Some (verified_bytes t), total_bytes t, completed_files t, total_files t] \<and>
     verified_bytes t \<le> received_bytes t \<and>
     (case total_bytes t of None \<Rightarrow> True | Some v \<Rightarrow> v > 0 \<and> received_bytes t \<le> v) \<and>
     (case (completed_files t, total_files t) of
        (None, None) \<Rightarrow> True
      | (Some finished, Some n) \<Rightarrow> n > 0 \<and> finished \<le> n
      | _ \<Rightarrow> False)"

section \<open>Deserializing a frame\<close>

definition raw_u64 :: "raw \<Rightarrow> u64 option" where
  "raw_u64 r = (case r of RScalar v \<Rightarrow> map_option word_of_nat (as_u64 v) | _ \<Rightarrow> None)"

definition raw_u32 :: "raw \<Rightarrow> u32 option" where
  "raw_u32 r = (case r of
     RScalar v \<Rightarrow> (case as_u64 v of None \<Rightarrow> None
       | Some n \<Rightarrow> if n < 4294967296 then Some (word_of_nat n) else None)
   | _ \<Rightarrow> None)"

text \<open>An explicit null is an unknown total; a missing member is an error.\<close>

definition required_optional :: "raw \<Rightarrow> u64 option option" where
  "required_optional r = (if r = RScalar JNull then Some None else map_option Some (raw_u64 r))"

definition FRAME_FIELDS :: "string list" where
  "FRAME_FIELDS = [''format'', ''received_bytes'', ''verified_bytes'', ''total_bytes'',
     ''completed_files'', ''total_files'']"

definition frame_of_fields :: "raw list \<Rightarrow> frame option" where
  "frame_of_fields rs = (case rs of
     [f, r, v, t, c, n] \<Rightarrow>
       Option.bind (raw_u32 f) (\<lambda>f. Option.bind (raw_u64 r) (\<lambda>r. Option.bind (raw_u64 v) (\<lambda>v.
       Option.bind (required_optional t) (\<lambda>t. Option.bind (required_optional c) (\<lambda>c.
       Option.bind (required_optional n) (\<lambda>n.
         Some \<lparr>frame_format = f, frame_received = r, frame_verified = v, frame_total = t,
           frame_completed = c, frame_files = n\<rparr>))))))
   | _ \<Rightarrow> None)"

text \<open>An object has every field once and no other member; the derived visitor also takes an array
  of the six values in order.\<close>

definition frame_of_raw :: "raw \<Rightarrow> frame option" where
  "frame_of_raw r = (case r of
     RObj ms \<Rightarrow>
       if distinct (map fst ms) \<and> set (map fst ms) = set FRAME_FIELDS
       then frame_of_fields (map (\<lambda>k. the (map_of ms k)) FRAME_FIELDS) else None
   | RArr rs \<Rightarrow> frame_of_fields rs
   | RScalar _ \<Rightarrow> None)"

definition parse :: "(u8 list \<Rightarrow> raw option) \<Rightarrow> u8 list \<Rightarrow> transfer option" where
  "parse tok b = Option.bind (Option.bind (tok b) frame_of_raw) (\<lambda>f.
     if frame_format f \<noteq> 1 then None
     else (let t = \<lparr>kind = Game, received_bytes = frame_received f,
             verified_bytes = frame_verified f, total_bytes = frame_total f,
             completed_files = frame_completed f, total_files = frame_files f\<rparr>
           in if transfer_valid t then Some t else None))"

section \<open>The decoder\<close>

record decoder =
  buffer :: "u8 list"
  discarding :: bool
  pending :: "transfer option option"

definition decoder_default :: decoder where
  "decoder_default = \<lparr>buffer = [], discarding = False, pending = None\<rparr>"

definition push_byte :: "u8 \<Rightarrow> decoder \<Rightarrow> decoder" where
  "push_byte b d =
     (if discarding d then d
      else if length (buffer d) = MAX_FRAME then
        d\<lparr>buffer := [], discarding := True, pending := Some None\<rparr>
      else d\<lparr>buffer := buffer d @ [b]\<rparr>)"

definition end_line :: "(u8 list \<Rightarrow> raw option) \<Rightarrow> decoder \<Rightarrow> decoder" where
  "end_line tok d =
     (if discarding d then d else d\<lparr>pending := Some (parse tok (buffer d))\<rparr>)\<lparr>
        buffer := [], discarding := False\<rparr>"

definition consume_byte :: "(u8 list \<Rightarrow> raw option) \<Rightarrow> u8 \<Rightarrow> decoder \<Rightarrow> decoder" where
  "consume_byte tok b d =
     (let d = push_byte b d in if b = 10 then end_line tok d else d)"

definition consume :: "(u8 list \<Rightarrow> raw option) \<Rightarrow> u8 list \<Rightarrow> decoder \<Rightarrow> decoder" where
  "consume tok bs d = fold (consume_byte tok) bs d"

definition take_pending :: "decoder \<Rightarrow> transfer option option \<times> decoder" where
  "take_pending d = (pending d, d\<lparr>pending := None\<rparr>)"

section \<open>The line specification\<close>

text \<open>A stream is its terminated lines and an unterminated rest. Every line gives one report, \<open>None\<close>
  for a line that is too long or does not parse; an overlong rest is reported before it ends.\<close>

definition line_step :: "u8 \<Rightarrow> u8 list list \<times> u8 list \<Rightarrow> u8 list list \<times> u8 list" where
  "line_step b = (\<lambda>(ls, rest). if b = 10 then (ls @ [rest], []) else (ls, rest @ [b]))"

definition stream_lines :: "u8 list \<Rightarrow> u8 list list \<times> u8 list" where
  "stream_lines bs = fold line_step bs ([], [])"

definition line_report :: "(u8 list \<Rightarrow> raw option) \<Rightarrow> u8 list \<Rightarrow> transfer option" where
  "line_report tok l = (if length l < MAX_FRAME then parse tok (l @ [10]) else None)"

definition reports :: "(u8 list \<Rightarrow> raw option) \<Rightarrow> u8 list \<Rightarrow> transfer option list" where
  "reports tok bs = (case stream_lines bs of (ls, rest) \<Rightarrow>
     map (line_report tok) ls @ (if MAX_FRAME < length rest then [None] else []))"

definition newest :: "'a list \<Rightarrow> 'a option" where
  "newest xs = (if xs = [] then None else Some (last xs))"

lemma stream_lines_snoc: "stream_lines (bs @ [b]) = line_step b (stream_lines bs)"
  by (simp add: stream_lines_def)

lemma consume_append: "consume tok (a @ b) d = consume tok b (consume tok a d)"
  by (simp add: consume_def)

lemma newest_snoc [simp]: "newest (xs @ [x]) = Some x"
  by (simp add: newest_def)

text \<open>The decoder as the function of the bytes it has seen.\<close>

definition seen_state :: "(u8 list \<Rightarrow> raw option) \<Rightarrow> u8 list \<Rightarrow> decoder" where
  "seen_state tok bs =
     (let rest = snd (stream_lines bs) in
      \<lparr>buffer = (if MAX_FRAME < length rest then [] else rest),
       discarding = MAX_FRAME < length rest, pending = newest (reports tok bs)\<rparr>)"

lemma seen_state_step: "consume_byte tok b (seen_state tok bs) = seen_state tok (bs @ [b])"
proof -
  obtain ls rest where sl: "stream_lines bs = (ls, rest)"
    by (cases "stream_lines bs")
  consider (long) "MAX_FRAME < length rest" | (full) "length rest = MAX_FRAME"
    | (short) "length rest < MAX_FRAME"
    by linarith
  then show ?thesis
  proof cases
    case long
    then show ?thesis
      by (simp add: seen_state_def reports_def stream_lines_snoc sl line_step_def consume_byte_def
          push_byte_def end_line_def line_report_def newest_snoc [symmetric] del: newest_snoc)
  next
    case full
    then show ?thesis
      by (simp add: seen_state_def reports_def stream_lines_snoc sl line_step_def consume_byte_def
          push_byte_def end_line_def line_report_def)
  next
    case short
    then show ?thesis
      by (simp add: seen_state_def reports_def stream_lines_snoc sl line_step_def consume_byte_def
          push_byte_def end_line_def line_report_def)
  qed
qed

lemma consume_seen: "consume tok bs (seen_state tok as) = seen_state tok (as @ bs)"
proof (induction bs arbitrary: as)
  case (Cons b bs)
  from Cons [of "as @ [b]"] show ?case
    by (simp add: consume_def seen_state_step)
qed (simp add: consume_def)

lemma seen_state_Nil: "seen_state tok [] = decoder_default"
  by (simp add: seen_state_def stream_lines_def reports_def newest_def decoder_default_def)

lemma parse_valid: "parse tok b = Some t \<Longrightarrow> transfer_valid t \<and> kind t = Game"
  by (auto simp: parse_def Let_def bind_eq_Some_conv split: if_splits)

lemma reports_valid: "Some t \<in> set (reports tok bs) \<Longrightarrow> transfer_valid t \<and> kind t = Game"
  by (auto simp: reports_def line_report_def split: prod.splits if_splits dest!: sym [of "Some t"] parse_valid)

section \<open>Properties\<close>

text \<open>C8. The decoder implements the line specification for every stream, however it was cut into
  chunks: the pending report is the report of the newest finished or overlong line, and the retained
  bytes never exceed the frame limit.\<close>

theorem consume_reports:
  "pending (fold (consume tok) chunks decoder_default) = newest (reports tok (concat chunks)) \<and>
   length (buffer (fold (consume tok) chunks decoder_default)) \<le> MAX_FRAME"
proof -
  have "fold (consume tok) chunks (seen_state tok bs) = seen_state tok (bs @ concat chunks)" for bs
    by (induction chunks arbitrary: bs) (simp_all add: consume_seen)
  from this [of "[]"] show ?thesis
    by (simp add: seen_state_Nil) (simp add: seen_state_def Let_def)
qed

lemma stream_lines_end: "10 \<notin> set l \<Longrightarrow>
    stream_lines (g @ [10] @ l) = (fst (stream_lines g) @ [snd (stream_lines g)], l)"
proof (induction l rule: rev_induct)
  case Nil
  then show ?case by (cases "stream_lines g") (simp add: stream_lines_snoc line_step_def)
next
  case (snoc b l)
  then have "stream_lines (g @ [10] @ l) = (fst (stream_lines g) @ [snd (stream_lines g)], l)"
    by simp
  with snoc.prems show ?case
    using stream_lines_snoc [of "g @ [10] @ l" b] by (auto simp: line_step_def)
qed

text \<open>After any garbage the first line end resynchronizes the decoder: the next line is reported
  as it parses, and whatever is reported is a consistent transfer of the game.\<close>

theorem consume_resync:
  assumes "10 \<notin> set l" "length l < MAX_FRAME"
  shows "pending (consume tok (garbage @ [10] @ l @ [10]) decoder_default) = Some (parse tok (l @ [10])) \<and>
    (\<forall>t. parse tok (l @ [10]) = Some t \<longrightarrow> kind t = Game \<and>
       verified_bytes t \<le> received_bytes t \<and> unat (received_bytes t) \<le> MAX_INTEGER \<and>
       (\<forall>n. total_bytes t = Some n \<longrightarrow> received_bytes t \<le> n) \<and>
       (completed_files t = None \<longleftrightarrow> total_files t = None))"
proof -
  have "stream_lines ((garbage @ [10] @ l) @ [10]) =
      (fst (stream_lines garbage) @ [snd (stream_lines garbage), l], [])"
    unfolding stream_lines_snoc stream_lines_end [OF assms(1)] by (simp add: line_step_def)
  then have "newest (reports tok (garbage @ [10] @ l @ [10])) = Some (parse tok (l @ [10]))"
    using assms(2) by (simp add: reports_def line_report_def newest_def)
  moreover have "pending (consume tok bs decoder_default) = newest (reports tok bs)" for bs
    using consume_seen [of tok bs "[]"] by (simp add: seen_state_Nil) (simp add: seen_state_def Let_def)
  moreover have "kind t = Game \<and> verified_bytes t \<le> received_bytes t \<and>
       unat (received_bytes t) \<le> MAX_INTEGER \<and>
       (\<forall>n. total_bytes t = Some n \<longrightarrow> received_bytes t \<le> n) \<and>
       (completed_files t = None \<longleftrightarrow> total_files t = None)"
    if "parse tok (l @ [10]) = Some t" for t
    using parse_valid [OF that] by (auto simp: transfer_valid_def split: option.splits)
  ultimately show ?thesis by simp
qed

text \<open>A tokenizer that knows one frame, for the witness.\<close>

definition w_frame :: "raw" where
  "w_frame = RArr [RScalar (jnum 1), RScalar (jnum 40), RScalar (jnum 20), RScalar (jnum 100),
     RScalar (jnum 1), RScalar (jnum 3)]"

definition w_tok :: "u8 list \<Rightarrow> raw option" where
  "w_tok b = (if b = [123, 10] then Some w_frame else None)"

theorem consume_resync_witness:
  "map_option (map_option received_bytes)
     (pending (consume w_tok ([120, 120] @ [10] @ [123] @ [10]) decoder_default)) = Some (Some 40)"
proof -
  have "parse w_tok ([123] @ [10]) = Some \<lparr>kind = Game, received_bytes = 40, verified_bytes = 20,
      total_bytes = Some 100, completed_files = Some 1, total_files = Some 3\<rparr>"
    by code_simp
  then show ?thesis
    using consume_resync [of "[123]" w_tok "[120, 120]"] by simp
qed

end
