(* ===== verification/UiState.thy ===== *)
theory UiState
  imports Errors
begin

text \<open>
  The state the native user interface decides from, \<^verbatim>\<open>native/ui/src/model.rs\<close>: the last answers of
  the service (\<^verbatim>\<open>snapshot\<close>), the forms, and the predicates on them that guard every request.
\<close>

section \<open>Reading answers\<close>

definition s :: "json \<Rightarrow> string \<Rightarrow> string" where
  "s v key = (case as_str (jget v key) of None \<Rightarrow> [] | Some t \<Rightarrow> t)"

definition yes :: "json \<Rightarrow> string \<Rightarrow> bool" where
  "yes v key \<longleftrightarrow> as_bool (jget v key) = Some True"

text \<open>The comparison \<^verbatim>\<open>v[key] == "text"\<close>.\<close>

definition has_text :: "json \<Rightarrow> string \<Rightarrow> string \<Rightarrow> bool" where
  "has_text v key t \<longleftrightarrow> as_str (jget v key) = Some t"

definition active :: "json \<Rightarrow> bool" where
  "active v \<longleftrightarrow> s v ''state'' \<in> {''running'', ''checking'', ''installing'', ''preparing''}"

definition number :: "json \<Rightarrow> nat" where
  "number v = (case as_u64 v of None \<Rightarrow> 0 | Some n \<Rightarrow> n)"

text \<open>\<^verbatim>\<open>str::trim\<close>: the UTF-8 encodings of the characters with the Unicode property White_Space.\<close>

definition white_space :: "string list" where
  "white_space = map (\<lambda>n. [char_of n]) ([9, 10, 11, 12, 13, 32] :: nat list) @
     [[CHR 0xC2, CHR 0x85], [CHR 0xC2, CHR 0xA0], [CHR 0xE1, CHR 0x9A, CHR 0x80]] @
     map (\<lambda>n. [CHR 0xE2, CHR 0x80, char_of n])
       ([128, 129, 130, 131, 132, 133, 134, 135, 136, 137, 138, 168, 169, 175] :: nat list) @
     [[CHR 0xE2, CHR 0x81, CHR 0x9F], [CHR 0xE3, CHR 0x80, CHR 0x80]]"

fun trim_start_fuel :: "nat \<Rightarrow> string \<Rightarrow> string" where
  "trim_start_fuel 0 t = t"
| "trim_start_fuel (Suc n) t =
     (case find (\<lambda>w. prefix w t) white_space of None \<Rightarrow> t
      | Some w \<Rightarrow> trim_start_fuel n (drop (length w) t))"

fun trim_end_fuel :: "nat \<Rightarrow> string \<Rightarrow> string" where
  "trim_end_fuel 0 t = t"
| "trim_end_fuel (Suc n) t =
     (case find (\<lambda>w. suffix w t) white_space of None \<Rightarrow> t
      | Some w \<Rightarrow> trim_end_fuel n (take (length t - length w) t))"

definition trim :: "string \<Rightarrow> string" where
  "trim t = (let u = trim_start_fuel (length t) t in trim_end_fuel (length u) u)"

text \<open>\<^verbatim>\<open>chars().count()\<close>: the bytes that do not continue a character.\<close>

definition chars_count :: "string \<Rightarrow> nat" where
  "chars_count t = length (filter (\<lambda>c. \<not> (128 \<le> ord c \<and> ord c \<le> 191)) t)"

text \<open>A white space has at least one byte, so the length is enough fuel: nothing is left to trim.\<close>

lemma white_space_nonempty: "w \<in> set white_space \<Longrightarrow> w \<noteq> []"
  by (auto simp: white_space_def)

lemma trim_start_complete: "length t \<le> n \<Longrightarrow> w \<in> set white_space \<Longrightarrow> \<not> prefix w (trim_start_fuel n t)"
proof (induction n t rule: trim_start_fuel.induct)
  case (1 t)
  then show ?case using white_space_nonempty by auto
next
  case (2 n t)
  show ?case
  proof (cases "find (\<lambda>w. prefix w t) white_space")
    case None
    then have "\<not> prefix w t"
      using "2.prems"(2) by (auto simp: find_None_iff)
    with None show ?thesis by simp
  next
    case (Some v)
    then have "v \<in> set white_space" "prefix v t"
      by (auto simp: find_Some_iff)
    then have "0 < length v"
      using white_space_nonempty by simp
    with "2.prems"(1) have "length (drop (length v) t) \<le> n"
      unfolding length_drop by linarith
    with 2 Some show ?thesis by simp
  qed
qed

section \<open>Actions, forms and the application\<close>

datatype edition = Msfs2024 | Msfs2020

definition edition_id :: "edition \<Rightarrow> string" where
  "edition_id e = (case e of Msfs2024 \<Rightarrow> ''msfs2024'' | Msfs2020 \<Rightarrow> ''msfs2020'')"

datatype action =
    Preferences string
  | Launch
  | Stop
  | Select edition
  | SelectInstallation string
  | SteamOpen
  | AddSteamRoot
  | XboxSetup
  | Backup
  | Graphics
  | VrSave
  | VrCheck
  | SetupCheck
  | SetupStart
  | SetupControl string
  | Pick string
  | Game string
  | Launcher string
  | Cloud string
  | Automatic string
  | Fenix string
  | FenixPick string
  | Gsx string
  | Navigraph string
  | NavigraphPick string
  | Orbx string
  | Mobiflight string
  | Proton
  | ProtonDefault
  | ProtonCancel
  | Maintenance string
  | MaintenanceStart
  | MaintenanceDiscard
  | ModsOpen
  | ModsPreview string
  | ModsRemove
  | ModsDiscard
  | Store string
  | Report
  | ReportDiscard
  | Startup

record forms =
  texts :: "(string, string) btree"
  flags :: "(string, bool) btree"

definition forms_default :: forms where
  "forms_default = \<lparr>
     texts = bt_of_list [(''mode'', ''install''), (''game_id'', ''msfs2024''), (''graphics'', ''auto''),
       (''vr'', ''off''), (''proton'', ''default''), (''steam_client'', ''native''),
       (''category'', ''installation'')],
     flags = bt_of_list [(''keep_data'', True)]\<rparr>"

definition get :: "forms \<Rightarrow> string \<Rightarrow> string" where
  "get f key = (case bt_get (texts f) key of None \<Rightarrow> [] | Some t \<Rightarrow> t)"

definition flag :: "forms \<Rightarrow> string \<Rightarrow> bool" where
  "flag f key = (case bt_get (flags f) key of None \<Rightarrow> False | Some b \<Rightarrow> b)"

text \<open>The fields of \<^verbatim>\<open>App\<close> that requests depend on; instants are nanoseconds.\<close>

record app =
  snapshot :: "(string, json) btree"
  forms :: forms
  online :: bool
  pending :: bool
  discoveries :: "(string, json) btree"
  restarting :: bool
  startup_checked :: bool
  startup_attempt :: "nat option"
  startup_inflight :: "u64 option"
  startup_retry :: bool

definition data :: "app \<Rightarrow> string \<Rightarrow> json" where
  "data a key = (case bt_get (snapshot a) key of None \<Rightarrow> JNull | Some v \<Rightarrow> v)"

definition status :: "app \<Rightarrow> json" where
  "status a = data a ''status''"

definition runtime :: "app \<Rightarrow> string" where
  "runtime a = s (jget (status a) ''runtime'') ''path''"

definition fresh :: "app \<Rightarrow> string \<Rightarrow> bool" where
  "fresh a key \<longleftrightarrow> online a \<and> bt_has (snapshot a) key \<and> jget (data a key) ''_error'' = JNull"

definition stopped :: "app \<Rightarrow> bool" where
  "stopped a \<longleftrightarrow> has_text (jget (status a) ''game'') ''state'' ''stopped''"

definition reserved :: "app \<Rightarrow> bool" where
  "reserved a \<longleftrightarrow>
     yes (jget (status a) ''setup'') ''busy'' \<or>
     has_text (jget (data a ''setup'') ''job'') ''state'' ''ready'' \<and>
       \<not> has_text (jget (data a ''setup'') ''job'') ''mode'' ''update'' \<or>
     active (jget (data a ''launcher-update'') ''job'') \<and>
       \<not> has_text (jget (data a ''launcher-update'') ''job'') ''operation'' ''check''"

definition idle :: "app \<Rightarrow> bool" where
  "idle a \<longleftrightarrow> online a \<and> \<not> pending a \<and> stopped a \<and> \<not> reserved a"

definition automatic_busy :: "app \<Rightarrow> bool" where
  "automatic_busy a \<longleftrightarrow>
     s (jget (status a) ''cloud'') ''state'' \<in> {''syncing'', ''playing'', ''attention''}"

definition is_steam :: "app \<Rightarrow> bool" where
  "is_steam a \<longleftrightarrow> has_text (jget (status a) ''runtime'') ''source'' ''steam''"

definition startup_due :: "app \<Rightarrow> nat \<Rightarrow> bool" where
  "startup_due a now \<longleftrightarrow>
     \<not> restarting a \<and> startup_inflight a = None \<and>
     (\<not> startup_checked a \<or>
      (case startup_attempt a of None \<Rightarrow> False
       | Some attempt \<Rightarrow> (if startup_retry a then 30 else 300) * 1000000000 \<le> now - attempt))"

text \<open>A cloud transfer or a session that holds the saves; the guards write it out each time.\<close>

definition cloud_active :: "app \<Rightarrow> bool" where
  "cloud_active a \<longleftrightarrow> s (jget (status a) ''cloud'') ''state'' \<in> {''syncing'', ''playing''}"

definition safe_idle :: "app \<Rightarrow> bool" where
  "safe_idle a \<longleftrightarrow> idle a \<and> \<not> automatic_busy a"

definition configured :: "app \<Rightarrow> bool" where
  "configured a \<longleftrightarrow> yes (jget (status a) ''runtime'') ''configured''"

end
