(* ===== verification/UiRequest.thy ===== *)
theory UiRequest
  imports UiState
begin

text \<open>
  \<^verbatim>\<open>App::request\<close> of \<^verbatim>\<open>native/ui/src/model.rs\<close>: which request an action of the user becomes, and
  when it may be sent at all. Each arm of the source's \<^verbatim>\<open>match\<close> is a definition that gives the path,
  the guard, the body and the confirmation text; \<open>None\<close> is the early return.
  \<^verbatim>\<open>str::to_uppercase\<close> (a table of Unicode) is the parameter \<open>upper\<close>.
\<close>

record request =
  path :: string
  body :: json
  request_runtime :: string
  confirmation :: "string option"

type_synonym gate = "(string \<times> bool \<times> json \<times> string option) option"

definition no_body :: json where
  "no_body = JObj []"

section \<open>Installation and session\<close>

definition preferences_gate :: "string \<Rightarrow> gate" where
  "preferences_gate language =
     Some (''preferences'', language \<in> {''de'', ''en''}, JObj [(''language'', JStr language)], None)"

definition select_installation_gate :: "app \<Rightarrow> string \<Rightarrow> gate" where
  "select_installation_gate a i =
     (let d = data a ''installations'' in
      case as_array (jget d ''installations'') of None \<Rightarrow> None
      | Some items \<Rightarrow> (case find (\<lambda>v. s v ''id'' = i) items of None \<Rightarrow> None
        | Some item \<Rightarrow>
            Some (''installations/select'',
              idle a \<and> fresh a ''installations'' \<and> yes d ''can_select'' \<and> yes item ''available'',
              JObj [(''installation_id'', JStr i), (''binding'', jget item ''context'')], None)))"

definition xbox_setup_gate :: "app \<Rightarrow> gate" where
  "xbox_setup_gate a = Some (''installations/xbox-setup'', safe_idle a, no_body, None)"

definition steam_open_gate :: "app \<Rightarrow> gate" where
  "steam_open_gate a = Some (''steam/open'', is_steam a \<and> \<not> reserved a, no_body, None)"

definition add_steam_root_gate :: "app \<Rightarrow> gate" where
  "add_steam_root_gate a =
     Some (''installations/add-steam-root'',
       safe_idle a \<and> trim (get (forms a) ''steam_root'') \<noteq> [],
       JObj [(''steam_root'', JStr (get (forms a) ''steam_root'')),
             (''client'', JStr (get (forms a) ''steam_client''))], None)"

definition launch_gate :: "app \<Rightarrow> gate" where
  "launch_gate a =
     Some (''launch'',
       safe_idle a \<and> configured a \<and> yes (jget (status a) ''runtime'') ''ready'' \<and>
       yes (jget (status a) ''game'') ''can_start'', no_body, None)"

definition stop_gate :: "app \<Rightarrow> gate" where
  "stop_gate a =
     Some (''stop'',
       (yes (jget (status a) ''game'') ''managed'' \<or> is_steam a) \<and>
       yes (jget (status a) ''game'') ''can_stop'', no_body, None)"

definition select_gate :: "app \<Rightarrow> edition \<Rightarrow> gate" where
  "select_gate a e =
     Some (''game/select'', idle a \<and> \<not> cloud_active a, JObj [(''game_id'', JStr (edition_id e))], None)"

definition backup_gate :: "app \<Rightarrow> gate" where
  "backup_gate a =
     Some (''saves/backup'', safe_idle a \<and> yes (jget (status a) ''saves'') ''can_backup'', no_body, None)"

definition graphics_gate :: "app \<Rightarrow> gate" where
  "graphics_gate a =
     Some (''graphics'',
       idle a \<and> configured a \<and> yes (jget (status a) ''graphics'') ''available'' \<and> \<not> cloud_active a,
       JObj [(''runtime_path'', JStr (runtime a)),
             (''nvidia_mode'', JStr (get (forms a) ''graphics''))], None)"

definition vr_gate :: "app \<Rightarrow> bool \<Rightarrow> gate" where
  "vr_gate a check =
     Some ((if check then ''vr/check'' else ''vr/configure''),
       idle a \<and> configured a \<and> yes (jget (status a) ''vr'') ''available'' \<and> \<not> cloud_active a \<and>
       (\<not> check \<or> \<not> has_text (jget (status a) ''vr'') ''mode'' ''off''),
       JObj [(''runtime_path'', JStr (runtime a)), (''mode'', JStr (get (forms a) ''vr''))], None)"

section \<open>Setup\<close>

definition PATH_FIELDS :: "string list" where
  "PATH_FIELDS = [''runtime_path'', ''destination_path'', ''artifacts_path'', ''game_path'',
     ''runner_path'', ''prefix_path'', ''media_plugins_path'']"

definition setup_check_body :: "(string \<Rightarrow> string) \<Rightarrow> forms \<Rightarrow> json" where
  "setup_check_body upper f =
     fold (\<lambda>key b. if trim (get f key) \<noteq> [] then jset key (JStr (trim (get f key))) b else b)
       PATH_FIELDS
       (JObj [(''mode'', JStr (get f ''mode'')), (''game_id'', JStr (get f ''game_id'')),
              (''market'', JStr (upper (get f ''market''))), (''local_saves'', JBool True)])"

definition setup_check_gate :: "(string \<Rightarrow> string) \<Rightarrow> app \<Rightarrow> gate" where
  "setup_check_gate upper a =
     (let mode = get (forms a) ''mode'';
          available = (if mode = ''existing'' then yes (data a ''setup'') ''available''
            else if mode = ''install'' then yes (data a ''setup'') ''install_available''
            else if mode = ''prepare'' then yes (data a ''setup'') ''prepare_available''
            else False)
      in Some (''setup/check'', fresh a ''setup'' \<and> safe_idle a \<and> available,
           setup_check_body upper (forms a), None))"

definition setup_start_gate :: "app \<Rightarrow> gate" where
  "setup_start_gate a =
     (let job = jget (data a ''setup'') ''job'' in
      Some (''setup/start'',
        fresh a ''setup'' \<and> stopped a \<and> has_text job ''state'' ''ready'' \<and>
        \<not> has_text job ''mode'' ''update'' \<and> s job ''id'' \<noteq> [] \<and> \<not> automatic_busy a,
        JObj [(''check_id'', jget job ''id'')], None))"

definition setup_control_gate :: "app \<Rightarrow> string \<Rightarrow> gate" where
  "setup_control_gate a p =
     (let job = jget (data a ''setup'') ''job''; b = JObj [(''job_id'', jget job ''id'')] in
      if p = ''pause'' then
        Some (''setup/pause'', fresh a ''setup'' \<and> has_text job ''state'' ''installing'' \<and>
          has_text job ''phase'' ''download'' \<and> yes job ''can_pause'', b, None)
      else if p = ''resume'' then
        Some (''setup/resume'', fresh a ''setup'' \<and> has_text job ''phase'' ''paused'' \<and>
          yes job ''can_resume'', b, None)
      else if p = ''retry'' then
        Some (''setup/retry'', fresh a ''setup'' \<and> stopped a \<and> has_text job ''state'' ''failed'' \<and>
          has_text job ''phase'' ''download_failed'' \<and> yes job ''can_retry'', b, None)
      else if p = ''cancel'' then
        Some (''setup/cancel'', fresh a ''setup'' \<and>
          (active job \<or> has_text job ''state'' ''ready'' \<or> yes job ''can_retry'') \<and>
          s job ''id'' \<noteq> [], b, None)
      else None)"

definition pick_gate :: "app \<Rightarrow> string \<Rightarrow> gate" where
  "pick_gate a field =
     (if field \<in> set (PATH_FIELDS @ [''proton_path'']) then
        Some (''setup/pick'',
          safe_idle a \<and> fresh a ''setup'' \<and> yes (data a ''setup'') ''directory_picker'',
          JObj [(''field'', JStr (if field = ''proton_path'' then ''runner_path'' else field)),
                (''initial'', JStr (get (forms a) field))], None)
      else None)"

section \<open>Updates of the game and of the launcher\<close>

definition game_gate :: "app \<Rightarrow> string \<Rightarrow> gate" where
  "game_gate a p =
     (let d = data a ''game-update''; job = jget d ''job'';
          ready = fresh a ''game-update'' \<and> configured a \<and> stopped a \<and> \<not> automatic_busy a in
      if p = ''check'' then
        Some (''game-update/check'',
          ready \<and> idle a \<and> yes d ''can_check'' \<and> \<not> yes d ''auth_required'', no_body, None)
      else if p = ''sign-in'' then
        Some ((if has_text job ''operation'' ''repair'' then ''game-update/repair/check''
               else ''game-update/check''),
          ready \<and> idle a \<and> yes d ''auth_required'', JObj [(''sign_in'', JBool True)], None)
      else if p = ''repair'' then
        Some (''game-update/repair/check'', ready \<and> idle a \<and> yes d ''can_repair'', no_body, None)
      else if p = ''verify'' then
        Some (''game-update/verify'',
          ready \<and> idle a \<and> yes (jget d ''integrity'') ''can_check'', no_body, None)
      else if p = ''start'' then
        Some (''game-update/start'',
          ready \<and> has_text job ''state'' ''ready'' \<and> yes d ''can_start'' \<and> s job ''id'' \<noteq> [],
          JObj [(''check_id'', jget job ''id'')], None)
      else if p = ''rollback'' then
        Some (''game-update/rollback'', ready \<and> idle a \<and> yes d ''can_rollback'', no_body,
          Some (''Zur vorherigen Spielversion zur'' @ u_uml @
            ''ckkehren? Die aktuelle Version bleibt als Sicherung erhalten.''))
      else None)"

definition launcher_gate :: "app \<Rightarrow> string \<Rightarrow> gate" where
  "launcher_gate a p =
     (let d = data a ''launcher-update'' in
      if \<not> fresh a ''launcher-update'' then None
      else if p = ''check'' then Some (''launcher-update/check'', yes d ''can_check'', no_body, None)
      else if p = ''install'' then
        Some (''launcher-update/install'',
          safe_idle a \<and> yes d ''can_install'' \<and> s d ''check_id'' \<noteq> [],
          JObj [(''check_id'', jget d ''check_id'')], None)
      else if p = ''cancel'' then
        Some (''launcher-update/cancel'', yes (jget d ''job'') ''can_cancel'',
          JObj [(''job_id'', jget (jget d ''job'') ''id'')], None)
      else if p = ''restart'' then
        Some (''launcher-update/restart'', safe_idle a \<and> yes d ''can_restart'', no_body, None)
      else if p = ''rollback'' then
        Some (''launcher-update/rollback'', safe_idle a \<and> yes d ''can_rollback'', no_body,
          Some (''Zur vorherigen Flightdeck-Version zur'' @ u_uml @ ''ckkehren?''))
      else None)"

section \<open>Add-ons\<close>

definition addon_enabled :: "app \<Rightarrow> string \<Rightarrow> bool" where
  "addon_enabled a key \<longleftrightarrow> fresh a key \<and> s (data a key) ''runtime_path'' = runtime a"

text \<open>The profile token travels with the request when the service named one.\<close>

definition addon_body :: "app \<Rightarrow> string \<Rightarrow> json" where
  "addon_body a key =
     (let b = JObj [(''runtime_path'', JStr (runtime a))] in
      case as_str (jget (data a key) ''profile_token'') of None \<Rightarrow> b
      | Some token \<Rightarrow> jset ''profile_token'' (JStr token) b)"

definition tool_change :: "app \<Rightarrow> string \<Rightarrow> string \<Rightarrow> bool" where
  "tool_change a key p \<longleftrightarrow>
     addon_enabled a key \<and> safe_idle a \<and> yes (data a key) ''can_change'' \<and>
     \<not> (is_steam a \<and> yes (data a key) ''steam_running'' \<and>
        p \<in> {''install'', ''configure'', ''restore'', ''installer'', ''select'', ''repair''})"

definition fenix_gate :: "app \<Rightarrow> string \<Rightarrow> gate" where
  "fenix_gate a p =
     (let d = data a ''fenix''; enabled = addon_enabled a ''fenix''; change = tool_change a ''fenix'' p;
          b = addon_body a ''fenix'';
          present = yes d ''installed'' \<or> has_text d ''state'' ''legacy'' in
      if p = ''cancel'' \<and> is_steam a then
        Some (''fenix/cancel'', enabled \<and> yes d ''can_cancel'' \<and> active (jget d ''job''),
          jset ''job_id'' (jget (jget d ''job'') ''id'') b, None)
      else if p = ''select'' then
        Some (''fenix/select'', is_steam a \<and> change \<and> yes d ''installed'' \<and>
          as_bool (jget d ''tool_selected'') \<noteq> Some True, b, None)
      else if p = ''migrate'' then
        Some (''fenix/migrate'', change \<and> has_text d ''state'' ''legacy'' \<and>
          yes d ''migration_required'', b, None)
      else if p = ''check-update'' then
        Some (''fenix/check-update'', enabled \<and> yes d ''can_check_updates'', b, None)
      else if p = ''install'' then
        Some (''fenix/install'', change \<and> (has_text d ''state'' ''available'' \<or> yes d ''can_retry'' \<or>
          yes d ''update_available''),
          jset ''bundle_path'' (JStr (get (forms a) ''bundle_path'')) b, None)
      else if p = ''installer'' then
        Some (''fenix/installer'', change \<and> yes d ''installed'' \<and>
          trim (get (forms a) ''installer_path'') \<noteq> [],
          jset ''installer_path'' (JStr (get (forms a) ''installer_path'')) b, None)
      else if p = ''open'' then
        Some (''fenix/open'', change \<and> yes d ''fenix_installed'' \<and> present, b, None)
      else if p = ''manager'' then
        Some (''fenix/manager'', change \<and> yes d ''manager_installed'' \<and> present, b, None)
      else if p = ''repair'' then
        Some (''fenix/repair'', change \<and> yes d ''can_repair_installer'' \<and>
          yes d ''manager_installed'' \<and> present, b, None)
      else if p = ''configure'' then
        Some (''fenix/configure'', change \<and> yes d ''installed'' \<and> yes d ''fenix_installed'' \<and>
          yes d ''settings_ready'', b, None)
      else if p = ''restore'' then
        Some (''fenix/restore'', change \<and> yes d ''can_restore'', b,
          Some (''Runner und Windows-Profil auf den Stand vor dem Fenix-Patch zur'' @ u_uml @
            ''cksetzen? Das aktuelle Profil bleibt als Sicherung erhalten.''))
      else if p = ''stop'' then Some (''fenix/stop'', enabled \<and> yes d ''can_stop'', b, None)
      else None)"

definition gsx_gate :: "app \<Rightarrow> string \<Rightarrow> gate" where
  "gsx_gate a p =
     (let d = data a ''gsx''; enabled = addon_enabled a ''gsx''; change = tool_change a ''gsx'' p;
          b = addon_body a ''gsx'' in
      if p = ''prepare'' then
        Some (''gsx/prepare'', change \<and> has_text d ''state'' ''available'', b, None)
      else if p = ''repair-engine'' then
        Some (''gsx/repair-engine'', change \<and> yes d ''can_repair_engine'', b, None)
      else if p = ''open'' then
        Some (''gsx/open'', change \<and> has_text d ''state'' ''available'' \<and> yes d ''prepared'', b, None)
      else if p = ''configure'' then
        Some (''gsx/configure'', change \<and> yes d ''prepared'' \<and> yes d ''package_installed'' \<and>
          yes d ''engine_ready'' \<and> yes d ''startup_found'', b, None)
      else if p = ''disable'' then Some (''gsx/disable'', change \<and> yes d ''configured'', b, None)
      else if p = ''recover'' then
        Some (''gsx/recover'', change \<and> yes d ''can_recover'', b,
          Some ''Das Windows-Profil vor der GSX-Einrichtung wiederherstellen?'')
      else if p = ''stop'' then Some (''gsx/stop'', enabled \<and> yes d ''can_stop'', b, None)
      else None)"

definition addon_change :: "app \<Rightarrow> string \<Rightarrow> bool" where
  "addon_change a key \<longleftrightarrow>
     addon_enabled a key \<and> safe_idle a \<and> yes (data a key) ''can_change'' \<and>
     has_text (data a key) ''state'' ''available''"

definition navigraph_gate :: "app \<Rightarrow> string \<Rightarrow> gate" where
  "navigraph_gate a p =
     (let d = data a ''navigraph''; enabled = addon_enabled a ''navigraph'';
          change = addon_change a ''navigraph''; hub = yes d ''hub_installed'';
          simlink = yes d ''simlink_installed''; b = addon_body a ''navigraph'' in
      if p = ''install-hub'' then
        Some (''navigraph/install-hub'',
          change \<and> trim (get (forms a) ''navigraph_hub_installer_path'') \<noteq> [],
          jset ''installer_path'' (JStr (get (forms a) ''navigraph_hub_installer_path'')) b, None)
      else if p = ''open-hub'' then Some (''navigraph/open-hub'', change \<and> hub, b, None)
      else if p = ''install-simlink'' then
        Some (''navigraph/install-simlink'',
          change \<and> trim (get (forms a) ''navigraph_simlink_installer_path'') \<noteq> [],
          jset ''installer_path'' (JStr (get (forms a) ''navigraph_simlink_installer_path'')) b, None)
      else if p = ''open-simlink'' then Some (''navigraph/open-simlink'', change \<and> simlink, b, None)
      else if p = ''configure'' then
        Some (''navigraph/configure'', change \<and> simlink \<and> yes d ''settings_found'', b, None)
      else if p = ''disable'' then Some (''navigraph/disable'', change \<and> yes d ''startup'', b, None)
      else if p = ''handler'' then
        Some (''navigraph/handler'',
          enabled \<and> has_text d ''state'' ''available'' \<and> \<not> yes d ''handler'', b, None)
      else if p = ''stop'' then Some (''navigraph/stop'', enabled \<and> yes d ''can_stop'', b, None)
      else None)"

definition orbx_gate :: "app \<Rightarrow> string \<Rightarrow> gate" where
  "orbx_gate a p =
     (let d = data a ''orbx''; enabled = addon_enabled a ''orbx''; change = addon_change a ''orbx'';
          b = addon_body a ''orbx'' in
      if p = ''install'' then Some (''orbx/install'', change \<and> yes d ''settings_found'', b, None)
      else if p = ''configure'' then
        Some (''orbx/configure'', change \<and> yes d ''installed'' \<and> yes d ''settings_found'', b, None)
      else if p = ''open'' then
        Some (''orbx/open'', change \<and> yes d ''installed'' \<and> yes d ''settings_found'' \<and>
          \<not> yes d ''worker_busy'', b, None)
      else if p = ''stop'' then Some (''orbx/stop'', enabled \<and> yes d ''can_stop'', b, None)
      else None)"

definition mobiflight_gate :: "app \<Rightarrow> string \<Rightarrow> gate" where
  "mobiflight_gate a p =
     (let d = data a ''mobiflight''; enabled = addon_enabled a ''mobiflight'';
          change = addon_change a ''mobiflight''; b = addon_body a ''mobiflight'' in
      if p = ''install'' then
        Some (''mobiflight/install'', change \<and> \<not> yes d ''installed'' \<and> yes d ''payload_available'', b, None)
      else if p = ''prepare'' then
        Some (''mobiflight/prepare'', change \<and> yes d ''installed'' \<and> yes d ''payload_available'', b, None)
      else if p = ''configure-hid'' then
        Some (''mobiflight/configure-hid'', change \<and> has_text (jget d ''winebus'') ''state'' ''required'', b, None)
      else if p = ''open'' then Some (''mobiflight/open'', change \<and> yes d ''installed'', b, None)
      else if p = ''startup-enable'' then
        Some (''mobiflight/startup-enable'', change \<and> yes d ''installed'' \<and>
          has_text d ''hid_fix'' ''ready'', b, None)
      else if p = ''startup-disable'' then
        Some (''mobiflight/startup-disable'', change \<and> yes d ''startup'', b, None)
      else if p = ''stop'' then Some (''mobiflight/stop'', enabled \<and> yes d ''can_stop'', b, None)
      else None)"

definition navigraph_pick_gate :: "app \<Rightarrow> string \<Rightarrow> gate" where
  "navigraph_pick_gate a p = Some (''navigraph/pick'', safe_idle a, JObj [(''app'', JStr p)], None)"

definition fenix_pick_gate :: "app \<Rightarrow> string \<Rightarrow> gate" where
  "fenix_pick_gate a k =
     Some (''fenix/pick'', safe_idle a \<and> k \<in> {''installer'', ''bundle''}, JObj [(''kind'', JStr k)], None)"

end
