(* ===== verification/UiGate.thy ===== *)
theory UiGate
  imports UiRequest
begin

text \<open>
  The rest of \<^verbatim>\<open>App::request\<close>: Proton, the saves, maintenance, mods, store and reports; the whole
  function; and what its guards guarantee.
\<close>

section \<open>Proton\<close>

definition fenix_choice :: "app \<Rightarrow> string \<Rightarrow> bool" where
  "fenix_choice a p \<longleftrightarrow>
     (case bt_get (discoveries a) ''proton/discover'' of None \<Rightarrow> False
      | Some v \<Rightarrow> (case as_array (jget v ''choices'') of None \<Rightarrow> False
         | Some items \<Rightarrow> list_ex (\<lambda>item. s item ''path'' = p \<and> yes item ''fenix'') items))"

definition proton_gate :: "app \<Rightarrow> bool \<Rightarrow> gate" where
  "proton_gate a to_default =
     (let d = data a ''proton'';
          default = to_default \<or> get (forms a) ''proton'' = ''default'';
          p = (if get (forms a) ''proton'' = ''custom'' then get (forms a) ''proton_path''
               else get (forms a) ''proton'')
      in Some (''proton/select'',
        fresh a ''proton'' \<and> s d ''runtime_path'' = runtime a \<and> configured a \<and> idle a \<and>
        \<not> active (jget d ''job'') \<and>
        (if default then yes d ''can_restore'' \<and> \<not> cloud_active a
         else \<not> automatic_busy a \<and> prefix ''/'' p \<and>
           (case as_str (jget d ''error'') of None \<Rightarrow> True | Some e \<Rightarrow> e = []) \<and>
           (\<not> yes d ''fenix'' \<or> get (forms a) ''proton'' = ''custom'' \<or> fenix_choice a p)),
        JObj [(''runtime_path'', JStr (runtime a)),
              (''mode'', JStr (if default then ''default'' else ''proton'')),
              (''path'', JStr (if default then [] else p))], None))"

definition proton_cancel_gate :: "app \<Rightarrow> gate" where
  "proton_cancel_gate a =
     (let d = data a ''proton'' in
      Some (''proton/cancel'',
        fresh a ''proton'' \<and> s d ''runtime_path'' = runtime a \<and> active (jget d ''job''),
        JObj [(''job_id'', jget (jget d ''job'') ''id'')], None))"

section \<open>Saves\<close>

definition cloud_gate :: "app \<Rightarrow> string \<Rightarrow> gate" where
  "cloud_gate a p =
     (let d = data a ''cloud-saves'';
          ready = fresh a ''cloud-saves'' \<and> configured a \<and> safe_idle a \<and> \<not> active (jget d ''job'');
          plan = s (jget d ''plan'') ''id'' in
      if p = ''check'' then Some (''cloud-saves/check'', ready \<and> yes d ''can_check'', no_body, None)
      else if p = ''download'' then
        Some (''cloud-saves/download'', ready \<and> yes d ''can_download'', no_body, None)
      else if p = ''prepare-import'' then
        Some (''cloud-saves/prepare-import'', ready \<and> yes d ''can_prepare_import'', no_body, None)
      else if p = ''import'' \<or> p = ''upload'' then
        Some ((if p = ''import'' then ''cloud-saves/import'' else ''cloud-saves/upload''),
          ready \<and> plan \<noteq> [] \<and> yes d (if p = ''import'' then ''can_import'' else ''can_upload''),
          JObj [(''plan_id'', jget (jget d ''plan'') ''id''),
                (''choice'', JStr (if p = ''import'' then ''cloud'' else ''local''))],
          Some (if p = ''import'' then
            (''Den gepr'' @ u_uml @ ''ften Cloud-Stand lokal '' @ u_uml @
              ''bernehmen? Die betroffenen Spielst'' @ a_uml @ ''nde werden vorher gesichert.'')
            else (''Den gepr'' @ u_uml @ ''ften lokalen Stand in die Xbox-Cloud '' @ u_uml @
              ''bertragen?'')))
      else if p = ''restore'' then
        Some (''cloud-saves/restore'', ready \<and> yes d ''can_restore'' \<and> s d ''restore_id'' \<noteq> [],
          JObj [(''backup_id'', jget d ''restore_id'')],
          Some ''Die lokale Sicherung wiederherstellen?'')
      else if p = ''discard-plan'' then
        Some (''cloud-saves/discard-plan'', ready \<and> plan \<noteq> [],
          JObj [(''plan_id'', jget (jget d ''plan'') ''id'')], None)
      else if p = ''cancel'' then
        Some (''cloud-saves/cancel'',
          fresh a ''cloud-saves'' \<and> active (jget d ''job'') \<and> yes d ''can_cancel'',
          JObj [(''job_id'', jget (jget d ''job'') ''id'')], None)
      else None)"

definition automatic_gate :: "app \<Rightarrow> string \<Rightarrow> gate" where
  "automatic_gate a p =
     (let c = jget (status a) ''cloud'';
          ready = (idle a \<or> p = ''cancel-auto'' \<and> stopped a) \<and> configured a \<and>
            (yes c ''enabled'' \<or> p = ''retry'' \<and> has_text c ''error_code'' ''unsafe_session'') \<and>
            s c ''request_id'' \<noteq> [];
          b = JObj [(''request_id'', jget c ''request_id'')];
          attention = has_text c ''state'' ''attention'' in
      if p = ''retry'' then
        Some (''cloud-saves/retry'', ready \<and> attention \<and> yes c ''can_retry'', b, None)
      else if p = ''sign-in'' then
        Some (''cloud-saves/sign-in'', ready \<and> attention \<and> yes c ''can_sign_in'', b, None)
      else if p = ''play-local'' then
        Some (''cloud-saves/play-local'',
          ready \<and> yes c ''can_play_local'' \<and> \<not> yes c ''conflict'' \<and> attention, b, None)
      else if p = ''cancel-auto'' then
        Some (''cloud-saves/cancel-auto'',
          ready \<and> yes c ''can_cancel'' \<and> s c ''state'' \<in> {''syncing'', ''attention''}, b, None)
      else if p = ''cloud'' \<or> p = ''local'' then
        Some (''cloud-saves/resolve'', ready \<and> attention \<and> yes c ''conflict'' \<and> yes c ''can_retry'',
          jset ''choice'' (JStr p) b,
          Some (if p = ''cloud'' then
            ''Den Cloud-Spielstand verwenden? Eine lokale Sicherung bleibt erhalten.''
            else (''Den lokalen Spielstand verwenden und in die Cloud '' @ u_uml @ ''bertragen?'')))
      else None)"

section \<open>Maintenance, mods, store and reports\<close>

definition maintenance_gate :: "app \<Rightarrow> string \<Rightarrow> gate" where
  "maintenance_gate a p =
     Some (''maintenance/preview'',
       fresh a ''maintenance'' \<and> idle a \<and> configured a \<and> \<not> cloud_active a \<and>
       \<not> active (jget (data a ''maintenance'') ''job'') \<and>
       p \<in> {''reset'', ''restore'', ''uninstall''} \<and>
       (p \<noteq> ''restore'' \<or> yes (data a ''maintenance'') ''can_restore''),
       JObj [(''operation'', JStr p), (''keep_data'', JBool (flag (forms a) ''keep_data'')),
             (''delete_packages'', JBool (flag (forms a) ''delete_packages''))], None)"

definition maintenance_job_gate :: "app \<Rightarrow> bool \<Rightarrow> gate" where
  "maintenance_job_gate a start =
     (let job = jget (data a ''maintenance'') ''job'' in
      Some ((if start then ''maintenance/start'' else ''maintenance/discard''),
        fresh a ''maintenance'' \<and> stopped a \<and> has_text job ''state'' ''ready'' \<and>
        s job ''runtime_path'' = runtime a \<and> s job ''id'' \<noteq> [] \<and>
        (\<not> start \<or> as_bool (jget job ''keep_data'') = Some (flag (forms a) ''keep_data'') \<and>
           as_bool (jget job ''delete_packages'') = Some (flag (forms a) ''delete_packages'')) \<and>
        (\<not> start \<or> idle a \<and> \<not> automatic_busy a),
        JObj [(''job_id'', jget job ''id''), (''confirmed'', JBool True)], None))"

definition mods_preview_gate :: "app \<Rightarrow> string \<Rightarrow> gate" where
  "mods_preview_gate a i =
     (let d = data a ''mods'' in
      Some (''mods/preview-remove'',
        safe_idle a \<and> fresh a ''mods'' \<and> s d ''runtime_path'' = runtime a \<and> yes d ''can_remove'' \<and>
        (case as_array (jget d ''mods'') of None \<Rightarrow> False
         | Some items \<Rightarrow> list_ex (\<lambda>item. s item ''id'' = i) items),
        JObj [(''runtime_path'', JStr (runtime a)), (''addon_id'', JStr i)], None))"

definition mods_job_gate :: "app \<Rightarrow> bool \<Rightarrow> gate" where
  "mods_job_gate a remove_it =
     (let d = data a ''mods''; job = jget d ''job'';
          b = JObj [(''runtime_path'', JStr (runtime a)), (''job_id'', jget job ''id'')];
          current = fresh a ''mods'' \<and> s d ''runtime_path'' = runtime a \<and>
            s job ''runtime_path'' = runtime a \<and> s job ''id'' \<noteq> [] in
      if remove_it then
        Some (''mods/remove'',
          current \<and> stopped a \<and> \<not> automatic_busy a \<and> has_text job ''state'' ''ready'', b,
          Some (if yes job ''is_link'' then
            (''Nur diese Community-Verkn'' @ u_uml @
              ''pfung entfernen? Die Originaldateien bleiben erhalten.'')
            else (''Dieses Add-on dauerhaft aus dem Community-Ordner entfernen? Enthaltene Einstellungen werden ebenfalls gel'' @ o_uml @ ''scht.'')))
      else
        Some (''mods/discard-remove'',
          current \<and> (has_text job ''state'' ''ready'' \<or>
            has_text job ''state'' ''running'' \<and> has_text job ''phase'' ''checking''), b, None))"

definition mods_open_gate :: "app \<Rightarrow> gate" where
  "mods_open_gate a =
     Some (''mods/open-folder'',
       fresh a ''mods'' \<and> \<not> reserved a \<and> yes (data a ''mods'') ''can_open'', no_body, None)"

definition store_gate :: "app \<Rightarrow> string \<Rightarrow> gate" where
  "store_gate a p =
     (let job = jget (data a ''store-check'') ''job''; b = JObj [(''job_id'', jget job ''id'')];
          ready = fresh a ''store-check'' \<and> idle a \<and> configured a \<and> \<not> cloud_active a in
      if p = ''start'' then Some (''store-check/start'', ready, no_body, None)
      else if p = ''sign-in'' then Some (''store-check/sign-in'', ready, b, None)
      else if p = ''cancel'' then
        Some (''store-check/cancel'', fresh a ''store-check'' \<and> active job, b, None)
      else None)"

definition report_gate :: "app \<Rightarrow> gate" where
  "report_gate a =
     (let observations = filter (\<lambda>key. get (forms a) ''category'' = ''graphics'' \<and> flag (forms a) key)
            [''menus_visible'', ''main_view_black'', ''second_window_works'', ''second_window_crashes''];
          n = chars_count (trim (get (forms a) ''description'')) in
      Some (''problem-reports/prepare'', 10 \<le> n \<and> n \<le> 4000,
        JObj [(''runtime_path'', if runtime a = [] then JNull else JStr (runtime a)),
              (''category'', JStr (get (forms a) ''category'')),
              (''description'', JStr (get (forms a) ''description'')),
              (''observations'', JArr (map JStr observations))], None))"

definition report_discard_gate :: "app \<Rightarrow> gate" where
  "report_discard_gate a =
     (let r = jget (jget (data a ''problem-reports'') ''draft'') ''report'' in
      Some (''problem-reports/discard'', fresh a ''problem-reports'' \<and> s r ''id'' \<noteq> [],
        JObj [(''report_id'', jget r ''id'')], None))"

definition startup_gate :: "app \<Rightarrow> nat \<Rightarrow> gate" where
  "startup_gate a now = Some (''updates/check-startup'', startup_due a now, no_body, None)"

section \<open>The request\<close>

text \<open>What a Steam installation has no use for.\<close>

definition xbox_only :: "action \<Rightarrow> bool" where
  "xbox_only act = (case act of
     Backup \<Rightarrow> True | Graphics \<Rightarrow> True | VrSave \<Rightarrow> True | VrCheck \<Rightarrow> True | SetupCheck \<Rightarrow> True
   | SetupStart \<Rightarrow> True | SetupControl _ \<Rightarrow> True | Pick _ \<Rightarrow> True | Game _ \<Rightarrow> True | Cloud _ \<Rightarrow> True
   | Automatic _ \<Rightarrow> True | Proton \<Rightarrow> True | ProtonDefault \<Rightarrow> True | ProtonCancel \<Rightarrow> True
   | Maintenance _ \<Rightarrow> True | MaintenanceStart \<Rightarrow> True | MaintenanceDiscard \<Rightarrow> True | Store _ \<Rightarrow> True
   | Report \<Rightarrow> True | ReportDiscard \<Rightarrow> True | ModsPreview _ \<Rightarrow> True | ModsRemove \<Rightarrow> True
   | ModsDiscard \<Rightarrow> True | _ \<Rightarrow> False)"

definition gate_of :: "(string \<Rightarrow> string) \<Rightarrow> nat \<Rightarrow> app \<Rightarrow> action \<Rightarrow> gate" where
  "gate_of upper now a act = (case act of
     Preferences l \<Rightarrow> preferences_gate l
   | SelectInstallation i \<Rightarrow> select_installation_gate a i
   | XboxSetup \<Rightarrow> xbox_setup_gate a
   | SteamOpen \<Rightarrow> steam_open_gate a
   | AddSteamRoot \<Rightarrow> add_steam_root_gate a
   | Launch \<Rightarrow> launch_gate a
   | Stop \<Rightarrow> stop_gate a
   | Select e \<Rightarrow> select_gate a e
   | Backup \<Rightarrow> backup_gate a
   | Graphics \<Rightarrow> graphics_gate a
   | VrSave \<Rightarrow> vr_gate a False
   | VrCheck \<Rightarrow> vr_gate a True
   | SetupCheck \<Rightarrow> setup_check_gate upper a
   | SetupStart \<Rightarrow> setup_start_gate a
   | SetupControl p \<Rightarrow> setup_control_gate a p
   | Pick f \<Rightarrow> pick_gate a f
   | Game p \<Rightarrow> game_gate a p
   | Launcher p \<Rightarrow> launcher_gate a p
   | Fenix p \<Rightarrow> fenix_gate a p
   | Gsx p \<Rightarrow> gsx_gate a p
   | Navigraph p \<Rightarrow> navigraph_gate a p
   | Orbx p \<Rightarrow> orbx_gate a p
   | Mobiflight p \<Rightarrow> mobiflight_gate a p
   | NavigraphPick p \<Rightarrow> navigraph_pick_gate a p
   | FenixPick k \<Rightarrow> fenix_pick_gate a k
   | Proton \<Rightarrow> proton_gate a False
   | ProtonDefault \<Rightarrow> proton_gate a True
   | ProtonCancel \<Rightarrow> proton_cancel_gate a
   | Cloud p \<Rightarrow> cloud_gate a p
   | Automatic p \<Rightarrow> automatic_gate a p
   | Maintenance p \<Rightarrow> maintenance_gate a p
   | MaintenanceStart \<Rightarrow> maintenance_job_gate a True
   | MaintenanceDiscard \<Rightarrow> maintenance_job_gate a False
   | ModsPreview i \<Rightarrow> mods_preview_gate a i
   | ModsRemove \<Rightarrow> mods_job_gate a True
   | ModsDiscard \<Rightarrow> mods_job_gate a False
   | ModsOpen \<Rightarrow> mods_open_gate a
   | Store p \<Rightarrow> store_gate a p
   | Report \<Rightarrow> report_gate a
   | ReportDiscard \<Rightarrow> report_discard_gate a
   | Startup \<Rightarrow> startup_gate a now)"

definition app_request :: "(string \<Rightarrow> string) \<Rightarrow> nat \<Rightarrow> app \<Rightarrow> action \<Rightarrow> request option" where
  "app_request upper now a act =
     (if \<not> online a \<or> pending a then None
      else if is_steam a \<and> xbox_only act then None
      else (case gate_of upper now a act of None \<Rightarrow> None
        | Some (p, allowed, b, c) \<Rightarrow>
            if allowed then Some \<lparr>path = p, body = b, request_runtime = runtime a, confirmation = c\<rparr>
            else None))"


lemmas gate_defs = preferences_gate_def select_installation_gate_def xbox_setup_gate_def steam_open_gate_def
  add_steam_root_gate_def launch_gate_def stop_gate_def select_gate_def backup_gate_def graphics_gate_def
  vr_gate_def setup_check_gate_def setup_start_gate_def setup_control_gate_def pick_gate_def game_gate_def
  launcher_gate_def fenix_gate_def gsx_gate_def navigraph_gate_def orbx_gate_def mobiflight_gate_def
  navigraph_pick_gate_def fenix_pick_gate_def proton_gate_def proton_cancel_gate_def cloud_gate_def
  automatic_gate_def maintenance_gate_def maintenance_job_gate_def mods_preview_gate_def mods_job_gate_def
  mods_open_gate_def store_gate_def report_gate_def report_discard_gate_def startup_gate_def

lemma app_request_iff:
  "app_request upper now a act = Some r \<longleftrightarrow>
     online a \<and> \<not> pending a \<and> \<not> (is_steam a \<and> xbox_only act) \<and> request_runtime r = runtime a \<and>
     gate_of upper now a act = Some (path r, True, body r, confirmation r)"
  by (cases r) (auto simp: app_request_def split: option.splits prod.splits if_splits)

section \<open>What the guards guarantee\<close>

text \<open>A gate keeps \<open>P\<close> when an open guard implies it.\<close>

definition gate_ok :: "(string \<Rightarrow> json \<Rightarrow> string option \<Rightarrow> bool) \<Rightarrow> gate \<Rightarrow> bool" where
  "gate_ok P g = (case g of None \<Rightarrow> True | Some (p, allowed, b, c) \<Rightarrow> allowed \<longrightarrow> P p b c)"

lemma gate_ok_simps [simp]:
  "gate_ok P None"
  "gate_ok P (Some (p, allowed, b, c)) \<longleftrightarrow> (allowed \<longrightarrow> P p b c)"
  by (simp_all add: gate_ok_def)

lemma gate_ok_if: "gate_ok P (if q then x else y) = (if q then gate_ok P x else gate_ok P y)"
  by simp

lemma gate_okD: "gate_ok P (gate_of upper now a act) \<Longrightarrow> app_request upper now a act = Some r \<Longrightarrow>
    P (path r) (body r) (confirmation r)"
  by (simp add: app_request_iff)

definition addon_key :: "action \<Rightarrow> string option" where
  "addon_key act = (case act of Fenix _ \<Rightarrow> Some ''fenix'' | Gsx _ \<Rightarrow> Some ''gsx''
     | Navigraph _ \<Rightarrow> Some ''navigraph'' | Orbx _ \<Rightarrow> Some ''orbx''
     | Mobiflight _ \<Rightarrow> Some ''mobiflight'' | _ \<Rightarrow> None)"

lemma settable_addon_body: "settable (addon_body a key)"
  by (auto simp: addon_body_def Let_def settable_jset split: option.splits)

lemma jget_addon_body:
  "jget (addon_body a key) ''runtime_path'' = JStr (runtime a)"
  "jget (addon_body a key) ''profile_token'' =
     (case as_str (jget (data a key) ''profile_token'') of None \<Rightarrow> JNull | Some t \<Rightarrow> JStr t)"
  by (auto simp: addon_body_def Let_def jget_jset split: option.splits) (auto simp: jget_def)

definition bound_body :: "app \<Rightarrow> string \<Rightarrow> json \<Rightarrow> bool" where
  "bound_body a key b \<longleftrightarrow> jget b ''runtime_path'' = JStr (runtime a) \<and>
     jget b ''profile_token'' =
       (case as_str (jget (data a key) ''profile_token'') of None \<Rightarrow> JNull | Some t \<Rightarrow> JStr t)"

lemma bound_body [simp]:
  "bound_body a key (addon_body a key)"
  "k \<noteq> ''runtime_path'' \<Longrightarrow> k \<noteq> ''profile_token'' \<Longrightarrow> bound_body a key (jset k x (addon_body a key))"
  by (simp_all add: bound_body_def jget_jset settable_addon_body jget_addon_body)

lemma gate_addon:
  assumes "addon_key act = Some key"
  shows "gate_ok (\<lambda>p b c. addon_enabled a key \<and> bound_body a key b) (gate_of upper now a act)"
  using assms by (cases act) (simp_all add: gate_of_def gate_defs addon_key_def Let_def gate_ok_if
      addon_change_def tool_change_def cong del: if_weak_cong split del: if_split, auto?)


definition steam_paths :: "string list" where
  "steam_paths = [''preferences'', ''installations/select'', ''installations/xbox-setup'', ''steam/open'',
     ''installations/add-steam-root'', ''launch'', ''stop'', ''game/select'', ''mods/open-folder'',
     ''updates/check-startup'', ''navigraph/pick'', ''fenix/pick'']"

definition steam_prefixes :: "string list" where
  "steam_prefixes = [''launcher-update/'', ''fenix/'', ''gsx/'', ''navigraph/'', ''orbx/'', ''mobiflight/'']"

definition steam_path :: "string \<Rightarrow> bool" where
  "steam_path p \<longleftrightarrow> p \<in> set steam_paths \<or> list_ex (\<lambda>q. prefix q p) steam_prefixes"

definition steam_blocked :: "string list" where
  "steam_blocked = [''fenix/install'', ''fenix/configure'', ''fenix/restore'', ''fenix/installer'',
     ''fenix/select'', ''fenix/repair'']"

lemma gate_steam:
  assumes "\<not> xbox_only act"
  shows "gate_ok (\<lambda>p b c. steam_path p) (gate_of upper now a act)"
  using assms
  by (cases act) (simp_all add: gate_of_def gate_defs Let_def gate_ok_if xbox_only_def steam_path_def
      steam_paths_def steam_prefixes_def cong del: if_weak_cong split del: if_split split: option.split)

lemma gate_steam_blocked:
  assumes "is_steam a" "yes (data a ''fenix'') ''steam_running''"
  shows "gate_ok (\<lambda>p b c. p \<notin> set steam_blocked) (gate_of upper now a act)"
proof -
  have off: "q \<in> {''install'', ''configure'', ''restore'', ''installer'', ''select'', ''repair''} \<Longrightarrow>
      \<not> tool_change a ''fenix'' q" for q
    using assms by (auto simp: tool_change_def)
  show ?thesis
    by (cases act) (simp_all add: gate_of_def gate_defs Let_def gate_ok_if steam_blocked_def
        cong del: if_weak_cong split del: if_split split: option.split, (auto simp: off)?)
qed

text \<open>For a Steam installation no request touches saves, the Xbox setup, Proton, maintenance or
  the store, and a running Steam client blocks the Fenix steps that write into its tools.\<close>

theorem request_steam:
  assumes "app_request upper now a act = Some r" "is_steam a"
  shows "steam_path (path r) \<and>
    (yes (data a ''fenix'') ''steam_running'' \<longrightarrow> path r \<notin> set steam_blocked)"
proof -
  have "\<not> xbox_only act"
    using assms by (simp add: app_request_iff)
  from gate_okD [OF gate_steam [OF this] assms(1)]
  show ?thesis
    using gate_okD [OF gate_steam_blocked [OF assms(2)] assms(1)] by blast
qed

section \<open>Witnesses\<close>

definition w_app :: "json \<Rightarrow> (string \<times> json) list \<Rightarrow> app" where
  "w_app st answers = \<lparr>snapshot = bt_of_list ((''status'', st) # answers), forms = forms_default, online = True,
     pending = False, discoveries = [], restarting = False, startup_checked = True,
     startup_attempt = None, startup_inflight = None, startup_retry = False\<rparr>"

definition w_status :: "string \<Rightarrow> string \<Rightarrow> string \<Rightarrow> json" where
  "w_status game cloud source = JObj [
     (''runtime'', JObj [(''path'', JStr ''/r''), (''configured'', JBool True), (''ready'', JBool True),
        (''source'', JStr source)]),
     (''game'', JObj [(''state'', JStr game), (''can_stop'', JBool True), (''managed'', JBool True),
        (''can_start'', JBool True)]),
     (''cloud'', JObj [(''state'', JStr cloud)])]"

definition w_fenix :: json where
  "w_fenix = JObj [(''runtime_path'', JStr ''/r''), (''profile_token'', JStr ''t''),
     (''can_change'', JBool True), (''can_restore'', JBool True), (''steam_running'', JBool True),
     (''can_stop'', JBool True)]"


theorem request_steam_witness:
  "\<exists>r. app_request id 0 (w_app (w_status ''running'' ''off'' ''steam'') [(''fenix'', w_fenix)])
     (Fenix ''stop'') = Some r \<and> path r \<noteq> ''fenix/install''"
proof -
  let ?a = "w_app (w_status ''running'' ''off'' ''steam'') [(''fenix'', w_fenix)]"
  have "app_request id 0 ?a (Fenix ''stop'') \<noteq> None" and st: "is_steam ?a"
      "yes (data ?a ''fenix'') ''steam_running''"
    by code_simp+
  then obtain r where r: "app_request id 0 ?a (Fenix ''stop'') = Some r" by blast
  from request_steam [OF r st(1)] st(2) r show ?thesis by (auto simp: steam_blocked_def)
qed

end
