(* ===== verification/Effects.thy ===== *)
theory Effects
  imports Prelude
begin

text \<open>
  Stateful operations that can fail: a function from the state to a result and the new state. A
  failure keeps the state it left behind. \<open>wp m Q E s\<close> says that running \<open>m\<close> from \<open>s\<close> ends in
  \<open>Q\<close> on success and in \<open>E\<close> on failure; the rules compute it along the program.
\<close>

named_theorems wp_simps "weakest preconditions of the operations of a program"

type_synonym ('s, 'e, 'a) eff = "'s \<Rightarrow> ('e + 'a) \<times> 's"

definition eret :: "'a \<Rightarrow> ('s, 'e, 'a) eff" where
  "eret a s = (Inr a, s)"

definition efail :: "'e \<Rightarrow> ('s, 'e, 'a) eff" where
  "efail e s = (Inl e, s)"

definition ebind :: "('s, 'e, 'a) eff \<Rightarrow> ('a \<Rightarrow> ('s, 'e, 'b) eff) \<Rightarrow> ('s, 'e, 'b) eff" where
  "ebind m f s = (case m s of (Inl e, s') \<Rightarrow> (Inl e, s') | (Inr a, s') \<Rightarrow> f a s')"

definition eseq :: "('s, 'e, 'a) eff \<Rightarrow> ('s, 'e, 'b) eff \<Rightarrow> ('s, 'e, 'b) eff" where
  "eseq m n = ebind m (\<lambda>_. n)"

definition elift :: "'e + 'a \<Rightarrow> ('s, 'e, 'a) eff" where
  "elift r s = (r, s)"

definition eget :: "('s \<Rightarrow> 'a) \<Rightarrow> ('s, 'e, 'a) eff" where
  "eget f s = (Inr (f s), s)"

definition emod :: "('s \<Rightarrow> 's) \<Rightarrow> ('s, 'e, unit) eff" where
  "emod f s = (Inr (), f s)"

text \<open>For evaluation: the rest of a program is only looked at once its first part has a result.\<close>

lemma ebind_unfold [code_unfold]: "ebind m f = (\<lambda>s. case m s of (r, t) \<Rightarrow> case r of Inl e \<Rightarrow> (Inl e, t) | Inr a \<Rightarrow> f a t)"
  by (rule ext) (auto simp: ebind_def split: prod.split sum.split)

lemma eseq_unfold [code_unfold]: "eseq m n = (\<lambda>s. case m s of (r, t) \<Rightarrow> case r of Inl e \<Rightarrow> (Inl e, t) | Inr _ \<Rightarrow> n t)"
  by (rule ext) (auto simp: eseq_def ebind_def split: prod.split sum.split)

text \<open>The result of a failing call as a value, as \<^verbatim>\<open>match\<close> on a \<^verbatim>\<open>Result\<close> sees it.\<close>

definition etry :: "('s, 'e, 'a) eff \<Rightarrow> ('s, 'f, 'e + 'a) eff" where
  "etry m s = (case m s of (r, s') \<Rightarrow> (Inr r, s'))"

fun efor :: "('x \<Rightarrow> 'a \<Rightarrow> ('s, 'e, 'a) eff) \<Rightarrow> 'x list \<Rightarrow> 'a \<Rightarrow> ('s, 'e, 'a) eff" where
  "efor f [] a = eret a"
| "efor f (x # xs) a = ebind (f x a) (efor f xs)"

definition wp :: "('s, 'e, 'a) eff \<Rightarrow> ('a \<Rightarrow> 's \<Rightarrow> bool) \<Rightarrow> ('e \<Rightarrow> 's \<Rightarrow> bool) \<Rightarrow> 's \<Rightarrow> bool" where
  "wp m Q E s = (case m s of (Inl e, s') \<Rightarrow> E e s' | (Inr a, s') \<Rightarrow> Q a s')"

lemma ebind_cong [fundef_cong]:
  "m = m' \<Longrightarrow> (\<And>a s. f a s = f' a s) \<Longrightarrow> ebind m f = ebind m' f'"
  by (rule ext) (auto simp: ebind_def split: prod.splits sum.splits)

lemma wp_eret [wp_simps]: "wp (eret a) Q E s = Q a s"
  by (simp add: wp_def eret_def)

lemma wp_efail [wp_simps]: "wp (efail e) Q E s = E e s"
  by (simp add: wp_def efail_def)

lemma wp_ebind [wp_simps]: "wp (ebind m f) Q E s = wp m (\<lambda>a. wp (f a) Q E) E s"
  by (auto simp: wp_def ebind_def split: prod.splits sum.splits)

lemma wp_eseq [wp_simps]: "wp (eseq m n) Q E s = wp m (\<lambda>_. wp n Q E) E s"
  by (simp add: eseq_def wp_ebind)

lemma wp_elift [wp_simps]: "wp (elift r) Q E s = (case r of Inl e \<Rightarrow> E e s | Inr a \<Rightarrow> Q a s)"
  by (simp add: wp_def elift_def)

lemma wp_eget [wp_simps]: "wp (eget f) Q E s = Q (f s) s"
  by (simp add: wp_def eget_def)

lemma wp_emod [wp_simps]: "wp (emod f) Q E s = Q () (f s)"
  by (simp add: wp_def emod_def)

lemma wp_etry [wp_simps]: "wp (etry m) Q E s = wp m (\<lambda>a. Q (Inr a)) (\<lambda>e. Q (Inl e)) s"
  by (auto simp: wp_def etry_def split: prod.splits sum.splits)

lemma wp_if [wp_simps]: "wp (if c then m else n) Q E s = (if c then wp m Q E s else wp n Q E s)"
  by simp

lemma wp_mono:
  assumes "wp m Q E s" "\<And>a t. Q a t \<Longrightarrow> Q' a t" "\<And>e t. E e t \<Longrightarrow> E' e t"
  shows "wp m Q' E' s"
  using assms by (auto simp: wp_def split: prod.splits sum.splits)

lemma wp_conj: "wp m Q E s \<Longrightarrow> wp m Q' E' s \<Longrightarrow> wp m (\<lambda>a t. Q a t \<and> Q' a t) (\<lambda>e t. E e t \<and> E' e t) s"
  by (auto simp: wp_def split: prod.splits sum.splits)

lemma wp_Inr: "wp m Q E s \<Longrightarrow> m s = (Inr a, t) \<Longrightarrow> Q a t"
  by (simp add: wp_def)

lemma wp_Inl: "wp m Q E s \<Longrightarrow> m s = (Inl e, t) \<Longrightarrow> E e t"
  by (simp add: wp_def)

lemma wpI: "(\<And>a t. m s = (Inr a, t) \<Longrightarrow> Q a t) \<Longrightarrow> (\<And>e t. m s = (Inl e, t) \<Longrightarrow> E e t) \<Longrightarrow> wp m Q E s"
  by (auto simp: wp_def split: prod.splits sum.splits)

text \<open>A loop keeps an invariant that every round keeps; it may mention what is done and what is left.\<close>

lemma wp_efor_step:
  assumes "I [] xs a s"
    and "\<And>ys x zs a s. xs = ys @ x # zs \<Longrightarrow> I ys (x # zs) a s \<Longrightarrow> wp (f x a) (I (ys @ [x]) zs) E s"
  shows "wp (efor f xs a) (I xs []) E s"
proof -
  have "wp (efor f zs a) (I (ys @ zs) []) E s" if "xs = ys @ zs" "I ys zs a s" for ys zs a s
    using that
  proof (induction zs arbitrary: ys a s)
    case (Cons z zs)
    have *: "wp (f z a) (I (ys @ [z]) zs) E s"
      using assms(2) [OF Cons.prems] .
    show ?case
      unfolding efor.simps wp_ebind
      by (rule wp_mono [OF *]) (use Cons.IH [of "ys @ [z]"] Cons.prems in auto)
  qed (simp add: wp_eret)
  from this [of "[]" xs a s] assms(1) show ?thesis by simp
qed

lemma wp_efor:
  assumes "I a s" "\<And>x a s. x \<in> set xs \<Longrightarrow> I a s \<Longrightarrow> wp (f x a) I E s"
  shows "wp (efor f xs a) I E s"
  by (rule wp_efor_step [of "\<lambda>_ _. I"]) (use assms in auto)

section \<open>Views\<close>

text \<open>A view is something of the state; an operation keeps it when no run, failed or not, changes it.\<close>

named_theorems keeps_intros "operations that keep a view"

definition keeps :: "('s \<Rightarrow> 'v) \<Rightarrow> ('s, 'e, 'a) eff \<Rightarrow> bool" where
  "keeps v m \<longleftrightarrow> (\<forall>s. v (snd (m s)) = v s)"

lemma keepsD: "keeps v m \<Longrightarrow> m s = (r, t) \<Longrightarrow> v t = v s"
  by (metis keeps_def snd_conv)

lemma keeps_eret [keeps_intros]: "keeps v (eret a)"
  by (simp add: keeps_def eret_def)

lemma keeps_efail [keeps_intros]: "keeps v (efail e)"
  by (simp add: keeps_def efail_def)

lemma keeps_elift [keeps_intros]: "keeps v (elift r)"
  by (simp add: keeps_def elift_def)

lemma keeps_eget [keeps_intros]: "keeps v (eget f)"
  by (simp add: keeps_def eget_def)

lemma keeps_ebind [keeps_intros]: "keeps v m \<Longrightarrow> (\<And>a. keeps v (f a)) \<Longrightarrow> keeps v (ebind m f)"
  by (auto simp: keeps_def ebind_def split: prod.split sum.split) (metis snd_conv)+

lemma keeps_eseq [keeps_intros]: "keeps v m \<Longrightarrow> keeps v n \<Longrightarrow> keeps v (eseq m n)"
  by (simp add: eseq_def keeps_ebind)

lemma keeps_etry [keeps_intros]: "keeps v m \<Longrightarrow> keeps v (etry m)"
  by (auto simp: keeps_def etry_def split: prod.split) (metis snd_conv)

lemma keeps_emod [keeps_intros]: "(\<And>s. v (f s) = v s) \<Longrightarrow> keeps v (emod f)"
  by (simp add: keeps_def emod_def)

lemma keeps_if [keeps_intros]: "keeps v m \<Longrightarrow> keeps v n \<Longrightarrow> keeps v (if c then m else n)"
  by simp

lemma keeps_option [keeps_intros]:
  "keeps v m \<Longrightarrow> (\<And>x. keeps v (f x)) \<Longrightarrow> keeps v (case e of None \<Rightarrow> m | Some x \<Rightarrow> f x)"
  by (cases e) auto

lemma keeps_sum [keeps_intros]:
  "(\<And>x. keeps v (f x)) \<Longrightarrow> (\<And>x. keeps v (g x)) \<Longrightarrow> keeps v (case e of Inl x \<Rightarrow> f x | Inr x \<Rightarrow> g x)"
  by (cases e) auto

lemma keeps_prod [keeps_intros]: "(\<And>x y. keeps v (f x y)) \<Longrightarrow> keeps v (case e of (x, y) \<Rightarrow> f x y)"
  by (cases e) auto

lemma wp_keeps:
  "keeps v m \<Longrightarrow> (\<And>a t. m s = (Inr a, t) \<Longrightarrow> v t = v s \<Longrightarrow> Q a t) \<Longrightarrow>
    (\<And>e t. m s = (Inl e, t) \<Longrightarrow> v t = v s \<Longrightarrow> E e t) \<Longrightarrow> wp m Q E s"
  by (rule wpI) (auto dest: keepsD)

lemma keeps_efor [keeps_intros]: "(\<And>x a. keeps v (f x a)) \<Longrightarrow> keeps v (efor f xs a)"
  by (induction xs arbitrary: a) (simp_all add: keeps_eret keeps_ebind)

lemma keepsI:
  assumes "\<And>s. wp m (\<lambda>_ t. v t = v s) (\<lambda>_ t. v t = v s) s"
  shows "keeps v m"
  unfolding keeps_def
proof
  fix s
  show "v (snd (m s)) = v s"
    using assms [of s] by (cases "m s"; cases "fst (m s)") (auto simp: wp_def)
qed

end
