(* ===== verification/CloudStorage.thy ===== *)
theory CloudStorage
  imports SaveState Effects "HOL-Library.Multiset"
begin

text \<open>
  \<^verbatim>\<open>native/cloud_storage.rs\<close>: the scope of a cloud profile and the bounded reader of the storage
  service: its answers, the paged inventory and the atoms of a container. The transport, the
  cancellation flag and the clock are operations on a world \<open>'w\<close> that may change at every call.
  The local snapshot written from these reads (\<^verbatim>\<open>download_cached\<close>) is file system work.
\<close>

section \<open>Scope\<close>

record scope =
  xuid :: string
  scid :: string
  pfn :: string
  title_id :: u32

definition pfn_byte :: "char \<Rightarrow> bool" where
  "pfn_byte b \<longleftrightarrow> is_alnum b \<or> b = CHR ''_'' \<or> b = CHR ''.'' \<or> b = CHR ''-''"

definition scope_new :: "string \<Rightarrow> string \<Rightarrow> string \<Rightarrow> u32 \<Rightarrow> failure + scope" where
  "scope_new x sc p t =
     rbind (cloud_require
       (x \<noteq> [] \<and> length x \<le> 20 \<and> list_all is_digit x \<and>
        (case parse_unsigned usize_max x of None \<Rightarrow> False | Some n \<Rightarrow> n > 0) \<and>
        guid sc \<and> p \<noteq> [] \<and> length p \<le> 255 \<and> list_all pfn_byte p \<and> t > 0) ''invalid_scope'') (\<lambda>_.
     Inr \<lparr>xuid = x, scid = ascii_lower sc, pfn = p, title_id = t\<rparr>)"

definition text_or_empty :: "json \<Rightarrow> string" where
  "text_or_empty v = (case as_str v of None \<Rightarrow> [] | Some t \<Rightarrow> t)"

definition scope_from_reply :: "json \<Rightarrow> failure + scope" where
  "scope_from_reply v =
     rbind (cloud_require (case as_object v of None \<Rightarrow> False
        | Some m \<Rightarrow> length m = 4 \<and> list_all (\<lambda>k. map_of m k \<noteq> None)
            [''xuid'', ''scid'', ''package_family_name'', ''title_id'']) ''invalid_scope'') (\<lambda>_.
     scope_new (text_or_empty (jget v ''xuid'')) (text_or_empty (jget v ''scid''))
       (text_or_empty (jget v ''package_family_name''))
       (case as_u64 (jget v ''title_id'') of None \<Rightarrow> 0
        | Some n \<Rightarrow> if n < 4294967296 then word_of_nat n else 0))"

definition binding_preimage :: "scope \<Rightarrow> u8 list" where
  "binding_preimage s =
     bytes_of ''Flightdeck ConnectedStorage read snapshot v1'' @ [0] @
     concat (map (\<lambda>v. be32 (word_of_nat (length v)) @ bytes_of v)
       [xuid s, scid s, pfn s, show_nat (unat (title_id s))])"

definition scope_binding :: "(u8 list \<Rightarrow> u8 list) \<Rightarrow> scope \<Rightarrow> string" where
  "scope_binding H s = hex_encode (H (binding_preimage s))"

definition scope_namespace ::
  "(u8 list \<Rightarrow> u8 list) \<Rightarrow> (string \<Rightarrow> string option) \<Rightarrow> scope \<Rightarrow> failure + string" where
  "scope_namespace H uuid s =
     rbind (ok_or (parse_unsigned usize_max (xuid s)) (Failure ''invalid_scope'')) (\<lambda>x.
     map_err (\<lambda>_. Failure ''invalid_scope'') (namespace_key H uuid (title_id s) (scid s) (word_of_nat x)))"

section \<open>Answers\<close>

datatype read_operation =
    Index nat "string option"
  | Container string
  | Atom string

record response =
  status :: u16
  headers :: "(string, string) btree"
  body :: "u8 list"

record limits =
  pages :: nat
  max_containers :: nat
  max_blobs :: nat
  blob_bytes :: nat
  total_bytes :: nat
  json_bytes :: nat
  timeout :: nat
  deadline :: nat

definition limits_default :: limits where
  "limits_default = \<lparr>pages = 64, max_containers = 4096, max_blobs = 65536, blob_bytes = 67108864,
     total_bytes = 268435456, json_bytes = 4194304, timeout = 20000000000, deadline = 180000000000\<rparr>"

record cloud_container =
  name :: string
  display :: string
  etag :: string
  client_file_time :: nat
  csize :: nat

record atom =
  atom_id :: string
  atom_name :: string
  atom_size :: "nat option"

definition header_byte :: "char \<Rightarrow> bool" where
  "header_byte c \<longleftrightarrow> is_alnum c \<or> c \<in> set ''!#$%&*+.^_`|~-'' \<or> c = CHR 0x27"

definition add_header ::
  "string \<times> string \<Rightarrow> (string, string) btree \<Rightarrow> failure + (string, string) btree" where
  "add_header = (\<lambda>(n, value) out.
     rbind (cloud_require (n \<noteq> [] \<and> list_all header_byte n \<and> \<not> list_ex ascii_control value)
       ''invalid_response'') (\<lambda>_.
     rbind (cloud_require (\<not> bt_has out (ascii_lower n)) ''invalid_response'') (\<lambda>_.
     Inr (bt_put (ascii_lower n) value out))))"

definition check_headers :: "(string, string) btree \<Rightarrow> failure + (string, string) btree" where
  "check_headers values = rfold add_header values []"

text \<open>What \<^verbatim>\<open>Reader::get\<close> does with an answer.\<close>

definition accept :: "nat \<Rightarrow> response \<Rightarrow> failure + u8 list" where
  "accept maximum r =
     rbind (if status r = 200 then Inr ()
            else if status r = 401 \<or> status r = 403 then Inl (with_status (status r) (Failure ''authentication''))
            else if status r = 404 then Inl (with_status 404 (Failure ''not_found''))
            else Inl (with_status (status r) (Failure ''http_error''))) (\<lambda>_.
     rbind (check_headers (headers r)) (\<lambda>h.
     rbind (cloud_require (case bt_get h ''content-encoding'' of None \<Rightarrow> True
        | Some v \<Rightarrow> eq_ignore_case v ''identity'') ''invalid_response'') (\<lambda>_.
     rbind (case bt_get h ''content-length'' of None \<Rightarrow> Inr ()
        | Some len \<Rightarrow>
            rbind (cloud_require (len \<noteq> [] \<and> length len \<le> 20 \<and> list_all is_digit len)
              ''invalid_response'') (\<lambda>_.
            rbind (ok_or (parse_unsigned usize_max len) (Failure ''bounds'')) (\<lambda>n.
            rbind (cloud_require (n \<le> maximum) ''bounds'') (\<lambda>_.
            cloud_require (n = length (body r)) ''invalid_response'')))) (\<lambda>_.
     rbind (cloud_require (length (body r) \<le> maximum) ''bounds'') (\<lambda>_.
     Inr (body r))))))"

section \<open>File times\<close>

text \<open>The pattern of the source's regular expression: nineteen characters of date and time, up to
  seven digits of a fraction, and a zone. \<open>stamp_captures\<close> gives its three groups.\<close>

definition matches :: "string \<Rightarrow> string \<Rightarrow> bool" where
  "matches p v \<longleftrightarrow> length v = length p \<and>
     list_all (\<lambda>(q, c). if q = CHR ''9'' then is_digit c else c = q) (zip p v)"

definition is_zone :: "string \<Rightarrow> bool" where
  "is_zone z \<longleftrightarrow> z = ''Z'' \<or> matches ''+99:99'' z \<or> matches ''-99:99'' z"

definition stamp_captures :: "string \<Rightarrow> (string \<times> string option \<times> string) option" where
  "stamp_captures t =
     (let d = take 19 t; r = drop 19 t in
      if \<not> matches ''9999-99-99T99:99:99'' d then None
      else (case r of [] \<Rightarrow> None
        | c # r' \<Rightarrow>
            if c = CHR ''.'' then
              (let f = takeWhile is_digit r'; z = dropWhile is_digit r' in
               if f \<noteq> [] \<and> length f \<le> 7 \<and> is_zone z then Some (d, Some f, z) else None)
            else if is_zone r then Some (d, None, r) else None))"

text \<open>\<open>seconds\<close> is \<^verbatim>\<open>chrono\<close>'s reading of the first group as Unix time: a third-party crate.\<close>

definition file_time :: "(string \<Rightarrow> int option) \<Rightarrow> json \<Rightarrow> failure + nat" where
  "file_time seconds v =
     (case as_u64 v of Some n \<Rightarrow> Inr n
      | None \<Rightarrow>
        rbind (ok_or (as_str v) (Failure ''invalid_response'')) (\<lambda>t.
        rbind (ok_or (stamp_captures t) (Failure ''invalid_response'')) (\<lambda>(d, f, zone).
        rbind (ok_or (seconds d) (Failure ''invalid_response'')) (\<lambda>date.
        rbind (cloud_require (drop 17 d \<noteq> ''60'') ''invalid_response'') (\<lambda>_.
        rbind (if zone = ''Z'' then Inr 0
               else (let hours = digits_value 10 0 (take 2 (drop 1 zone));
                         minutes = digits_value 10 0 (take 2 (drop 4 zone)) in
                 rbind (cloud_require (hours \<le> 14 \<and> minutes < 60 \<and> (hours \<noteq> 14 \<or> minutes = 0))
                   ''invalid_response'') (\<lambda>_.
                 Inr ((int hours * 60 + int minutes) * 60 * (if prefix ''+'' zone then 1 else -1))))) (\<lambda>offset.
        let fraction = (case f of None \<Rightarrow> ''0'' | Some x \<Rightarrow> x);
            ticks = (date - offset + 11644473600) * 10000000 +
              int (digits_value 10 0 (fraction @ replicate (7 - length fraction) (CHR ''0'')))
        in if 0 \<le> ticks \<and> ticks \<le> int usize_max then Inr (nat ticks)
           else Inl (Failure ''invalid_response'')))))))"

section \<open>The reader\<close>

record 'w transport =
  transport_scope :: "'w \<Rightarrow> scope"
  read_op :: "read_operation \<Rightarrow> nat \<Rightarrow> nat \<Rightarrow> 'w \<Rightarrow> (failure + response) \<times> 'w"
  load_cancel :: "'w \<Rightarrow> bool \<times> 'w"
  clock :: "'w \<Rightarrow> nat \<times> 'w"

definition check_time :: "('w, 'z) transport_scheme \<Rightarrow> nat \<Rightarrow> ('w, failure, nat) eff" where
  "check_time T due w =
     (case load_cancel T w of (c, w) \<Rightarrow>
        if c then (Inl (Failure ''cancelled''), w)
        else (case clock T w of (now, w) \<Rightarrow> (remaining c now due, w)))"

definition reader_get ::
  "('w, 'z) transport_scheme \<Rightarrow> limits \<Rightarrow> nat \<Rightarrow> read_operation \<Rightarrow> nat \<Rightarrow> ('w, failure, u8 list) eff" where
  "reader_get T L due p maximum =
     ebind (check_time T due) (\<lambda>t.
     ebind (read_op T p (min t (timeout L)) maximum) (\<lambda>answer.
     eseq (check_time T due)
     (elift (accept maximum answer))))"

record listing =
  result :: "cloud_container list"
  names :: "string list"
  tokens :: "string list"
  expected :: "nat option"
  size_sum :: nat
  continuation :: "string option"

definition list_row ::
  "(string \<Rightarrow> int option) \<Rightarrow> limits \<Rightarrow> json \<Rightarrow> listing \<Rightarrow> failure + listing" where
  "list_row seconds L row g =
     rbind (cloud_text (jget row ''fileName'') 1024 False) (\<lambda>n.
     rbind (cloud_require (n \<noteq> ''.'' \<and> n \<noteq> ''..'' \<and> n \<notin> set (names g)) ''invalid_response'') (\<lambda>_.
     rbind (cloud_text (jget row ''displayName'') 256 True) (\<lambda>d.
     rbind (cloud_text (jget row ''etag'') 1024 False) (\<lambda>e.
     rbind (file_time seconds (jget row ''clientFileTime'')) (\<lambda>t.
     rbind (cloud_number (jget row ''size'') (total_bytes L)) (\<lambda>sz.
     let item = \<lparr>name = n, display = d, etag = e, client_file_time = t, csize = sz\<rparr> in
     rbind (cloud_require (size_sum g + sz \<le> total_bytes L) ''bounds'') (\<lambda>_.
     Inr (g\<lparr>result := result g @ [item], names := n # names g, size_sum := size_sum g + sz\<rparr>))))))))"

text \<open>One page: \<open>Inl\<close> the finished inventory or \<open>Inr\<close> the listing to go on with.\<close>

definition list_page ::
  "(string \<Rightarrow> int option) \<Rightarrow> limits \<Rightarrow> json \<Rightarrow> listing \<Rightarrow> failure + (cloud_container list + listing)" where
  "list_page seconds L value g =
     rbind (ok_or (as_array (jget value ''blobs'')) (Failure ''invalid_response'')) (\<lambda>rows.
     rbind (ok_or (as_object (jget value ''pagingInfo'')) (Failure ''invalid_response'')) (\<lambda>paging.
     rbind (ok_or (map_of paging ''continuationToken'') (Failure ''invalid_response'')) (\<lambda>token.
     rbind (if token = JNull then Inr None
            else rbind (cloud_text token 8192 False) (\<lambda>t. Inr (Some t))) (\<lambda>next_token.
     rbind (cloud_number (jget (jget value ''pagingInfo'') ''totalItems'') (max_containers L)) (\<lambda>total_items.
     rbind (case expected g of None \<Rightarrow> Inr () | Some n \<Rightarrow> cloud_require (n = total_items) ''changed'') (\<lambda>_.
     rbind (cloud_require (length (result g) + length rows \<le> total_items) ''invalid_response'') (\<lambda>_.
     rbind (rfold (list_row seconds L) rows (g\<lparr>expected := Some total_items, continuation := next_token\<rparr>)) (\<lambda>g.
     case next_token of
       None \<Rightarrow> rbind (cloud_require (length (result g) = total_items) ''invalid_response'') (\<lambda>_.
         Inr (Inl (sort_key name (result g))))
     | Some t \<Rightarrow>
         rbind (cloud_require (rows \<noteq> [] \<and> length (result g) < total_items \<and> t \<notin> set (tokens g))
           ''invalid_response'') (\<lambda>_.
         Inr (Inr (g\<lparr>tokens := t # tokens g\<rparr>)))))))))))"

fun list_pages ::
  "('w, 'z) transport_scheme \<Rightarrow> (u8 list \<Rightarrow> json option) \<Rightarrow> (string \<Rightarrow> int option) \<Rightarrow> limits \<Rightarrow> nat \<Rightarrow>
   nat \<Rightarrow> listing \<Rightarrow> ('w, failure, cloud_container list) eff" where
  "list_pages T parse seconds L due 0 g = efail (Failure ''bounds'')"
| "list_pages T parse seconds L due (Suc n) g =
     ebind (reader_get T L due (Index (length (result g)) (continuation g)) (json_bytes L)) (\<lambda>bytes.
     ebind (elift (rbind (cloud_json parse bytes) (\<lambda>value. list_page seconds L value g))) (\<lambda>r.
     case r of Inl done_list \<Rightarrow> eret done_list | Inr g \<Rightarrow> list_pages T parse seconds L due n g))"

definition listing_start :: listing where
  "listing_start = \<lparr>result = [], names = [], tokens = [], expected = None, size_sum = 0, continuation = None\<rparr>"

definition reader_inventory ::
  "('w, 'z) transport_scheme \<Rightarrow> (u8 list \<Rightarrow> json option) \<Rightarrow> (string \<Rightarrow> int option) \<Rightarrow> limits \<Rightarrow> nat \<Rightarrow>
   ('w, failure, cloud_container list) eff" where
  "reader_inventory T parse seconds L due w = list_pages T parse seconds L due (pages L) listing_start w"

lemma reader_inventory_pages: "reader_inventory T parse seconds L due = list_pages T parse seconds L due (pages L) listing_start"
  by (rule ext) (simp add: reader_inventory_def)

definition inventory ::
  "('w, 'z) transport_scheme \<Rightarrow> (u8 list \<Rightarrow> json option) \<Rightarrow> (string \<Rightarrow> int option) \<Rightarrow> limits \<Rightarrow>
   ('w, failure, cloud_container list) eff" where
  "inventory T parse seconds L w =
     (case clock T w of (now, w) \<Rightarrow> reader_inventory T parse seconds L (now + deadline L) w)"

section \<open>Atoms of a container\<close>

definition named_atom :: "string \<times> json \<Rightarrow> failure + atom" where
  "named_atom = (\<lambda>(n, wire).
     rbind (ok_or (Option.bind (as_str wire) (strip_suffix '',binary'')) (Failure ''invalid_response'')) (\<lambda>i.
     Inr \<lparr>atom_id = i, atom_name = n, atom_size = None\<rparr>))"

definition listed_atom :: "limits \<Rightarrow> json \<Rightarrow> failure + atom" where
  "listed_atom L row =
     rbind (cloud_text (jget row ''name'') 256 False) (\<lambda>n.
     rbind (cloud_number (jget row ''size'') (blob_bytes L)) (\<lambda>sz.
     Inr \<lparr>atom_id = text_or_empty (jget row ''atom''), atom_name = n, atom_size = Some sz\<rparr>))"

text \<open>The validating loop: the names and the identifiers seen, and the sum of the known sizes.\<close>

definition check_atom ::
  "atom \<Rightarrow> string list \<times> string list \<times> nat \<Rightarrow> failure + string list \<times> string list \<times> nat" where
  "check_atom x = (\<lambda>(ns, ids, sz).
     rbind (cloud_text (JStr (atom_name x)) 256 False) (\<lambda>_.
     rbind (cloud_require (guid (atom_id x) \<and> atom_name x \<notin> set ns \<and>
        ascii_lower (atom_id x) \<notin> set ids) ''invalid_response'') (\<lambda>_.
     Inr (atom_name x # ns, ascii_lower (atom_id x) # ids,
          sz + (case atom_size x of None \<Rightarrow> 0 | Some n \<Rightarrow> n)))))"

definition parse_atoms :: "limits \<Rightarrow> nat \<Rightarrow> json \<Rightarrow> failure + atom list" where
  "parse_atoms L container_size value =
     (let dictionary = is_object (jget value ''atoms'') in
      rbind (case as_object (jget value ''atoms'') of
         Some m \<Rightarrow> rbind (cloud_require (length m \<le> max_blobs L) ''bounds'') (\<lambda>_. all_ok named_atom m)
       | None \<Rightarrow>
           rbind (ok_or (as_array (jget value ''atoms'')) (Failure ''invalid_response'')) (\<lambda>rows.
           rbind (cloud_require (length rows \<le> max_blobs L) ''bounds'') (\<lambda>_.
           all_ok (listed_atom L) rows))) (\<lambda>atoms.
      rbind (rfold check_atom atoms ([], [], 0)) (\<lambda>(ns, ids, sz).
      rbind (cloud_require (dictionary \<or> sz = container_size) ''changed'') (\<lambda>_.
      Inr (sort_key atom_name atoms)))))"

definition reader_atoms ::
  "('w, 'z) transport_scheme \<Rightarrow> (u8 list \<Rightarrow> json option) \<Rightarrow> limits \<Rightarrow> nat \<Rightarrow> cloud_container \<Rightarrow>
   ('w, failure, atom list) eff" where
  "reader_atoms T parse L due c =
     ebind (reader_get T L due (Container (name c)) (json_bytes L)) (\<lambda>bytes.
     elift (rbind (cloud_json parse bytes) (parse_atoms L (csize c))))"

section \<open>What a read guarantees\<close>

lemma accept_Inr: "accept maximum r = Inr b \<Longrightarrow> b = body r \<and> status r = 200 \<and> length b \<le> maximum"
  by (auto simp: accept_def result_simps split: if_splits)

definition container_ok :: "cloud_container \<Rightarrow> bool" where
  "container_ok c \<longleftrightarrow> name c \<noteq> [] \<and> name c \<noteq> ''.'' \<and> name c \<noteq> ''..'' \<and> length (name c) \<le> 1024 \<and>
     length (display c) \<le> 256 \<and> etag c \<noteq> [] \<and> length (etag c) \<le> 1024 \<and>
     (\<forall>x \<in> set (name c @ display c @ etag c). \<not> ascii_control x)"

definition listing_ok :: "limits \<Rightarrow> listing \<Rightarrow> bool" where
  "listing_ok L g \<longleftrightarrow> names g = rev (map name (result g)) \<and> distinct (map name (result g)) \<and>
     list_all container_ok (result g) \<and> size_sum g = sum_list (map csize (result g)) \<and>
     size_sum g \<le> total_bytes L"

definition inventory_ok :: "limits \<Rightarrow> cloud_container list \<Rightarrow> bool" where
  "inventory_ok L cs \<longleftrightarrow> sorted_wrt (<) (map name cs) \<and> list_all container_ok cs \<and>
     length cs \<le> max_containers L \<and> sum_list (map csize cs) \<le> total_bytes L"

lemma listing_ok_start: "listing_ok L listing_start"
  by (simp add: listing_ok_def listing_start_def)

lemma list_row_ok:
  assumes "list_row seconds L row g = Inr g'" "listing_ok L g"
  shows "listing_ok L g'"
  using assms by (auto simp: list_row_def listing_ok_def container_ok_def result_simps Let_def
      dest!: cloud_text_Inr)

lemma sorted_wrt_sort_key:
  "distinct (map f xs) \<Longrightarrow> sorted_wrt (<) (map f (sort_key f xs))"
  by (simp add: strict_sorted_iff distinct_map)

lemma sum_list_sort_key: "sum_list (map h (sort_key f xs)) = (sum_list (map h xs) :: nat)"
  by (metis mset_map mset_sort sum_mset_sum_list)

lemma list_page_ok:
  assumes "list_page seconds L value g = Inr r" "listing_ok L g"
  shows "case r of Inl cs \<Rightarrow> inventory_ok L cs | Inr g' \<Rightarrow> listing_ok L g'"
proof -
  obtain rows tok tot h where h: "rfold (list_row seconds L) rows
       (g\<lparr>expected := Some tot, continuation := tok\<rparr>) = Inr h" "tot \<le> max_containers L"
    and r: "(\<exists>t. tok = Some t \<and> r = Inr (h\<lparr>tokens := t # tokens h\<rparr>)) \<or>
       (tok = None \<and> length (result h) = tot \<and> r = Inl (sort_key name (result h)))"
    using assms(1) by (auto simp: list_page_def result_simps dest!: cloud_number_Inr
        split: option.splits if_splits)
  have "listing_ok L (g\<lparr>expected := Some tot, continuation := tok\<rparr>)"
    using assms(2) by (simp add: listing_ok_def)
  with h(1) have ok: "listing_ok L h"
    by (rule rfold_invariant) (rule list_row_ok)
  from r show ?thesis
  proof
    assume "\<exists>t. tok = Some t \<and> r = Inr (h\<lparr>tokens := t # tokens h\<rparr>)"
    with ok show ?thesis by (auto simp: listing_ok_def)
  next
    assume r: "tok = None \<and> length (result h) = tot \<and> r = Inl (sort_key name (result h))"
    have "distinct (map name (result h))"
      using ok by (simp add: listing_ok_def)
    then have "sorted_wrt (<) (map name (sort_key name (result h)))"
      by (rule sorted_wrt_sort_key)
    with ok h(2) r show ?thesis
      by (simp add: listing_ok_def inventory_ok_def sum_list_sort_key list_all_iff)
  qed
qed

lemma list_pages_ok:
  "list_pages T parse seconds L due n g w = (Inr cs, w') \<Longrightarrow> listing_ok L g \<Longrightarrow> inventory_ok L cs"
proof (induction n arbitrary: g w)
  case (Suc n)
  from Suc.prems(1) obtain v r w1 where page: "list_page seconds L v g = Inr r"
    and rest: "(case r of Inl d \<Rightarrow> eret d | Inr g \<Rightarrow> list_pages T parse seconds L due n g) w1 = (Inr cs, w')"
    by (auto simp: ebind_def elift_def result_simps split: prod.splits sum.splits)
  from list_page_ok [OF page Suc.prems(2)] rest Suc.IH show ?case
    by (cases r) (auto simp: eret_def)
qed (simp add: efail_def)

text \<open>C10. An accepted inventory is complete in itself whatever the service answers: container names
  are well formed, distinct and sorted, and count and total size are within the limits. At most
  \<open>pages\<close> pages are read for it.\<close>

theorem inventory_bounds:
  assumes "inventory T parse seconds L w = (Inr cs, w')"
  shows "inventory_ok L cs"
  using assms list_pages_ok [OF _ listing_ok_start]
  by (auto simp: inventory_def reader_inventory_pages split: prod.splits)

definition atom_ok :: "atom \<Rightarrow> bool" where
  "atom_ok x \<longleftrightarrow> guid (atom_id x) \<and> atom_name x \<noteq> [] \<and> length (atom_name x) \<le> 256 \<and>
     (\<forall>c \<in> set (atom_name x). \<not> ascii_control c)"

definition known_size :: "atom \<Rightarrow> nat" where
  "known_size x = (case atom_size x of None \<Rightarrow> 0 | Some n \<Rightarrow> n)"

lemma check_atom_Inr:
  "check_atom x (ns, ids, sz) = Inr st \<longleftrightarrow>
     st = (atom_name x # ns, ascii_lower (atom_id x) # ids, sz + known_size x) \<and> atom_ok x \<and>
     atom_name x \<notin> set ns \<and> ascii_lower (atom_id x) \<notin> set ids"
  by (auto simp: check_atom_def result_simps atom_ok_def known_size_def cloud_text_def list_ex_iff)

lemma check_atoms:
  "rfold check_atom xs (ns, ids, sz) = Inr (ns', ids', sz') \<Longrightarrow> distinct ns \<Longrightarrow> distinct ids \<Longrightarrow>
   ns' = rev (map atom_name xs) @ ns \<and> ids' = rev (map (ascii_lower \<circ> atom_id) xs) @ ids \<and>
   distinct ns' \<and> distinct ids' \<and> list_all atom_ok xs \<and> sz' = sz + sum_list (map known_size xs)"
proof (induction xs arbitrary: ns ids sz)
  case (Cons x xs)
  from Cons.prems(1) have x: "atom_ok x" "atom_name x \<notin> set ns" "ascii_lower (atom_id x) \<notin> set ids"
    and rest: "rfold check_atom xs (atom_name x # ns, ascii_lower (atom_id x) # ids, sz + known_size x)
      = Inr (ns', ids', sz')"
    by (auto simp: check_atom_Inr result_simps)
  from Cons.IH [OF rest] x Cons.prems(2,3) show ?case by (auto simp: disjoint_iff)
qed auto

text \<open>The atoms of a container are valid identifiers, pairwise different even up to letter case,
  under distinct sorted names; when the service lists their sizes these add up to the container.\<close>

theorem parse_atoms_ok:
  assumes "parse_atoms L n value = Inr xs"
  shows "sorted_wrt (<) (map atom_name xs) \<and> distinct (map (ascii_lower \<circ> atom_id) xs) \<and>
    list_all atom_ok xs \<and> length xs \<le> max_blobs L \<and>
    (is_object (jget value ''atoms'') \<or> sum_list (map known_size xs) = n)"
proof -
  obtain ys ns ids sz where ys: "rfold check_atom ys ([], [], 0) = Inr (ns, ids, sz)"
      "is_object (jget value ''atoms'') \<or> sz = n" "xs = sort_key atom_name ys" "length ys \<le> max_blobs L"
    using assms by (auto simp: parse_atoms_def Let_def result_simps dest!: all_ok_Inr_length
        split: option.splits prod.splits)
  from check_atoms [OF ys(1)] have d: "distinct (map atom_name ys)"
      "distinct (map (ascii_lower \<circ> atom_id) ys)" "list_all atom_ok ys" "sz = sum_list (map known_size ys)"
    by auto
  have "distinct (map (ascii_lower \<circ> atom_id) xs)"
    using d(2) unfolding ys(3) by (auto simp: distinct_map)
  then show ?thesis
    using sorted_wrt_sort_key [OF d(1)] d ys
    by (simp add: sum_list_sort_key list_all_iff)
qed

section \<open>The binding\<close>

definition scope_ok :: "scope \<Rightarrow> bool" where
  "scope_ok s \<longleftrightarrow> (\<exists>x sc p t. scope_new x sc p t = Inr s)"

lemma guid_length: "guid v \<Longrightarrow> length v = 36"
  by (simp add: guid_def)

lemma show_nat_length: "n < 10 ^ k \<Longrightarrow> 0 < k \<Longrightarrow> length (show_nat n) \<le> k"
proof (induction k arbitrary: n)
  case (Suc k)
  show ?case
  proof (cases "n < 10")
    case False
    then have "0 < k"
      using Suc.prems by (cases k) auto
    moreover have "n div 10 < 10 ^ k"
      using Suc.prems by (simp add: less_mult_imp_div_less)
    ultimately have "length (show_nat (n div 10)) \<le> k"
      by (rule Suc.IH [rotated])
    with False show ?thesis by (subst show_nat.simps) simp
  qed (subst show_nat.simps, simp)
qed simp

lemma u32_le_10: "unat (t :: u32) < 10 ^ 10"
  using unsigned_less [of t, where 'a = nat] by simp

lemma scope_ok_bounds:
  "scope_ok s \<Longrightarrow> length (xuid s) \<le> 20 \<and> length (scid s) = 36 \<and> length (pfn s) \<le> 255"
  by (auto simp: scope_ok_def scope_new_def result_simps guid_length)

definition framed :: "string \<Rightarrow> u8 list" where
  "framed v = be32 (word_of_nat (length v)) @ bytes_of v"

lemma framed_append_inject:
  assumes "framed v @ a = framed w @ b" "length v < 4294967296" "length w < 4294967296"
  shows "v = w \<and> a = b"
proof -
  have eq: "be32 (word_of_nat (length v)) = be32 (word_of_nat (length w))"
    and rest: "bytes_of v @ a = bytes_of w @ b"
    using assms(1) by (simp_all add: framed_def be32_def append_eq_append_conv)
  then have "word_of_nat (length v) = (word_of_nat (length w) :: u32)"
    by (metis be32_def from_le32_le32 rev_rev_ident)
  then have "length v = length w"
    using assms(2,3) unat_word32_of_nat by metis
  with rest have "bytes_of v = bytes_of w" "a = b" by auto
  then show ?thesis by (metis str_of_bytes_of)
qed

text \<open>C11. Unless SHA-256 collides, two accepted scopes have the same binding only when they are the
  same scope: the fields are framed, so no shift between them goes unnoticed.\<close>

theorem scope_binding_inject:
  assumes "scope_ok s" "scope_ok t" "scope_binding H s = scope_binding H t"
    and "H (binding_preimage s) = H (binding_preimage t) \<Longrightarrow> binding_preimage s = binding_preimage t"
  shows "s = t"
proof -
  have "binding_preimage s = binding_preimage t"
    using assms(3,4) by (simp add: scope_binding_def hex_encode_inj)
  then have eq: "framed (xuid s) @ framed (scid s) @ framed (pfn s) @ framed (show_nat (unat (title_id s))) @ [] =
      framed (xuid t) @ framed (scid t) @ framed (pfn t) @ framed (show_nat (unat (title_id t))) @ []"
    by (simp add: binding_preimage_def framed_def)
  note b = scope_ok_bounds [OF assms(1)] scope_ok_bounds [OF assms(2)]
    show_nat_length [OF u32_le_10 [of "title_id s"]] show_nat_length [OF u32_le_10 [of "title_id t"]]
  have x: "xuid s = xuid t" and e1: "framed (scid s) @ framed (pfn s) @ framed (show_nat (unat (title_id s))) @ [] =
      framed (scid t) @ framed (pfn t) @ framed (show_nat (unat (title_id t))) @ []"
    using framed_append_inject [OF eq] b by auto
  have sc: "scid s = scid t" and e2: "framed (pfn s) @ framed (show_nat (unat (title_id s))) @ [] =
      framed (pfn t) @ framed (show_nat (unat (title_id t))) @ []"
    using framed_append_inject [OF e1] b by auto
  have p: "pfn s = pfn t" and e3: "framed (show_nat (unat (title_id s))) @ [] = framed (show_nat (unat (title_id t))) @ []"
    using framed_append_inject [OF e2] b by auto
  have "show_nat (unat (title_id s)) = show_nat (unat (title_id t))"
    using framed_append_inject [OF e3] b by auto
  then have "unat (title_id s) = unat (title_id t)"
    by (metis digits_value_show)
  then show ?thesis
    using x sc p by (simp add: word_unat_eq_iff)
qed

section \<open>Witnesses\<close>

definition w_guid :: string where
  "w_guid = ''01234567-89AB-cdef-0123-456789abcdef''"

definition w_page :: json where
  "w_page = JObj [(''blobs'', JArr [
       JObj [(''fileName'', JStr ''b''), (''displayName'', JStr []), (''etag'', JStr ''e''),
         (''clientFileTime'', JStr ''2024-05-01T10:00:00.5+02:00''), (''size'', jnum 3)],
       JObj [(''fileName'', JStr ''a''), (''displayName'', JStr ''A''), (''etag'', JStr ''e''),
         (''clientFileTime'', jnum 7), (''size'', jnum 4)]]),
     (''pagingInfo'', JObj [(''continuationToken'', JNull), (''totalItems'', jnum 2)])]"

definition w_transport :: "unit transport" where
  "w_transport = \<lparr>transport_scope = (\<lambda>_. \<lparr>xuid = ''1'', scid = w_guid, pfn = ''p'', title_id = 1\<rparr>),
     read_op = (\<lambda>_ _ _ w. (Inr \<lparr>status = 200, headers = [(''Content-Length'', ''1'')], body = [0]\<rparr>, w)),
     load_cancel = (\<lambda>w. (False, w)), clock = (\<lambda>w. (0, w))\<rparr>"

theorem inventory_bounds_witness:
  "\<exists>cs. inventory w_transport (\<lambda>_. Some w_page) (\<lambda>_. Some 1714557600) limits_default () = (Inr cs, ()) \<and>
     map name cs = [''a'', ''b''] \<and> map client_file_time cs = [7, 133590240005000000] \<and>
     inventory_ok limits_default cs"
proof -
  let ?r = "inventory w_transport (\<lambda>_. Some w_page) (\<lambda>_. Some 1714557600) limits_default ()"
  have r: "?r = (Inr (fst (the (map_option (\<lambda>x. (x, ())) (case fst ?r of Inr cs \<Rightarrow> Some cs | _ \<Rightarrow> None)))), ())"
    and n: "(case fst ?r of Inr cs \<Rightarrow> map name cs | _ \<Rightarrow> []) = [''a'', ''b'']"
    and f: "(case fst ?r of Inr cs \<Rightarrow> map client_file_time cs | _ \<Rightarrow> []) = [7, 133590240005000000]"
    by code_simp+
  from r obtain cs where cs: "?r = (Inr cs, ())" by blast
  from inventory_bounds [OF cs] cs n f show ?thesis by simp
qed

theorem parse_atoms_ok_witness:
  "\<exists>xs. parse_atoms limits_default 9 (JObj [(''atoms'', JObj [(''n'', JStr (w_guid @ '',binary''))])]) = Inr xs \<and>
     length xs = 1 \<and> list_all atom_ok xs"
proof -
  have "parse_atoms limits_default 9 (JObj [(''atoms'', JObj [(''n'', JStr (w_guid @ '',binary''))])]) =
      Inr [\<lparr>atom_id = w_guid, atom_name = ''n'', atom_size = None\<rparr>]"
    by code_simp
  from parse_atoms_ok [OF this] this show ?thesis by auto
qed

definition w_scope :: "char \<Rightarrow> scope" where
  "w_scope c = \<lparr>xuid = [c], scid = ascii_lower w_guid, pfn = ''p'', title_id = 1\<rparr>"

text \<open>A stand-in digest that keeps the byte in which two preimages differ.\<close>

theorem scope_binding_inject_witness:
  "scope_binding (\<lambda>b. b) (w_scope (CHR ''1'')) \<noteq> scope_binding (\<lambda>b. b) (w_scope (CHR ''2''))"
proof
  assume eq: "scope_binding (\<lambda>b. b) (w_scope (CHR ''1'')) = scope_binding (\<lambda>b. b) (w_scope (CHR ''2''))"
  have "scope_new ''1'' w_guid ''p'' 1 = Inr (w_scope (CHR ''1''))"
      "scope_new ''2'' w_guid ''p'' 1 = Inr (w_scope (CHR ''2''))"
    by code_simp+
  then have "scope_ok (w_scope (CHR ''1''))" "scope_ok (w_scope (CHR ''2''))"
    unfolding scope_ok_def by blast+
  from scope_binding_inject [OF this eq] show False
    by (simp add: w_scope_def)
qed

end
