(* ===== verification/CloudWrite.thy ===== *)
theory CloudWrite
  imports CloudStorage
begin

text \<open>
  \<^verbatim>\<open>native/cloud_write.rs\<close>: the exclusive upload of a save under a cloud lease. The service, the
  clock, the cancellation flag and the check of the local save are operations on a world \<open>'w\<close>; the
  run keeps the fields of the source's \<^verbatim>\<open>Write\<close>. \<open>logged\<close> records the calls a run makes to any
  service, and the properties are about those records.
\<close>

section \<open>Interface and state\<close>

record lease_reply =
  lease_status :: u16
  owner_change_id :: string
  quota_bytes :: u64

record 'w operations = "'w transport" +
  acquire :: "nat \<Rightarrow> 'w \<Rightarrow> (failure + lease_reply) \<times> 'w"
  renew_lease :: "nat \<Rightarrow> 'w \<Rightarrow> (failure + lease_reply) \<times> 'w"
  release :: "nat \<Rightarrow> 'w \<Rightarrow> (failure + u16) \<times> 'w"
  upload_atom :: "u8 list \<Rightarrow> nat \<Rightarrow> 'w \<Rightarrow> (failure + string) \<times> 'w"
  put_container :: "string \<Rightarrow> string \<Rightarrow> u64 \<Rightarrow> (string, string) btree \<Rightarrow> nat \<Rightarrow> 'w \<Rightarrow> (failure + u16) \<times> 'w"
  delete_container :: "string \<Rightarrow> nat \<Rightarrow> 'w \<Rightarrow> (failure + u16) \<times> 'w"
  remote_state :: "nat \<Rightarrow> string list \<Rightarrow> 'w \<Rightarrow> (failure + state) \<times> 'w"

record write_limits =
  op_limit :: nat
  blob_limit :: nat
  total_limit :: nat
  call_timeout :: nat
  run_deadline :: nat
  cleanup :: nat

definition write_limits_default :: write_limits where
  "write_limits_default = \<lparr>op_limit = 8192, blob_limit = 67108864, total_limit = QUOTA,
     call_timeout = 30000000000, run_deadline = 600000000000, cleanup = 10000000000\<rparr>"

record receipt =
  receipt_binding :: string
  receipt_source :: string
  receipt_before :: string
  changed :: nat
  container_count :: nat
  blob_count :: nat
  total_size :: nat
  released :: bool

definition receipt_verifies :: "receipt \<Rightarrow> string \<Rightarrow> string \<Rightarrow> bool" where
  "receipt_verifies r b src \<longleftrightarrow> receipt_binding r = b \<and> receipt_source r = src"

record 'w run =
  world :: 'w
  operations :: nat
  committed :: nat
  mutation_attempted :: bool
  acquired :: bool
  owner :: "string option"
  mutated :: "string list"

type_synonym ('w, 'a) step = "('w run, failure, 'a) eff"

definition call :: "('w, failure, 'a) eff \<Rightarrow> ('w, 'a) step" where
  "call m r = (case m (world r) of (x, w) \<Rightarrow> (x, r\<lparr>world := w\<rparr>))"

text \<open>What a run is given: the service, the check of the local save, the limits and the deadline.\<close>

record 'w setting =
  ops :: "'w operations"
  assert_local :: "('w, failure, unit) eff"
  wlimits :: write_limits
  due :: nat
  hash :: "u8 list \<Rightarrow> u8 list"

section \<open>Digests of a save\<close>

definition import_digest :: "(u8 list \<Rightarrow> u8 list) \<Rightarrow> state \<Rightarrow> failure + string" where
  "import_digest H st = map_err (\<lambda>_. Failure ''unsupported'') (content_digest H st)"

definition counts :: "state \<Rightarrow> nat \<times> nat \<times> nat" where
  "counts st = (length (containers st),
     sum_list (map (\<lambda>(k, c). length (blobs c)) (containers st)),
     sum_list (map (\<lambda>(k, c). sum_list (map (\<lambda>(n, b). length b) (blobs c))) (containers st)))"

definition entry_digest ::
  "(u8 list \<Rightarrow> u8 list) \<Rightarrow> string \<Rightarrow> container option \<Rightarrow> failure + string option" where
  "entry_digest H n entry = (case entry of None \<Rightarrow> Inr None
     | Some v \<Rightarrow> rbind (import_digest H \<lparr>generation = 0, containers = [(n, v)]\<rparr>) (\<lambda>d. Inr (Some d)))"

section \<open>The steps of a run\<close>

definition write_check :: "'w setting \<Rightarrow> ('w, nat) step" where
  "write_check S =
     ebind (call (check_time (ops S) (due S))) (\<lambda>t.
     ebind (etry (call (assert_local S))) (\<lambda>a.
     case a of Inl _ \<Rightarrow> efail (Failure ''local_changed'') | Inr _ \<Rightarrow> eret t))"

definition budget :: "'w setting \<Rightarrow> ('w, nat) step" where
  "budget S =
     ebind (write_check S) (\<lambda>t.
     eseq (emod (\<lambda>r. r\<lparr>operations := operations r + 1\<rparr>)) (
     ebind (eget operations) (\<lambda>n.
     eseq (elift (cloud_require (n \<le> op_limit (wlimits S)) ''bounds'')) (
     eret (min t (call_timeout (wlimits S)))))))"

definition remote :: "'w setting \<Rightarrow> string list \<Rightarrow> ('w, state) step" where
  "remote S force =
     ebind (write_check S) (\<lambda>t.
     ebind (call (remote_state (ops S) t force)) (\<lambda>st.
     eseq (elift (map_err (\<lambda>_. Failure ''invalid_input'') (encode (hash S) st))) (
     eseq (write_check S) (
     eret st))))"

definition set_acquired :: "bool \<Rightarrow> ('w, unit) step" where
  "set_acquired b = emod (\<lambda>r. r\<lparr>acquired := b\<rparr>)"

definition lease :: "'w setting \<Rightarrow> lease_reply \<Rightarrow> bool \<Rightarrow> ('w, nat) step" where
  "lease S reply first =
     eseq (let s = lease_status reply in
       if s = 401 \<or> s = 403 then
         eseq (set_acquired False) (efail (with_status s (Failure ''authentication'')))
       else if s = 409 then
         eseq (set_acquired False) (efail (with_status 409 (Failure ''lease_lost'')))
       else if s = 200 \<or> s = 201 then eret ()
       else efail (with_status s (Failure ''transport''))) (
     eseq (elift (cloud_require (owner_change_id reply \<noteq> [] \<and> length (owner_change_id reply) \<le> 1024 \<and>
        \<not> list_ex ascii_control (owner_change_id reply) \<and> quota_bytes reply > 0) ''invalid_response'')) (
     ebind (eget owner) (\<lambda>own.
     eseq (if first then
         emod (\<lambda>r. r\<lparr>owner := Some (owner_change_id reply), acquired := True\<rparr>)
       else if lease_status reply = 201 then
         eseq (set_acquired True) (efail (Failure ''lease_lost''))
       else if own \<noteq> Some (owner_change_id reply) then
         eseq (set_acquired False) (efail (Failure ''lease_lost''))
       else set_acquired True) (
     eseq (write_check S) (
     eret (unat (quota_bytes reply)))))))"

definition renew :: "'w setting \<Rightarrow> ('w, unit) step" where
  "renew S =
     ebind (budget S) (\<lambda>t.
     eseq (set_acquired False) (
     ebind (call (renew_lease (ops S) t)) (\<lambda>reply.
     eseq (lease S reply False) (
     eret ()))))"

definition confirm :: "'w setting \<Rightarrow> string \<Rightarrow> container option \<Rightarrow> ('w, unit) step" where
  "confirm S n want =
     eseq (renew S) (
     ebind (remote S [n]) (\<lambda>actual.
     ebind (elift (entry_digest (hash S) n (bt_get (containers actual) n))) (\<lambda>a.
     ebind (elift (entry_digest (hash S) n want)) (\<lambda>b.
     eseq (elift (cloud_require (a = b) ''readback'')) (
     eseq (renew S) (
     emod (\<lambda>r. r\<lparr>committed := committed r + 1\<rparr>)))))))"

definition mutate ::
  "'w setting \<Rightarrow> string \<Rightarrow> container option \<Rightarrow> (string, string) btree \<Rightarrow> nat \<Rightarrow> ('w, u16) step" where
  "mutate S n entry atoms t =
     (case entry of
        Some c \<Rightarrow> call (put_container (ops S) (n @ '',savedgame'') (display_name c) (modified c) atoms t)
      | None \<Rightarrow> call (delete_container (ops S) (n @ '',savedgame'') t))"

text \<open>A rejection loses the lease. Any other answer may hide a success, so it is read back.\<close>

definition mutation_reply :: "failure + u16 \<Rightarrow> ('w, unit) step" where
  "mutation_reply reply = (case reply of
      Inr s \<Rightarrow>
        if s = 409 then
          eseq (set_acquired False) (efail (with_status 409 (Failure ''lease_lost'')))
        else if s = 401 \<or> s = 403 then
          eseq (set_acquired False) (efail (with_status s (Failure ''authentication'')))
        else eret ()
    | Inl _ \<Rightarrow> eret ())"

definition commit ::
  "'w setting \<Rightarrow> string \<Rightarrow> container option \<Rightarrow> (string, string) btree \<Rightarrow> ('w, unit) step" where
  "commit S n entry atoms =
     eseq (renew S) (
     eseq (write_check S) (
     eseq (emod (\<lambda>r. r\<lparr>mutation_attempted := True, mutated := sorted_set (n # mutated r)\<rparr>)) (
     ebind (budget S) (\<lambda>t.
     ebind (etry (mutate S n entry atoms t)) (\<lambda>reply.
     eseq (mutation_reply reply) (
     confirm S n entry))))))"

definition upload_blob ::
  "'w setting \<Rightarrow> string \<times> u8 list \<Rightarrow> (string, string) btree \<times> string list \<Rightarrow>
   ('w, (string, string) btree \<times> string list) step" where
  "upload_blob S = (\<lambda>(blob, payload) (atoms, ids).
     ebind (budget S) (\<lambda>t.
     ebind (call (upload_atom (ops S) payload t)) (\<lambda>atom.
     eseq (elift (cloud_require (guid atom \<and> ascii_lower atom \<notin> set ids) ''invalid_response'')) (
     eseq (write_check S) (
     eret (bt_put blob atom atoms, ascii_lower atom # ids))))))"

definition upload_atoms :: "'w setting \<Rightarrow> container option \<Rightarrow> ('w, (string, string) btree) step" where
  "upload_atoms S want = (case want of None \<Rightarrow> eret []
     | Some c \<Rightarrow>
        eseq (renew S) (
        ebind (efor (upload_blob S) (blobs c) ([], [])) (\<lambda>(atoms, ids).
        eret atoms)))"

text \<open>One container of the loop: nothing to do when both sides have it with the same content.\<close>

definition upload_container :: "'w setting \<Rightarrow> state \<Rightarrow> state \<Rightarrow> string \<Rightarrow> unit \<Rightarrow> ('w, unit) step" where
  "upload_container S local rem n = (\<lambda>_.
     let want = bt_get (containers local) n; old = bt_get (containers rem) n in
     ebind (if want \<noteq> None \<and> old \<noteq> None then
         ebind (elift (entry_digest (hash S) n want)) (\<lambda>a.
         ebind (elift (entry_digest (hash S) n old)) (\<lambda>b.
         eret (a = b)))
       else eret False) (\<lambda>same.
     if same then eret ()
     else ebind (upload_atoms S want) (\<lambda>atoms. commit S n want atoms)))"

definition upload_run :: "'w setting \<Rightarrow> state \<Rightarrow> string \<Rightarrow> string \<Rightarrow> nat \<Rightarrow> ('w, unit) step" where
  "upload_run S local want source size_total =
     ebind (budget S) (\<lambda>t.
     ebind (call (acquire (ops S) t)) (\<lambda>reply.
     ebind (lease S reply True) (\<lambda>quota.
     eseq (elift (cloud_require (size_total \<le> quota) ''quota'')) (
     ebind (remote S []) (\<lambda>rem.
     ebind (elift (import_digest (hash S) rem)) (\<lambda>d.
     eseq (elift (cloud_require (d = want) ''conflict'')) (
     eseq (renew S) (
     eseq (efor (upload_container S local rem)
       (sorted_set (bt_keys (containers local) @ bt_keys (containers rem))) ()) (
     eseq (renew S) (
     ebind (eget mutated) (\<lambda>forced.
     ebind (remote S forced) (\<lambda>final.
     ebind (elift (import_digest (hash S) final)) (\<lambda>f.
     eseq (elift (cloud_require (f = source) ''readback'')) (
     renew S))))))))))))))"

definition run_start :: "'w \<Rightarrow> 'w run" where
  "run_start w = \<lparr>world = w, operations = 0, committed = 0, mutation_attempted = False,
     acquired = False, owner = None, mutated = []\<rparr>"

text \<open>After the run: a rejected lease is not released, a held one is; a failure reports what it
  left behind.\<close>

definition finish_run :: "'w setting \<Rightarrow> (failure + unit) \<times> 'w run \<Rightarrow> (failure + unit) \<times> bool \<times> 'w run" where
  "finish_run S = (\<lambda>(res, r).
     let r = (case res of
          Inl e \<Rightarrow> (case http_status e of Some s \<Rightarrow>
              if s = 401 \<or> s = 403 \<or> s = 409 then r\<lparr>acquired := False\<rparr> else r | None \<Rightarrow> r)
        | Inr _ \<Rightarrow> r)
     in if acquired r then
          (case call (release (ops S) (cleanup (wlimits S))) r of (s, r) \<Rightarrow>
             (res, (case s of Inr c \<Rightarrow> c = 200 \<or> c = 204 | Inl _ \<Rightarrow> False), r))
        else (res, False, r))"

definition failed :: "'w run \<Rightarrow> failure \<Rightarrow> failure" where
  "failed r e = e\<lparr>committed_containers := committed r, recovery_required := mutation_attempted r\<rparr>"

definition upload ::
  "(u8 list \<Rightarrow> u8 list) \<Rightarrow> scope \<Rightarrow> 'w operations \<Rightarrow> state \<Rightarrow> string \<Rightarrow> ('w, failure, unit) eff \<Rightarrow>
   write_limits \<Rightarrow> 'w \<Rightarrow> (failure + receipt) \<times> 'w" where
  "upload H sc T local want unchanged L w =
     (case (rbind (cloud_require (transport_scope T w = sc) ''invalid_scope'') (\<lambda>_.
            rbind (cloud_require (hex_digest want) ''invalid_input'') (\<lambda>_.
            rbind (map_err (\<lambda>_. Failure ''invalid_input'') (encode H local)) (\<lambda>_.
            rbind (import_digest H local) (\<lambda>source.
            rbind (cloud_require (snd (snd (counts local)) \<le> total_limit L \<and>
               list_all (\<lambda>(k, c). list_all (\<lambda>(n, b). length b \<le> blob_limit L) (blobs c)) (containers local))
               ''bounds'') (\<lambda>_.
            Inr source)))))) of
       Inl e \<Rightarrow> (Inl e, w)
     | Inr source \<Rightarrow>
        (case counts local of (nc, nb, size_total) \<Rightarrow>
        (case clock T w of (now, w) \<Rightarrow>
         let S = \<lparr>ops = T, assert_local = unchanged, wlimits = L, due = now + run_deadline L, hash = H\<rparr> in
         (case finish_run S (upload_run S local want source size_total (run_start w)) of
            (Inl e, _, r) \<Rightarrow> (Inl (failed r e), world r)
          | (Inr _, rel, r) \<Rightarrow>
              (Inr \<lparr>receipt_binding = scope_binding H sc, receipt_source = source, receipt_before = want,
                 changed = committed r, container_count = nc, blob_count = nb, total_size = size_total,
                 released = rel\<rparr>, world r)))))"

end
