(* ===== verification/CloudWriteLog.thy ===== *)
theory CloudWriteLog
  imports CloudWrite
begin

text \<open>
  What an upload does to the service: \<open>logged\<close> adds to any service the record of its calls, the
  locale \<open>logged_run\<close> proves the steps of a run against such a record once, and the properties of
  \<^verbatim>\<open>upload\<close> follow for every service, clock and cancellation.
\<close>

section \<open>The record of calls\<close>

datatype event =
    EAcquire "failure + lease_reply"
  | ERenew "failure + lease_reply"
  | ERelease "failure + u16"
  | EAtom "u8 list" "failure + string"
  | EPut string "failure + u16"
  | EDelete string "failure + u16"
  | ERemote "string list" "failure + state"

type_synonym 'w traced = "'w \<times> event list"

definition silent :: "('w \<Rightarrow> 'a \<times> 'w) \<Rightarrow> 'w traced \<Rightarrow> 'a \<times> 'w traced" where
  "silent m = (\<lambda>(w, l). case m w of (a, w') \<Rightarrow> (a, (w', l)))"

definition note_call :: "('a \<Rightarrow> event) \<Rightarrow> ('w \<Rightarrow> 'a \<times> 'w) \<Rightarrow> 'w traced \<Rightarrow> 'a \<times> 'w traced" where
  "note_call ev m = (\<lambda>(w, l). case m w of (a, w') \<Rightarrow> (a, (w', l @ [ev a])))"

definition logged :: "'w operations \<Rightarrow> 'w traced operations" where
  "logged T = \<lparr>transport_scope = (\<lambda>(w, l). transport_scope T w),
     read_op = (\<lambda>p t m. silent (read_op T p t m)),
     load_cancel = silent (load_cancel T),
     clock = silent (clock T),
     acquire = (\<lambda>t. note_call EAcquire (acquire T t)),
     renew_lease = (\<lambda>t. note_call ERenew (renew_lease T t)),
     release = (\<lambda>t. note_call ERelease (release T t)),
     upload_atom = (\<lambda>p t. note_call (EAtom p) (upload_atom T p t)),
     put_container = (\<lambda>n d m a t. note_call (EPut n) (put_container T n d m a t)),
     delete_container = (\<lambda>n t. note_call (EDelete n) (delete_container T n t)),
     remote_state = (\<lambda>t f. note_call (ERemote f) (remote_state T t f))\<rparr>"

lemma logged_simps [simp]:
  "load_cancel (logged T) = silent (load_cancel T)"
  "clock (logged T) = silent (clock T)"
  "acquire (logged T) t = note_call EAcquire (acquire T t)"
  "renew_lease (logged T) t = note_call ERenew (renew_lease T t)"
  "release (logged T) t = note_call ERelease (release T t)"
  "upload_atom (logged T) p t = note_call (EAtom p) (upload_atom T p t)"
  "put_container (logged T) n d m a t = note_call (EPut n) (put_container T n d m a t)"
  "delete_container (logged T) n t = note_call (EDelete n) (delete_container T n t)"
  "remote_state (logged T) t f = note_call (ERemote f) (remote_state T t f)"
  "transport_scope (logged T) (w, l) = transport_scope T w"
  by (simp_all add: logged_def)

section \<open>The lease as the record shows it\<close>

definition reply_ok :: "lease_reply \<Rightarrow> bool" where
  "reply_ok r \<longleftrightarrow> owner_change_id r \<noteq> [] \<and> length (owner_change_id r) \<le> 1024 \<and>
     \<not> list_ex ascii_control (owner_change_id r) \<and> quota_bytes r > 0"

text \<open>The owner fixed by the acquisition, and whether the lease is known to be held: a renewal must
  confirm the same owner (or a newly granted lease), a rejected mutation loses it.\<close>

definition lease_step :: "event \<Rightarrow> string option \<times> bool \<Rightarrow> string option \<times> bool" where
  "lease_step e = (\<lambda>(own, held). case e of
       EAcquire (Inr r) \<Rightarrow>
         if lease_status r \<in> {200, 201} \<and> reply_ok r then (Some (owner_change_id r), True) else (own, False)
     | EAcquire (Inl _) \<Rightarrow> (own, False)
     | ERenew (Inr r) \<Rightarrow>
         (own, reply_ok r \<and> (lease_status r = 201 \<or> lease_status r = 200 \<and> own = Some (owner_change_id r)))
     | ERenew (Inl _) \<Rightarrow> (own, False)
     | EPut _ (Inr s) \<Rightarrow> (own, held \<and> s \<notin> {401, 403, 409})
     | EDelete _ (Inr s) \<Rightarrow> (own, held \<and> s \<notin> {401, 403, 409})
     | _ \<Rightarrow> (own, held))"

definition lease_of :: "event list \<Rightarrow> string option \<times> bool" where
  "lease_of l = fold lease_step l (None, False)"

abbreviation held :: "event list \<Rightarrow> bool" where
  "held l \<equiv> snd (lease_of l)"

lemma lease_of_snoc: "lease_of (l @ [e]) = lease_step e (lease_of l)"
  by (simp add: lease_of_def)

fun is_write :: "event \<Rightarrow> bool" where
  "is_write (EAtom _ _) = True"
| "is_write (EPut _ _) = True"
| "is_write (EDelete _ _) = True"
| "is_write (ERelease _) = True"
| "is_write _ = False"

fun budgeted :: "event \<Rightarrow> bool" where
  "budgeted (ERelease _) = False"
| "budgeted (ERemote _ _) = False"
| "budgeted _ = True"

fun mutation :: "event \<Rightarrow> string list" where
  "mutation (EPut n _) = [n]"
| "mutation (EDelete n _) = [n]"
| "mutation _ = []"

definition mutations :: "event list \<Rightarrow> string list" where
  "mutations l = concat (map mutation l)"

definition cost :: "event list \<Rightarrow> nat" where
  "cost l = length (filter budgeted l)"

definition released_in :: "event list \<Rightarrow> bool" where
  "released_in l \<longleftrightarrow> (\<exists>x. ERelease x \<in> set l)"

lemma released_in_simps [simp]:
  "\<not> released_in []"
  "released_in (l @ [e]) \<longleftrightarrow> released_in l \<or> (\<exists>x. e = ERelease x)"
  by (auto simp: released_in_def)

text \<open>Every write happened while the lease was held.\<close>

definition fenced :: "event list \<Rightarrow> bool" where
  "fenced l \<longleftrightarrow> (\<forall>pre e post. l = pre @ e # post \<longrightarrow> is_write e \<longrightarrow> held pre)"

lemma fenced_Nil [simp]: "fenced []"
  by (simp add: fenced_def)

lemma fenced_snoc: "fenced (l @ [e]) \<longleftrightarrow> fenced l \<and> (is_write e \<longrightarrow> held l)"
proof
  assume f: "fenced (l @ [e])"
  show "fenced l \<and> (is_write e \<longrightarrow> held l)"
    using f unfolding fenced_def by (metis append.assoc append_Cons append_Nil2)
next
  assume f: "fenced l \<and> (is_write e \<longrightarrow> held l)"
  show "fenced (l @ [e])"
    unfolding fenced_def
  proof (intro allI impI)
    fix pre x post
    assume eq: "l @ [e] = pre @ x # post" and w: "is_write x"
    show "held pre"
    proof (cases post rule: rev_cases)
      case Nil
      with eq have "l = pre" "e = x" by auto
      with f w show ?thesis by simp
    next
      case (snoc qs q)
      with eq have "l = pre @ x # qs" by simp
      with f w show ?thesis unfolding fenced_def by blast
    qed
  qed
qed

lemma mutations_snoc [simp]: "mutations (l @ [e]) = mutations l @ mutation e"
  by (simp add: mutations_def)

lemma cost_snoc [simp]: "cost (l @ [e]) = cost l + (if budgeted e then 1 else 0)"
  by (simp add: cost_def)

lemma mutations_Nil [simp]: "mutations [] = []" and cost_Nil [simp]: "cost [] = 0"
  by (simp_all add: mutations_def cost_def)

section \<open>Steps against a record\<close>

abbreviation lg :: "'w traced run \<Rightarrow> event list" where
  "lg r \<equiv> snd (world r)"

definition wire_name :: "string \<Rightarrow> string" where
  "wire_name n = n @ '',savedgame''"

text \<open>The run's own account of its mutations.\<close>

definition run_bookkeeping :: "'w traced run \<Rightarrow> bool" where
  "run_bookkeeping r \<longleftrightarrow> set (mutations (lg r)) \<subseteq> wire_name ` set (mutated r) \<and>
     (mutations (lg r) \<noteq> [] \<longrightarrow> mutation_attempted r) \<and> committed r \<le> length (mutations (lg r))"

text \<open>What every step keeps: the record is fenced, the flag \<^verbatim>\<open>acquired\<close> implies a held lease, the
  remembered owner is the one of the record, and the calls are within the count and the limit.\<close>

definition run_inv :: "nat \<Rightarrow> 'w traced run \<Rightarrow> bool" where
  "run_inv n r \<longleftrightarrow> fenced (lg r) \<and> (acquired r \<longrightarrow> held (lg r)) \<and> owner r = fst (lease_of (lg r)) \<and>
     cost (lg r) \<le> operations r \<and> cost (lg r) \<le> n \<and> run_bookkeeping r \<and>
     \<not> released_in (lg r)"

text \<open>Steps that leave the saves alone: the record grows by calls that mutate unmutated.\<close>

definition quiet :: "'w traced run \<Rightarrow> 'w traced run \<Rightarrow> bool" where
  "quiet r t \<longleftrightarrow> prefix (lg r) (lg t) \<and> mutations (lg t) = mutations (lg r) \<and>
     mutation_attempted t = mutation_attempted r \<and> mutated t = mutated r \<and> committed t = committed r"

lemma quiet_refl [simp]: "quiet r r"
  by (simp add: quiet_def)

lemma quiet_trans: "quiet r s \<Longrightarrow> quiet s t \<Longrightarrow> quiet r t"
  by (auto simp: quiet_def intro: prefix_order.trans)

lemma bookkeeping_cong:
  "mutations (lg s) = mutations (lg r) \<Longrightarrow> mutated s = mutated r \<Longrightarrow>
   mutation_attempted s = mutation_attempted r \<Longrightarrow> committed s = committed r \<Longrightarrow>
   run_bookkeeping s = run_bookkeeping r"
  by (simp add: run_bookkeeping_def)

lemma bookkeeping_simps [simp]:
  "run_bookkeeping (r\<lparr>acquired := b\<rparr>) = run_bookkeeping r"
  "run_bookkeeping (r\<lparr>owner := v\<rparr>) = run_bookkeeping r"
  "run_bookkeeping (r\<lparr>operations := k\<rparr>) = run_bookkeeping r"
  "mutations l = mutations (lg r) \<Longrightarrow> run_bookkeeping (r\<lparr>world := (w, l)\<rparr>) = run_bookkeeping r"
  by (simp_all add: run_bookkeeping_def)

lemma run_inv_simps [simp]:
  "run_inv n (r\<lparr>world := (w, lg r)\<rparr>) = run_inv n r"
  "quiet r (t\<lparr>world := (w, lg t)\<rparr>) = quiet r t"
  by (simp_all add: run_inv_def quiet_def)

lemma wp_call: "wp (call m) Q E r =
    wp m (\<lambda>a w. Q a (r\<lparr>world := w\<rparr>)) (\<lambda>e w. E e (r\<lparr>world := w\<rparr>)) (world r)"
  by (auto simp: wp_def call_def split: prod.splits sum.splits)

lemma wp_silent:
  assumes "\<And>a w. Q a (w, snd s)" "\<And>e w. E e (w, snd s)"
  shows "wp (silent m) Q E s"
  using assms by (auto simp: wp_def silent_def split: prod.splits sum.splits)

lemma wp_note:
  assumes "\<And>a w. Q a (w, snd s @ [ev (Inr a)])" "\<And>e w. E e (w, snd s @ [ev (Inl e)])"
  shows "wp (note_call ev m) Q E s"
  using assms by (auto simp: wp_def note_call_def split: prod.splits sum.splits)

lemma check_time_logged: "check_time (logged T) d = silent (check_time T d)"
  by (rule ext) (auto simp: check_time_def silent_def split: prod.splits)

locale logged_run =
  fixes S :: "'w traced setting" and T :: "'w operations" and A :: "('w, failure, unit) eff"
  assumes ops: "ops S = logged T" and guard: "assert_local S = silent A"
begin

lemma wp_write_check:
  assumes "\<And>w t. Q t (r\<lparr>world := (w, lg r)\<rparr>)" "\<And>w e. E e (r\<lparr>world := (w, lg r)\<rparr>)"
  shows "wp (write_check S) Q E r"
proof -
  have guarded: "wp (call (silent A)) (\<lambda>a. wp (case Inr a of Inl _ \<Rightarrow> efail (Failure ''local_changed'')
        | Inr _ \<Rightarrow> eret t) Q E) (\<lambda>e. wp (case Inl e of Inl _ \<Rightarrow> efail (Failure ''local_changed'')
        | Inr _ \<Rightarrow> eret t) Q E) (r\<lparr>world := (w, lg r)\<rparr>)" for w t
    unfolding wp_call by (rule wp_silent) (simp_all add: wp_simps assms)
  show ?thesis
    unfolding write_check_def ops guard check_time_logged wp_ebind wp_etry wp_call [of "silent (check_time T (due S))"]
    by (rule wp_silent) (use guarded assms(2) in simp_all)
qed

text \<open>An operation that is paid for and leaves room for one more call.\<close>

lemma wp_budget:
  assumes "run_inv (op_limit (wlimits S)) r"
    and "\<And>r' t. run_inv (op_limit (wlimits S)) r' \<Longrightarrow> quiet r r' \<Longrightarrow> acquired r' = acquired r \<Longrightarrow> lg r' = lg r \<Longrightarrow>
      owner r' = owner r \<Longrightarrow> cost (lg r') < operations r' \<Longrightarrow> cost (lg r') < op_limit (wlimits S) \<Longrightarrow> Q t r'"
    and "\<And>r' e. run_inv (op_limit (wlimits S)) r' \<Longrightarrow> quiet r r' \<Longrightarrow> E e r'"
  shows "wp (budget S) Q E r"
  unfolding budget_def wp_ebind
proof (rule wp_write_check)
  fix w t
  let ?r = "r\<lparr>world := (w, lg r), operations := operations r + 1\<rparr>"
  have inv: "run_inv (op_limit (wlimits S)) ?r" "quiet r ?r"
    using assms(1) by (auto simp: run_inv_def quiet_def)
  show "wp (eseq (emod (\<lambda>r. r\<lparr>operations := operations r + 1\<rparr>)) (ebind (eget operations) (\<lambda>n.
      eseq (elift (cloud_require (n \<le> op_limit (wlimits S)) ''bounds''))
      (eret (min t (call_timeout (wlimits S))))))) Q E (r\<lparr>world := (w, lg r)\<rparr>)"
  proof (cases "operations r + 1 \<le> op_limit (wlimits S)")
    case True
    then have "cost (lg r) < op_limit (wlimits S)" "cost (lg r) < operations r + 1"
      using assms(1) by (auto simp: run_inv_def)
    with True show ?thesis
      by (simp add: wp_simps) (rule assms(2), use inv in auto)
  next
    case False
    then show ?thesis
      by (simp add: wp_simps) (rule assms(3), use inv in auto)
  qed
qed (use assms(1,3) in auto)

lemma wp_lease:
  assumes l: "lg r = l @ [if first then EAcquire (Inr reply) else ERenew (Inr reply)]"
      "owner r = fst (lease_of l)" "\<not> acquired r" "fenced (lg r)" "cost (lg r) \<le> operations r" "cost (lg r) \<le> n"
      "run_bookkeeping r" "\<not> released_in (lg r)"
    and Q: "\<And>r' q. run_inv n r' \<Longrightarrow> quiet r r' \<Longrightarrow> acquired r' \<Longrightarrow> lg r' = lg r \<Longrightarrow> Q q r'"
    and E: "\<And>r' e. run_inv n r' \<Longrightarrow> quiet r r' \<Longrightarrow> E e r'"
  shows "wp (lease S reply first) Q E r"
proof -
  obtain own h where oh: "lease_of l = (own, h)"
    by (cases "lease_of l")
  have step: "lease_of (lg r) = lease_step (if first then EAcquire (Inr reply) else ERenew (Inr reply)) (own, h)"
    by (simp add: l(1) lease_of_snoc oh)
  have ok: "reply_ok reply \<longleftrightarrow> owner_change_id reply \<noteq> [] \<and> length (owner_change_id reply) \<le> 1024 \<and>
      \<not> list_ex ascii_control (owner_change_id reply) \<and> quota_bytes reply > 0"
    by (simp add: reply_ok_def)
  have fail: "E e r'" if "world r' = world r" "operations r' = operations r" "mutated r' = mutated r"
      "committed r' = committed r" "mutation_attempted r' = mutation_attempted r" "owner r' = own"
      "acquired r' \<Longrightarrow> \<not> first \<and> lease_status reply = 201 \<and> reply_ok reply"
      "first \<Longrightarrow> \<not> (lease_status reply \<in> {200, 201} \<and> reply_ok reply)" for e r'
    by (rule E) (use that l step bookkeeping_cong [of r' r] in \<open>auto simp: run_inv_def quiet_def lease_step_def\<close>)
  have okay: "wp (write_check S) (\<lambda>_. wp (eret q) Q E) E r'" if "world r' = world r" "operations r' = operations r"
      "mutated r' = mutated r" "committed r' = committed r" "mutation_attempted r' = mutation_attempted r"
      "acquired r'" "lease_status reply \<in> {200, 201}" "reply_ok reply"
      "owner r' = (if first then Some (owner_change_id reply) else own)"
      "\<not> first \<Longrightarrow> lease_status reply = 200 \<and> own = Some (owner_change_id reply)" for q r'
  proof -
    have "run_inv n r'" "quiet r r'" "lg r' = lg r"
      using that l step bookkeeping_cong [of r' r] by (auto simp: run_inv_def quiet_def lease_step_def)
    then show ?thesis
      using that(6) by (intro wp_write_check) (auto simp: wp_simps run_inv_def quiet_def intro!: Q E)
  qed
  have own: "owner r = own"
    using l(2) oh by simp
  consider (auth) "lease_status reply = 401 \<or> lease_status reply = 403 \<or> lease_status reply = 409"
    | (good) "lease_status reply = 200 \<or> lease_status reply = 201"
    | (other) "lease_status reply \<notin> {200, 201, 401, 403, 409}"
    by blast
  then show ?thesis
  proof cases
    case auth
    then show ?thesis
      by (auto simp: lease_def wp_simps set_acquired_def own Let_def intro!: fail)
  next
    case good
    have s: "lease_status reply \<noteq> 401" "lease_status reply \<noteq> 403" "lease_status reply \<noteq> 409"
      using good by auto
    show ?thesis
    proof (cases "reply_ok reply")
      case False
      then have "\<not> (owner_change_id reply \<noteq> [] \<and> length (owner_change_id reply) \<le> 1024 \<and>
          \<not> list_ex ascii_control (owner_change_id reply) \<and> 0 < quota_bytes reply)"
        using ok by blast
      then show ?thesis
        using good s l(3) False unfolding lease_def cloud_require_def
        by (auto simp: wp_simps own intro!: fail)
    next
      case True
      with ok have req: "cloud_require (owner_change_id reply \<noteq> [] \<and> length (owner_change_id reply) \<le> 1024 \<and>
          \<not> list_ex ascii_control (owner_change_id reply) \<and> 0 < quota_bytes reply) c = Inr ()" for c
        by simp
      show ?thesis
        using good s l(3) True unfolding lease_def req
        by (auto simp: wp_simps set_acquired_def own intro!: fail okay)
    qed
  next
    case other
    then show ?thesis
      using l(3) by (auto simp: lease_def wp_simps own intro!: fail)
  qed
qed

text \<open>A renewal leaves the lease held or fails; it never touches the saves.\<close>

lemma wp_renew:
  assumes "run_inv (op_limit (wlimits S)) r"
    and Q: "\<And>r'. run_inv (op_limit (wlimits S)) r' \<Longrightarrow> quiet r r' \<Longrightarrow> acquired r' \<Longrightarrow> Q () r'"
    and E: "\<And>r' e. run_inv (op_limit (wlimits S)) r' \<Longrightarrow> quiet r r' \<Longrightarrow> E e r'"
  shows "wp (renew S) Q E r"
  unfolding renew_def wp_ebind
proof (rule wp_budget [OF assms(1)])
  fix r' t
  assume inv: "run_inv (op_limit (wlimits S)) r'" and q: "quiet r r'"
    and room: "cost (lg r') < operations r'" "cost (lg r') < op_limit (wlimits S)"
  let ?r = "\<lambda>w x. r'\<lparr>acquired := False, world := (w, lg r' @ [ERenew x])\<rparr>"
  have q2: "quiet r' (?r w x)" for w x
    by (simp add: quiet_def)
  have pre: "fenced (lg (?r w x))" "cost (lg (?r w x)) \<le> operations (?r w x)"
      "cost (lg (?r w x)) \<le> op_limit (wlimits S)" "run_bookkeeping (?r w x)" "\<not> released_in (lg (?r w x))" for w x
    using inv room by (simp_all add: run_inv_def fenced_snoc)
  have done_ok: "wp (lease S reply False) (\<lambda>_. Q ()) E (?r w (Inr reply))" for w reply
    by (rule wp_lease [where l = "lg r'" and n = "op_limit (wlimits S)"])
      (use pre [of w "Inr reply"] inv q q2 in
        \<open>auto simp: run_inv_def intro!: Q E elim: quiet_trans intro: quiet_trans [OF quiet_trans]\<close>)
  have failed: "E e (?r w (Inl e))" for e w
    by (rule E) (use pre [of w "Inl e"] inv q q2 [of w "Inl e"] in
        \<open>auto simp: run_inv_def lease_of_snoc lease_step_def split: prod.splits intro: quiet_trans\<close>)
  show "wp (eseq (set_acquired False) (ebind (call (renew_lease (ops S) t)) (\<lambda>reply.
      eseq (lease S reply False) (eret ())))) Q E r'"
    unfolding set_acquired_def wp_simps wp_call ops logged_simps
    by (rule wp_note) (use done_ok failed in \<open>simp_all add: wp_simps\<close>)
qed (use E in auto)

lemma wp_remote:
  assumes "run_inv n r"
    and Q: "\<And>r' st. run_inv n r' \<Longrightarrow> quiet r r' \<Longrightarrow> acquired r' = acquired r \<Longrightarrow>
      lg r' = lg r @ [ERemote force (Inr st)] \<Longrightarrow> Q st r'"
    and E: "\<And>r' e. run_inv n r' \<Longrightarrow> quiet r r' \<Longrightarrow> E e r'"
  shows "wp (remote S force) Q E r"
  unfolding remote_def wp_ebind
proof (rule wp_write_check)
  fix w t
  let ?r = "\<lambda>w x. r\<lparr>world := (w, lg r @ [ERemote force x])\<rparr>"
  have inv: "run_inv n (?r w x)" "quiet r (?r w x)" for w x
    using assms(1) by (auto simp: run_inv_def fenced_snoc lease_of_snoc lease_step_def quiet_def split: prod.splits)
  have rest: "wp (eseq (elift (map_err (\<lambda>_. Failure ''invalid_input'') (encode (hash S) st)))
      (eseq (write_check S) (eret st))) Q E (?r w (Inr st))" for w st
  proof (cases "encode (hash S) st")
    case (Inl e)
    then show ?thesis using inv by (simp add: wp_simps E)
  next
    case (Inr b)
    show ?thesis
      unfolding wp_simps
      by (simp add: Inr) (rule wp_write_check, use inv in \<open>auto simp: wp_simps run_inv_def quiet_def intro!: Q E\<close>)
  qed
  show "wp (call (remote_state (ops S) t force)) (\<lambda>st. wp (eseq (elift (map_err (\<lambda>_. Failure ''invalid_input'')
      (encode (hash S) st))) (eseq (write_check S) (eret st))) Q E) E (r\<lparr>world := (w, lg r)\<rparr>)"
    unfolding wp_call ops logged_simps
    by (rule wp_note) (use rest inv E in simp_all)
qed (use assms(1) E in auto)

text \<open>A confirmation counts one committed container when the service reads back what was written.\<close>

lemma wp_confirm:
  assumes "run_inv (op_limit (wlimits S)) r" "committed r < length (mutations (lg r))"
    and Q: "\<And>r'. run_inv (op_limit (wlimits S)) r' \<Longrightarrow> prefix (lg r) (lg r') \<Longrightarrow> acquired r' \<Longrightarrow>
      mutations (lg r') = mutations (lg r) \<Longrightarrow> committed r' = committed r + 1 \<Longrightarrow> mutated r' = mutated r \<Longrightarrow> Q () r'"
    and E: "\<And>r' e. run_inv (op_limit (wlimits S)) r' \<Longrightarrow> quiet r r' \<Longrightarrow> E e r'"
  shows "wp (confirm S nm want) Q E r"
proof -
  let ?n = "op_limit (wlimits S)"
  have last: "wp (renew S) (\<lambda>_. wp (emod (\<lambda>r. r\<lparr>committed := committed r + 1\<rparr>)) Q E) E r'"
    if "run_inv ?n r'" "quiet r r'" for r'
    by (rule wp_renew [OF that(1)])
      (use assms(2) that(2) in \<open>auto simp: wp_simps run_inv_def quiet_def run_bookkeeping_def
        intro!: Q E elim: prefix_order.trans\<close>)
  have digests: "wp (elift (entry_digest (hash S) nm x)) (\<lambda>a. wp (elift (entry_digest (hash S) nm want)) (\<lambda>b.
      wp (elift (cloud_require (a = b) ''readback'')) (\<lambda>_. wp (renew S) (\<lambda>_.
      wp (emod (\<lambda>r. r\<lparr>committed := committed r + 1\<rparr>)) Q E) E) E) E) E r'"
    if "run_inv ?n r'" "quiet r r'" for r' x
    using last [OF that] E [OF that]
    by (auto simp: wp_simps cloud_require_def split: sum.splits)
  show ?thesis
    unfolding confirm_def wp_ebind wp_eseq
    by (rule wp_renew [OF assms(1)]; (rule wp_remote)?)
      (assumption | (rule digests E; (assumption | rule quiet_trans; assumption)))+
qed

lemma wp_mutate:
  "wp (etry (mutate S nm entry atoms t)) Q E r"
  if "\<And>w x e. mutation e = [wire_name nm] \<Longrightarrow> is_write e \<Longrightarrow> budgeted e \<Longrightarrow>
      (\<And>own h. lease_step e (own, h) = (own, case x of Inr s \<Rightarrow> h \<and> s \<notin> {401, 403, 409} | Inl _ \<Rightarrow> h)) \<Longrightarrow>
      Q x (r\<lparr>world := (w, lg r @ [e])\<rparr>)"
proof (cases entry)
  case None
  show ?thesis
    unfolding mutate_def None option.case wp_etry wp_call ops logged_simps
    by (rule wp_note) (rule that, simp_all add: wire_name_def lease_step_def)+
next
  case (Some c)
  show ?thesis
    unfolding mutate_def Some option.case wp_etry wp_call ops logged_simps
    by (rule wp_note) (rule that, simp_all add: wire_name_def lease_step_def)+
qed

definition rejected :: "failure + u16 \<Rightarrow> bool" where
  "rejected x = (case x of Inr s \<Rightarrow> s \<in> {401, 403, 409} | Inl _ \<Rightarrow> False)"

lemma wp_mutation_reply:
  "wp (mutation_reply x) Q E r"
  if "rejected x \<Longrightarrow> \<forall>e. E e (r\<lparr>acquired := False\<rparr>)" "\<not> rejected x \<Longrightarrow> Q () r"
  using that by (auto simp: mutation_reply_def rejected_def wp_simps set_acquired_def split: sum.splits)

text \<open>The call that mutates, its answer and the confirmation.\<close>

lemma wp_mutation:
  assumes r: "run_inv (op_limit (wlimits S)) r" "acquired r" "mutation_attempted r" "nm \<in> set (mutated r)"
      "cost (lg r) < operations r" "cost (lg r) < op_limit (wlimits S)"
    and Q: "\<And>r'. run_inv (op_limit (wlimits S)) r' \<Longrightarrow> prefix (lg r) (lg r') \<Longrightarrow> acquired r' \<Longrightarrow>
      mutations (lg r') = mutations (lg r) @ [wire_name nm] \<Longrightarrow> committed r' = committed r + 1 \<Longrightarrow> Q () r'"
    and E: "\<And>r' e. run_inv (op_limit (wlimits S)) r' \<Longrightarrow> prefix (lg r) (lg r') \<Longrightarrow>
      mutations (lg r') = mutations (lg r) @ [wire_name nm] \<Longrightarrow> E e r'"
  shows "wp (etry (mutate S nm entry atoms t))
     (\<lambda>x. wp (mutation_reply x) (\<lambda>_. wp (confirm S nm entry) Q E) E) E r"
proof (rule wp_mutate)
  let ?n = "op_limit (wlimits S)"
  fix w and x :: "failure + u16" and e
  let ?s = "r\<lparr>world := (w, lg r @ [e])\<rparr>"
  assume e: "mutation e = [wire_name nm]" "is_write e" "budgeted e"
    "\<And>own h. lease_step e (own, h) = (own, case x of Inr s \<Rightarrow> h \<and> s \<notin> {401, 403, 409} | Inl _ \<Rightarrow> h)"
  obtain own where held: "lease_of (lg r) = (own, True)"
    using r(1,2) by (cases "lease_of (lg r)") (auto simp: run_inv_def)
  have lease: "lease_of (lg r @ [e]) = (own, \<not> rejected x)"
    by (simp add: lease_of_snoc held e(4) rejected_def split: sum.splits)
  have book: "run_bookkeeping ?s"
    using r(1,3,4) e(1) by (auto simp: run_inv_def run_bookkeeping_def)
  have "e \<noteq> ERelease y" for y
    using e(1) by auto
  then have inv: "run_inv ?n (?s\<lparr>acquired := b\<rparr>)" if "b \<Longrightarrow> \<not> rejected x" for b
    using r(1,5,6) e(2,3) held lease book that by (auto simp: run_inv_def fenced_snoc)
  have keep: "?s\<lparr>acquired := True\<rparr> = ?s"
    using r(2) by simp
  have muts: "mutations (lg ?s) = mutations (lg r) @ [wire_name nm]"
    using e(1) by simp
  show "wp (mutation_reply x) (\<lambda>_. wp (confirm S nm entry) Q E) E ?s"
  proof (rule wp_mutation_reply)
    assume "rejected x"
    show "\<forall>err. E err (?s\<lparr>acquired := False\<rparr>)"
      by (intro allI E inv) (use muts in auto)
  next
    assume nr: "\<not> rejected x"
    show "wp (confirm S nm entry) Q E ?s"
    proof (rule wp_confirm)
      show "run_inv ?n ?s"
        using inv [of True] nr keep by simp
      show "committed ?s < length (mutations (lg ?s))"
        using r(1) muts by (simp add: run_inv_def run_bookkeeping_def)
    next
      fix r' :: "'w traced run"
      assume "run_inv ?n r'" "prefix (lg ?s) (lg r')" "acquired r'" "mutations (lg r') = mutations (lg ?s)"
        "committed r' = committed ?s + 1"
      then show "Q () r'"
        by (intro Q) (use muts in \<open>auto dest: append_prefixD\<close>)
    next
      fix r' :: "'w traced run" and err
      assume "run_inv ?n r'" "quiet ?s r'"
      then show "E err r'"
        by (intro E) (use muts in \<open>auto simp: quiet_def dest: append_prefixD\<close>)
    qed
  qed
qed

lemma wp_commit:
  assumes "run_inv (op_limit (wlimits S)) r"
    and Q: "\<And>r'. run_inv (op_limit (wlimits S)) r' \<Longrightarrow> prefix (lg r) (lg r') \<Longrightarrow> acquired r' \<Longrightarrow>
      mutations (lg r') = mutations (lg r) @ [wire_name nm] \<Longrightarrow> committed r' = committed r + 1 \<Longrightarrow> Q () r'"
    and E: "\<And>r' e. run_inv (op_limit (wlimits S)) r' \<Longrightarrow> prefix (lg r) (lg r') \<Longrightarrow>
      mutations (lg r') = mutations (lg r) \<or> mutations (lg r') = mutations (lg r) @ [wire_name nm] \<Longrightarrow> E e r'"
  shows "wp (commit S nm entry atoms) Q E r"
  unfolding commit_def wp_ebind wp_eseq
proof (rule wp_renew [OF assms(1)])
  let ?n = "op_limit (wlimits S)"
  let ?body = "\<lambda>t. wp (etry (mutate S nm entry atoms t))
     (\<lambda>x. wp (mutation_reply x) (\<lambda>_. wp (confirm S nm entry) Q E) E) E"
  fix r1 :: "'w traced run"
  assume r1: "run_inv ?n r1" "quiet r r1" "acquired r1"
  show "wp (write_check S) (\<lambda>_. wp (emod (\<lambda>r. r\<lparr>mutation_attempted := True, mutated := sorted_set (nm # mutated r)\<rparr>))
      (\<lambda>_. wp (budget S) ?body E) E) E r1"
  proof (rule wp_write_check)
    fix w t0
    let ?r2 = "r1\<lparr>world := (w, lg r1), mutation_attempted := True, mutated := sorted_set (nm # mutated r1)\<rparr>"
    have r2: "run_inv ?n ?r2"
      using r1(1) by (auto simp: run_inv_def run_bookkeeping_def)
    have "wp (budget S) ?body E ?r2"
    proof (rule wp_budget [OF r2])
      fix r3 :: "'w traced run" and t
      assume r3: "run_inv ?n r3" "quiet ?r2 r3" "acquired r3 = acquired ?r2"
        and room: "cost (lg r3) < operations r3" "cost (lg r3) < ?n"
      have base: "prefix (lg r) (lg r3)" "mutations (lg r3) = mutations (lg r)" "committed r3 = committed r"
          "mutation_attempted r3" "nm \<in> set (mutated r3)" "acquired r3"
        using r1 r3 by (auto simp: quiet_def intro: prefix_order.trans)
      show "?body t r3"
        by (rule wp_mutation [OF r3(1) base(6,4,5) room]; (rule Q | rule E))
          (use base in \<open>auto intro: prefix_order.trans\<close>)
    next
      fix r' :: "'w traced run" and e
      assume "run_inv ?n r'" "quiet ?r2 r'"
      then show "E e r'"
        by (intro E) (use r1(2) in \<open>auto simp: quiet_def intro: prefix_order.trans\<close>)
    qed
    then show "wp (emod (\<lambda>r. r\<lparr>mutation_attempted := True, mutated := sorted_set (nm # mutated r)\<rparr>))
      (\<lambda>_. wp (budget S) ?body E) E (r1\<lparr>world := (w, lg r1)\<rparr>)"
      by (simp add: wp_emod)
  next
    fix w e
    show "E e (r1\<lparr>world := (w, lg r1)\<rparr>)"
      by (rule E) (use r1 in \<open>auto simp: quiet_def\<close>)
  qed
next
  fix r' :: "'w traced run" and e
  assume "run_inv (op_limit (wlimits S)) r'" "quiet r r'"
  then show "E e r'"
    by (intro E) (auto simp: quiet_def)
qed

lemma wp_upload_blob:
  assumes "run_inv (op_limit (wlimits S)) r" "acquired r"
    and Q: "\<And>r' x. run_inv (op_limit (wlimits S)) r' \<Longrightarrow> quiet r r' \<Longrightarrow> acquired r' \<Longrightarrow> Q x r'"
    and E: "\<And>r' e. run_inv (op_limit (wlimits S)) r' \<Longrightarrow> quiet r r' \<Longrightarrow> E e r'"
  shows "wp (upload_blob S bp st) Q E r"
proof -
  let ?n = "op_limit (wlimits S)"
  obtain blob payload atoms ids where [simp]: "bp = (blob, payload)" "st = (atoms, ids)"
    by (cases bp; cases st)
  let ?rest = "\<lambda>atom. wp (eseq (elift (cloud_require (guid atom \<and> ascii_lower atom \<notin> set ids) ''invalid_response''))
      (eseq (write_check S) (eret (bt_put blob atom atoms, ascii_lower atom # ids)))) Q E"
  show ?thesis
    unfolding upload_blob_def \<open>bp = (blob, payload)\<close> \<open>st = (atoms, ids)\<close> prod.case wp_ebind
  proof (rule wp_budget [OF assms(1)])
    fix r1 :: "'w traced run" and t
    assume r1: "run_inv ?n r1" "quiet r r1" "acquired r1 = acquired r"
      and room: "cost (lg r1) < operations r1" "cost (lg r1) < ?n"
    let ?r2 = "\<lambda>w x. r1\<lparr>world := (w, lg r1 @ [EAtom payload x])\<rparr>"
    have inv: "run_inv ?n (?r2 w x)" "quiet r (?r2 w x)" "acquired (?r2 w x)" for w x
      using r1 room assms(2) by (auto simp: run_inv_def fenced_snoc lease_of_snoc lease_step_def quiet_def
          intro: prefix_order.trans split: prod.splits)
    have rest: "?rest atom (?r2 w x)" for atom w x
    proof (cases "guid atom \<and> ascii_lower atom \<notin> set ids")
      case True
      then have ok: "cloud_require (guid atom \<and> ascii_lower atom \<notin> set ids) c = Inr ()" for c
        by simp
      show ?thesis
        unfolding wp_eseq ok wp_elift sum.case
        by (rule wp_write_check) (use inv [of w x] in \<open>auto simp: wp_eret run_inv_def quiet_def intro!: Q E\<close>)
    next
      case False
      then have "cloud_require (guid atom \<and> ascii_lower atom \<notin> set ids) c = Inl (Failure c)" for c
        by (auto simp: cloud_require_def)
      then show ?thesis
        using inv by (simp add: wp_eseq wp_elift E)
    qed
    show "wp (call (upload_atom (ops S) payload t)) (\<lambda>atom. ?rest atom) E r1"
      unfolding wp_call ops logged_simps
      by (rule wp_note) (use rest inv E in simp_all)
  qed (rule E)
qed

lemma wp_upload_atoms:
  assumes "run_inv (op_limit (wlimits S)) r"
    and Q: "\<And>r' x. run_inv (op_limit (wlimits S)) r' \<Longrightarrow> quiet r r' \<Longrightarrow> Q x r'"
    and E: "\<And>r' e. run_inv (op_limit (wlimits S)) r' \<Longrightarrow> quiet r r' \<Longrightarrow> E e r'"
  shows "wp (upload_atoms S want) Q E r"
proof (cases want)
  case None
  with assms(1) show ?thesis
    by (simp add: upload_atoms_def wp_eret Q)
next
  case (Some c)
  let ?n = "op_limit (wlimits S)"
  let ?I = "\<lambda>(x :: (string, string) btree \<times> string list) r'. run_inv ?n r' \<and> quiet r r' \<and> acquired r'"
  show ?thesis
    unfolding upload_atoms_def Some option.case wp_eseq wp_ebind
  proof (rule wp_renew [OF assms(1)])
    fix r1 :: "'w traced run"
    assume r1: "run_inv ?n r1" "quiet r r1" "acquired r1"
    have "wp (efor (upload_blob S) (blobs c) ([], [])) ?I E r1"
    proof (rule wp_efor)
      fix bp x and r2 :: "'w traced run"
      assume r2: "?I x r2"
      show "wp (upload_blob S bp x) ?I E r2"
        by (rule wp_upload_blob) (use r2 in \<open>auto intro: E quiet_trans\<close>)
    qed (use r1 in simp)
    then show "wp (efor (upload_blob S) (blobs c) ([], []))
        (\<lambda>a. wp (case a of (atoms, ids) \<Rightarrow> eret atoms) Q E) E r1"
      by (rule wp_mono) (auto simp: wp_eret intro: Q)
  qed (rule E)
qed

end

text \<open>A container is to be written unless both sides have it with the same content.\<close>

definition differs :: "(u8 list \<Rightarrow> u8 list) \<Rightarrow> state \<Rightarrow> state \<Rightarrow> string \<Rightarrow> bool" where
  "differs H local rem n \<longleftrightarrow>
     \<not> (\<exists>a b d. bt_get (containers local) n = Some a \<and> bt_get (containers rem) n = Some b \<and>
        entry_digest H n (Some a) = Inr d \<and> entry_digest H n (Some b) = Inr d)"

definition to_write :: "(u8 list \<Rightarrow> u8 list) \<Rightarrow> state \<Rightarrow> state \<Rightarrow> string list" where
  "to_write H local rem =
     filter (differs H local rem) (sorted_set (bt_keys (containers local) @ bt_keys (containers rem)))"

context logged_run
begin

lemma wp_upload_container:
  assumes "run_inv (op_limit (wlimits S)) r"
    and Q: "\<And>r'. run_inv (op_limit (wlimits S)) r' \<Longrightarrow> prefix (lg r) (lg r') \<Longrightarrow>
      mutations (lg r') = mutations (lg r) @ (if differs (hash S) local rem nm then [wire_name nm] else []) \<Longrightarrow>
      committed r' = committed r + (if differs (hash S) local rem nm then 1 else 0) \<Longrightarrow> Q () r'"
    and E: "\<And>r' e. run_inv (op_limit (wlimits S)) r' \<Longrightarrow> prefix (lg r) (lg r') \<Longrightarrow>
      mutations (lg r') = mutations (lg r) \<or>
      differs (hash S) local rem nm \<and> mutations (lg r') = mutations (lg r) @ [wire_name nm] \<Longrightarrow> E e r'"
  shows "wp (upload_container S local rem nm u) Q E r"
proof -
  let ?want = "bt_get (containers local) nm" and ?old = "bt_get (containers rem) nm"
  have put: "wp (ebind (upload_atoms S ?want) (\<lambda>atoms. commit S nm ?want atoms)) Q E r"
    if d: "differs (hash S) local rem nm"
    unfolding wp_ebind
  proof (rule wp_upload_atoms [OF assms(1)])
    fix r1 :: "'w traced run" and x
    assume r1: "run_inv (op_limit (wlimits S)) r1" "quiet r r1"
    show "wp (commit S nm ?want x) Q E r1"
      by (rule wp_commit [OF r1(1)]; (rule Q | rule E))
        (use r1(2) d in \<open>auto simp: quiet_def intro: prefix_order.trans\<close>)
  qed (auto simp: quiet_def intro!: E)
  have bad: "E e r" for e
    by (rule E) (use assms(1) in auto)
  show ?thesis
  proof (cases "?want \<noteq> None \<and> ?old \<noteq> None")
    case False
    then have "differs (hash S) local rem nm"
      by (auto simp: differs_def)
    from put [OF this] False show ?thesis
      by (auto simp: upload_container_def Let_def wp_simps)
  next
    case True
    then obtain a b where ab: "?want = Some a" "?old = Some b" by auto
    show ?thesis
    proof (cases "entry_digest (hash S) nm (Some a)")
      case (Inl e)
      with True ab bad show ?thesis
        by (simp add: upload_container_def Let_def wp_simps)
    next
      case da: (Inr da)
      show ?thesis
      proof (cases "entry_digest (hash S) nm (Some b)")
        case (Inl e)
        with True ab bad da show ?thesis
          by (simp add: upload_container_def Let_def wp_simps)
      next
        case db: (Inr db)
        have "differs (hash S) local rem nm \<longleftrightarrow> da \<noteq> db"
          using ab da db by (auto simp: differs_def)
        then show ?thesis
          using True ab da db put assms(1)
          by (auto simp: upload_container_def Let_def wp_simps intro!: Q)
      qed
    qed
  qed
qed

end

text \<open>The record has read the expected remote save before it mutated anything.\<close>

definition based :: "(u8 list \<Rightarrow> u8 list) \<Rightarrow> string \<Rightarrow> state \<Rightarrow> event list \<Rightarrow> bool" where
  "based H want rem l \<longleftrightarrow> (\<exists>before after. l = before @ ERemote [] (Inr rem) # after \<and> mutations before = [] \<and>
     import_digest H rem = Inr want)"

text \<open>After its last mutation the record has read a save with the given digest, bypassing the caches
  of every container it wrote.\<close>

definition read_back :: "(u8 list \<Rightarrow> u8 list) \<Rightarrow> string \<Rightarrow> event list \<Rightarrow> bool" where
  "read_back H source l \<longleftrightarrow> (\<exists>before forced st after. l = before @ ERemote forced (Inr st) # after \<and>
     mutations after = [] \<and> import_digest H st = Inr source \<and>
     set (mutations before) \<subseteq> wire_name ` set forced)"

lemma mutations_append: "mutations (a @ b) = mutations a @ mutations b"
  by (simp add: mutations_def)

lemma based_mono: "based H want rem l \<Longrightarrow> prefix l l' \<Longrightarrow> based H want rem l'"
  by (fastforce simp: based_def prefix_def)

lemma read_back_quiet:
  "read_back H source l \<Longrightarrow> prefix l l' \<Longrightarrow> mutations l' = mutations l \<Longrightarrow> read_back H source l'"
  by (fastforce simp: read_back_def prefix_def mutations_append mutations_def)

definition partial_run :: "(u8 list \<Rightarrow> u8 list) \<Rightarrow> state \<Rightarrow> string \<Rightarrow> event list \<Rightarrow> bool" where
  "partial_run H local want l \<longleftrightarrow> mutations l = [] \<or>
     (\<exists>rem. based H want rem l \<and> prefix (mutations l) (map wire_name (to_write H local rem)))"

definition complete_run :: "(u8 list \<Rightarrow> u8 list) \<Rightarrow> state \<Rightarrow> string \<Rightarrow> string \<Rightarrow> nat \<Rightarrow> event list \<Rightarrow> bool" where
  "complete_run H local want source n l \<longleftrightarrow>
     (\<exists>rem. based H want rem l \<and> mutations l = map wire_name (to_write H local rem) \<and>
        n = length (to_write H local rem)) \<and> read_back H source l"

context logged_run
begin

lemma wp_containers:
  assumes r: "run_inv (op_limit (wlimits S)) r" "based (hash S) want rem (lg r)" "mutations (lg r) = []"
      "committed r = 0"
  shows "wp (efor (upload_container S local rem)
      (sorted_set (bt_keys (containers local) @ bt_keys (containers rem))) ())
    (\<lambda>_ r'. run_inv (op_limit (wlimits S)) r' \<and> based (hash S) want rem (lg r') \<and>
       mutations (lg r') = map wire_name (to_write (hash S) local rem) \<and>
       committed r' = length (to_write (hash S) local rem))
    (\<lambda>_ r'. run_inv (op_limit (wlimits S)) r' \<and> partial_run (hash S) local want (lg r')) r"
proof -
  let ?n = "op_limit (wlimits S)" and ?d = "differs (hash S) local rem"
  let ?names = "sorted_set (bt_keys (containers local) @ bt_keys (containers rem))"
  let ?I = "\<lambda>ys zs (u :: unit) r'. run_inv ?n r' \<and> based (hash S) want rem (lg r') \<and>
     mutations (lg r') = map wire_name (filter ?d ys) \<and> committed r' = length (filter ?d ys)"
  have "wp (efor (upload_container S local rem) ?names ()) (?I ?names [])
      (\<lambda>_ r'. run_inv ?n r' \<and> partial_run (hash S) local want (lg r')) r"
  proof (rule wp_efor_step)
    show "?I [] ?names () r"
      using r by simp
  next
    fix ys x zs a and s :: "'w traced run"
    assume names: "?names = ys @ x # zs" and I: "?I ys (x # zs) a s"
    have pre: "prefix (map wire_name (filter ?d ys @ (if ?d x then [x] else [])))
        (map wire_name (to_write (hash S) local rem))" and pre': "prefix (map wire_name (filter ?d ys))
        (map wire_name (to_write (hash S) local rem))"
      unfolding to_write_def names by (auto simp: prefix_def)
    show "wp (upload_container S local rem x a) (?I (ys @ [x]) zs)
        (\<lambda>_ r'. run_inv ?n r' \<and> partial_run (hash S) local want (lg r')) s"
    proof (rule wp_upload_container)
      show "run_inv ?n s" using I by simp
    next
      fix s' :: "'w traced run"
      assume "run_inv ?n s'" "prefix (lg s) (lg s')"
        "mutations (lg s') = mutations (lg s) @ (if ?d x then [wire_name x] else [])"
        "committed s' = committed s + (if ?d x then 1 else 0)"
      then show "?I (ys @ [x]) zs () s'"
        using I by (auto intro: based_mono)
    next
      fix s' :: "'w traced run" and e
      assume s': "run_inv ?n s'" "prefix (lg s) (lg s')"
        "mutations (lg s') = mutations (lg s) \<or> ?d x \<and> mutations (lg s') = mutations (lg s) @ [wire_name x]"
      moreover have "based (hash S) want rem (lg s')"
        using I s'(2) based_mono by blast
      moreover have "prefix (mutations (lg s')) (map wire_name (to_write (hash S) local rem))"
        using s'(3) I pre pre' by auto
      ultimately show "run_inv ?n s' \<and> partial_run (hash S) local want (lg s')"
        by (auto simp: partial_run_def)
    qed
  qed
  then show ?thesis
    unfolding to_write_def by (rule wp_mono) auto
qed

text \<open>The final reading under the lease.\<close>

lemma wp_readback:
  assumes r: "run_inv (op_limit (wlimits S)) r" "based (hash S) want rem (lg r)"
      "mutations (lg r) = map wire_name (to_write (hash S) local rem)"
      "committed r = length (to_write (hash S) local rem)"
  shows "wp (eseq (renew S) (ebind (eget mutated) (\<lambda>forced. ebind (remote S forced) (\<lambda>final.
      ebind (elift (import_digest (hash S) final)) (\<lambda>f.
      eseq (elift (cloud_require (f = source) ''readback'')) (renew S))))))
    (\<lambda>_ r'. run_inv (op_limit (wlimits S)) r' \<and>
       complete_run (hash S) local want source (committed r') (lg r'))
    (\<lambda>_ r'. run_inv (op_limit (wlimits S)) r' \<and> partial_run (hash S) local want (lg r')) r"
    (is "wp _ ?Q ?E _")
proof -
  let ?n = "op_limit (wlimits S)"
  have E: "?E e r'" if "run_inv ?n r'" "quiet r r'" for r' e
    using that r based_mono by (auto simp: partial_run_def quiet_def intro!: exI [of _ rem])
  have digest: "wp (ebind (elift (import_digest (hash S) st)) (\<lambda>f.
      eseq (elift (cloud_require (f = source) ''readback'')) (renew S))) ?Q ?E r2"
    if r2: "run_inv ?n r2" "quiet r r2" "lg r2 = l @ [ERemote forced (Inr st)]"
      "set (mutations l) \<subseteq> wire_name ` set forced" for r2 l forced st
  proof (cases "import_digest (hash S) st = Inr source")
    case True
    have rb: "read_back (hash S) source (lg r2)"
      unfolding read_back_def r2(3) using True r2(4) by (intro exI [of _ l] exI [of _ forced] exI [of _ st] exI [of _ "[]"]) simp
    have "wp (renew S) ?Q ?E r2"
    proof (rule wp_renew [OF r2(1)])
      fix r3 :: "'w traced run"
      assume r3: "run_inv ?n r3" "quiet r2 r3"
      then have "quiet r r3"
        using r2(2) quiet_trans by blast
      then show "?Q () r3"
        using r3 r rb read_back_quiet based_mono
        by (auto simp: complete_run_def quiet_def intro!: exI [of _ rem])
    next
      fix r3 :: "'w traced run" and e
      assume "run_inv ?n r3" "quiet r2 r3"
      then show "?E e r3"
        using r2(2) quiet_trans E by blast
    qed
    with True show ?thesis
      by (simp add: wp_simps)
  next
    case False
    then show ?thesis
      using E [OF r2(1,2)] by (auto simp: wp_simps cloud_require_def split: sum.splits)
  qed
  show ?thesis
    unfolding wp_eseq [of "renew S"] wp_ebind [of "eget mutated"] wp_eget
  proof (rule wp_renew [OF r(1)])
    fix r1 :: "'w traced run"
    assume r1: "run_inv ?n r1" "quiet r r1"
    show "wp (ebind (remote S (mutated r1)) (\<lambda>final. ebind (elift (import_digest (hash S) final)) (\<lambda>f.
      eseq (elift (cloud_require (f = source) ''readback'')) (renew S)))) ?Q ?E r1"
      unfolding wp_ebind [of "remote S (mutated r1)"]
    proof (rule wp_remote [OF r1(1)])
      fix r2 :: "'w traced run" and st
      assume r2: "run_inv ?n r2" "quiet r1 r2" "lg r2 = lg r1 @ [ERemote (mutated r1) (Inr st)]"
      show "wp (ebind (elift (import_digest (hash S) st)) (\<lambda>f.
        eseq (elift (cloud_require (f = source) ''readback'')) (renew S))) ?Q ?E r2"
        by (rule digest [OF r2(1) quiet_trans [OF r1(2) r2(2)] r2(3)])
          (use r1(1) in \<open>simp add: run_inv_def run_bookkeeping_def\<close>)
    next
      fix r2 :: "'w traced run" and e
      assume "run_inv ?n r2" "quiet r1 r2"
      then show "?E e r2"
        using E quiet_trans [OF r1(2)] by blast
    qed
  qed (use E in blast)
qed

lemma wp_upload_run:
  "wp (upload_run S local want source n)
    (\<lambda>_ r'. run_inv (op_limit (wlimits S)) r' \<and>
       complete_run (hash S) local want source (committed r') (lg r'))
    (\<lambda>_ r'. run_inv (op_limit (wlimits S)) r' \<and> partial_run (hash S) local want (lg r')) (run_start (w, []))"
  (is "wp _ ?Q ?E ?r0")
proof -
  let ?n = "op_limit (wlimits S)"
  have E: "?E e r'" if "run_inv ?n r'" "mutations (lg r') = []" for r' e
    using that by (simp add: partial_run_def)
  have start: "run_inv ?n ?r0"
    by (simp add: run_inv_def run_start_def run_bookkeeping_def lease_of_def)
  let ?t4 = "\<lambda>rem. eseq (renew S) (eseq (efor (upload_container S local rem)
       (sorted_set (bt_keys (containers local) @ bt_keys (containers rem))) ())
       (eseq (renew S) (ebind (eget mutated) (\<lambda>forced. ebind (remote S forced) (\<lambda>final.
       ebind (elift (import_digest (hash S) final)) (\<lambda>f.
       eseq (elift (cloud_require (f = source) ''readback'')) (renew S)))))))"
  let ?t3 = "\<lambda>rem. ebind (elift (import_digest (hash S) rem)) (\<lambda>d.
       eseq (elift (cloud_require (d = want) ''conflict'')) (?t4 rem))"
  let ?t2 = "\<lambda>quota. eseq (elift (cloud_require (n \<le> quota) ''quota'')) (ebind (remote S []) ?t3)"
  have t4: "wp (?t4 rem) ?Q ?E r"
    if r: "run_inv ?n r" "based (hash S) want rem (lg r)" "mutations (lg r) = []" "committed r = 0" for rem r
    unfolding wp_eseq [of "renew S"]
  proof (rule wp_renew [OF r(1)])
    fix r1 :: "'w traced run"
    assume r1: "run_inv ?n r1" "quiet r r1"
    have "based (hash S) want rem (lg r1)" "mutations (lg r1) = []" "committed r1 = 0"
      using r r1(2) based_mono by (auto simp: quiet_def)
    from wp_containers [OF r1(1) this]
    show "wp (eseq (efor (upload_container S local rem)
       (sorted_set (bt_keys (containers local) @ bt_keys (containers rem))) ())
       (eseq (renew S) (ebind (eget mutated) (\<lambda>forced. ebind (remote S forced) (\<lambda>final.
       ebind (elift (import_digest (hash S) final)) (\<lambda>f.
       eseq (elift (cloud_require (f = source) ''readback'')) (renew S))))))) ?Q ?E r1"
      unfolding wp_eseq [of "efor f xs u" for f xs u]
      by (rule wp_mono) (use wp_readback in blast)+
  next
    fix r1 :: "'w traced run" and e
    assume "run_inv ?n r1" "quiet r r1"
    then show "?E e r1"
      by (intro E) (use r(3) in \<open>auto simp: quiet_def\<close>)
  qed
  have t3: "wp (?t3 rem) ?Q ?E r"
    if r: "run_inv ?n r" "lg r = l @ [ERemote [] (Inr rem)]" "mutations (lg r) = []" "committed r = 0" for rem r l
  proof (cases "import_digest (hash S) rem = Inr want")
    case True
    have "based (hash S) want rem (lg r)"
      unfolding based_def r(2) using True r(2,3) by (intro exI [of _ l] exI [of _ "[]"]) simp
    from t4 [OF r(1) this r(3,4)] True show ?thesis
      unfolding wp_ebind [of "elift x" for x] wp_eseq [of "elift x" for x] wp_elift by simp
  next
    case False
    then show ?thesis
      using E [OF r(1,3)]
      unfolding wp_ebind [of "elift x" for x] wp_eseq [of "elift x" for x] wp_elift
      by (auto simp: cloud_require_def split: sum.splits)
  qed
  have t2: "wp (?t2 quota) ?Q ?E r"
    if r: "run_inv ?n r" "mutations (lg r) = []" "committed r = 0" for quota r
  proof (cases "n \<le> quota")
    case True
    have "wp (ebind (remote S []) ?t3) ?Q ?E r"
      unfolding wp_ebind [of "remote S []"]
      by (rule wp_remote [OF r(1)]; (rule t3 | rule E)) (use r(2,3) in \<open>auto simp: quiet_def\<close>)
    with True show ?thesis
      unfolding wp_eseq [of "elift x" for x] wp_elift by simp
  next
    case False
    then show ?thesis
      using E [OF r(1,2)]
      unfolding wp_eseq [of "elift x" for x] wp_elift by (auto simp: cloud_require_def)
  qed
  show ?thesis
    unfolding upload_run_def wp_ebind [of "budget S"]
  proof (rule wp_budget [OF start])
    fix r1 :: "'w traced run" and t
    assume r1: "run_inv ?n r1" "quiet ?r0 r1" "acquired r1 = acquired ?r0" "owner r1 = owner ?r0"
        "lg r1 = lg ?r0" "cost (lg r1) < operations r1" "cost (lg r1) < ?n"
    let ?r2 = "\<lambda>w x. r1\<lparr>world := (w, lg r1 @ [EAcquire x])\<rparr>"
    have unmutated: "mutations (lg (?r2 w x)) = []" "committed (?r2 w x) = 0" "\<not> acquired (?r2 w x)"
        "run_bookkeeping (?r2 w x)" "\<not> released_in (lg (?r2 w x))" for w x
      using r1 by (auto simp: quiet_def run_start_def run_inv_def run_bookkeeping_def mutations_def released_in_def)
    have none: "mutations (lg r1) = []" "committed r1 = 0"
      using r1(2) by (simp_all add: quiet_def run_start_def)
    have inv: "fenced (lg (?r2 w x))" "cost (lg (?r2 w x)) \<le> operations (?r2 w x)" "cost (lg (?r2 w x)) \<le> ?n" for w x
      using r1 by (auto simp: run_inv_def fenced_snoc)
    have ok: "wp (lease S reply True) (\<lambda>quota. wp (?t2 quota) ?Q ?E) ?E (?r2 w (Inr reply))" for reply w
    proof (rule wp_lease [where l = "lg r1" and n = ?n])
      show "owner (?r2 w (Inr reply)) = fst (lease_of (lg r1))"
        using r1(1) by (simp add: run_inv_def)
    next
      fix r3 :: "'w traced run" and q
      assume "run_inv ?n r3" "quiet (?r2 w (Inr reply)) r3"
      then show "wp (?t2 q) ?Q ?E r3"
        by (intro t2) (use none in \<open>auto simp: quiet_def\<close>)
    next
      fix r3 :: "'w traced run" and e
      assume "run_inv ?n r3" "quiet (?r2 w (Inr reply)) r3"
      then show "?E e r3"
        by (intro E) (use none in \<open>auto simp: quiet_def\<close>)
    next
      show "\<not> acquired (?r2 w (Inr reply))" "run_bookkeeping (?r2 w (Inr reply))"
          "\<not> released_in (lg (?r2 w (Inr reply)))"
        by (fact unmutated)+
    qed (use inv [of w "Inr reply"] in simp_all)
    have bad: "?E e (?r2 w (Inl e))" for w e
      by (rule E) (use unmutated [of w "Inl e"] none inv [of w "Inl e"] r1 in
          \<open>auto simp: run_inv_def lease_of_def lease_step_def run_start_def\<close>)
    show "wp (ebind (call (acquire (ops S) t)) (\<lambda>reply. ebind (lease S reply True) ?t2)) ?Q ?E r1"
      unfolding wp_ebind [of "call x" for x] wp_ebind [of "lease S x True" for x] wp_call ops logged_simps
      by (rule wp_note) (use ok bad in simp_all)
  next
    fix r1 :: "'w traced run" and e
    assume "run_inv ?n r1" "quiet ?r0 r1"
    then show "?E e r1"
      by (intro E) (auto simp: quiet_def run_start_def)
  qed
qed

end

definition upload_setting ::
  "'w operations \<Rightarrow> ('w, failure, unit) eff \<Rightarrow> write_limits \<Rightarrow> nat \<Rightarrow> (u8 list \<Rightarrow> u8 list) \<Rightarrow> 'w traced setting" where
  "upload_setting T A L d H = \<lparr>ops = logged T, assert_local = silent A, wlimits = L, due = d, hash = H\<rparr>"

interpretation uploads: logged_run "upload_setting T A L d H" T A for T A L d H
  by unfold_locales (simp_all add: upload_setting_def)

section \<open>Properties of upload\<close>

text \<open>The record of a whole upload: a run, and at its end the release of a lease that was held.\<close>

definition outcome ::
  "(u8 list \<Rightarrow> u8 list) \<Rightarrow> scope \<Rightarrow> state \<Rightarrow> string \<Rightarrow> nat \<Rightarrow> failure + receipt \<Rightarrow> event list \<Rightarrow> bool" where
  "outcome H sc local want n res l \<longleftrightarrow>
     (\<exists>core tail. l = core @ tail \<and> fenced core \<and> cost core \<le> n \<and> \<not> released_in core \<and>
        (tail = [] \<or> held core \<and> (\<exists>x. tail = [ERelease x])) \<and>
        (case res of
           Inl e \<Rightarrow> partial_run H local want core \<and> (mutations core \<noteq> [] \<longrightarrow> recovery_required e) \<and>
             committed_containers e \<le> length (mutations core)
         | Inr rc \<Rightarrow> complete_run H local want (receipt_source rc) (changed rc) core \<and>
             import_digest H local = Inr (receipt_source rc) \<and> receipt_before rc = want \<and>
             receipt_binding rc = scope_binding H sc))"

lemma outcome_refused: "committed_containers e = 0 \<Longrightarrow> outcome H sc local want n (Inl e) []"
  unfolding outcome_def by (intro exI [of _ "[]"]) (simp add: partial_run_def)

lemma finish_run_log:
  assumes "finish_run (upload_setting T A L d H) (res, r) = (res', rel, r')" "acquired r \<Longrightarrow> held (lg r)"
  shows "res' = res \<and> committed r' = committed r \<and> mutation_attempted r' = mutation_attempted r \<and>
    (\<exists>tail. lg r' = lg r @ tail \<and> (tail = [] \<or> held (lg r) \<and> (\<exists>x. tail = [ERelease x])))"
proof -
  define r2 where "r2 = (case res of Inl e \<Rightarrow> (case http_status e of Some s \<Rightarrow>
              if s = 401 \<or> s = 403 \<or> s = 409 then r\<lparr>acquired := False\<rparr> else r | None \<Rightarrow> r) | Inr _ \<Rightarrow> r)"
  have r2: "lg r2 = lg r" "committed r2 = committed r" "mutation_attempted r2 = mutation_attempted r"
      "acquired r2 \<Longrightarrow> acquired r"
    by (auto simp: r2_def split: sum.splits option.splits if_splits)
  show ?thesis
  proof (cases "acquired r2")
    case True
    obtain x w where "note_call ERelease (release T (cleanup L)) (world r2) = (x, w)"
      by (cases "note_call ERelease (release T (cleanup L)) (world r2)")
    moreover from this have "snd w = lg r2 @ [ERelease x]"
      by (auto simp: note_call_def split: prod.splits)
    ultimately show ?thesis
      using assms True r2 unfolding finish_run_def
      by (auto simp: r2_def [symmetric] Let_def call_def upload_setting_def)
  next
    case False
    then show ?thesis
      using assms(1) r2 unfolding finish_run_def by (auto simp: r2_def [symmetric] Let_def)
  qed
qed

lemma upload_outcome:
  assumes "upload H sc (logged T) local want (silent A) L (w, []) = (res, (w', l))"
  shows "outcome H sc local want (op_limit L) res l"
proof (cases "rbind (cloud_require (transport_scope T w = sc) ''invalid_scope'') (\<lambda>_.
            rbind (cloud_require (hex_digest want) ''invalid_input'') (\<lambda>_.
            rbind (map_err (\<lambda>_. Failure ''invalid_input'') (encode H local)) (\<lambda>_.
            rbind (import_digest H local) (\<lambda>source.
            rbind (cloud_require (snd (snd (counts local)) \<le> total_limit L \<and>
               list_all (\<lambda>(k, c). list_all (\<lambda>(n, b). length b \<le> blob_limit L) (blobs c)) (containers local))
               ''bounds'') (\<lambda>_. Inr source)))))")
  case (Inl e)
  then have "committed_containers e = 0"
    by (cases "encode H local"; cases "content_digest H local")
      (auto simp: result_simps cloud_require_eq_Inl import_digest_def)
  with Inl assms show ?thesis
    by (auto simp: upload_def intro: outcome_refused)
next
  case (Inr source)
  then have src: "import_digest H local = Inr source"
    by (auto simp: result_simps)
  obtain now w1 where c: "silent (clock T) (w, []) = (now, (w1, []))"
    by (cases "clock T w") (simp add: silent_def)
  let ?S = "upload_setting T A L (now + run_deadline L) H"
  obtain res1 r1 where run: "upload_run ?S local want source (snd (snd (counts local))) (run_start (w1, [])) = (res1, r1)"
    by (cases "upload_run ?S local want source (snd (snd (counts local))) (run_start (w1, []))")
  obtain res2 rel r2 where fin: "finish_run ?S (res1, r1) = (res2, rel, r2)"
    by (cases "finish_run ?S (res1, r1)") auto
  have S: "wlimits ?S = L" "hash ?S = H"
    by (simp_all add: upload_setting_def)
  note wp = uploads.wp_upload_run [of T A L "now + run_deadline L" H local want source
      "snd (snd (counts local))" w1, unfolded S]
  have inv: "run_inv (op_limit L) r1"
    using wp run by (cases res1) (auto simp: wp_def)
  have fl: "res2 = res1 \<and> committed r2 = committed r1 \<and> mutation_attempted r2 = mutation_attempted r1 \<and>
      (\<exists>tail. lg r2 = lg r1 @ tail \<and> (tail = [] \<or> held (lg r1) \<and> (\<exists>x. tail = [ERelease x])))"
    by (rule finish_run_log [OF fin]) (use inv in \<open>simp add: run_inv_def\<close>)
  then obtain tail where tail: "lg r2 = lg r1 @ tail" "tail = [] \<or> held (lg r1) \<and> (\<exists>x. tail = [ERelease x])"
    by blast
  have core: "fenced (lg r1) \<and> cost (lg r1) \<le> op_limit L \<and> \<not> released_in (lg r1)"
    using inv by (simp add: run_inv_def)
  have setting: "\<lparr>ops = logged T, assert_local = silent A, wlimits = L, due = now + run_deadline L, hash = H\<rparr> = ?S"
    by (simp add: upload_setting_def)
  obtain nc nb tb where cnt: "counts local = (nc, nb, tb)"
    by (cases "counts local")
  show ?thesis
  proof (cases res1)
    case e: (Inl e)
    have "partial_run H local want (lg r1)"
      using wp run e by (auto simp: wp_def)
    moreover have "res = Inl (failed r2 e)" "l = lg r2"
      using assms run fin fl e cnt unfolding upload_def logged_simps Inr
      by (auto simp: c setting)
    ultimately show ?thesis
      unfolding outcome_def using core tail fl inv
      by (intro exI [of _ "lg r1"] exI [of _ tail]) (simp add: failed_def run_inv_def run_bookkeeping_def)
  next
    case u: (Inr u)
    have "complete_run H local want source (committed r1) (lg r1)"
      using wp run u by (auto simp: wp_def)
    moreover have "\<exists>rc. res = Inr rc \<and> receipt_binding rc = scope_binding H sc \<and> receipt_source rc = source \<and>
        receipt_before rc = want \<and> changed rc = committed r2" and "l = lg r2"
      using assms run fin fl u cnt unfolding upload_def logged_simps Inr
      by (auto simp: c setting)
    ultimately show ?thesis
      unfolding outcome_def using core tail fl src
      by (intro exI [of _ "lg r1"] exI [of _ tail]) auto
  qed
qed

lemma outcome_fenced:
  assumes "outcome H sc local want n res l"
  shows "fenced l \<and> cost l \<le> n \<and> (\<forall>pre x post. l = pre @ ERelease x # post \<longrightarrow> post = [])"
proof -
  obtain core tail where c: "l = core @ tail" "fenced core" "cost core \<le> n" "\<not> released_in core"
      "tail = [] \<or> held core \<and> (\<exists>x. tail = [ERelease x])"
    using assms by (auto simp: outcome_def)
  have "post = []" if l: "l = pre @ ERelease x # post" for pre x post
  proof (cases post rule: rev_cases)
    case (snoc qs q)
    with l c(1,5) have "ERelease x \<in> set core"
      by (auto simp: append_eq_append_conv2 append_eq_Cons_conv Cons_eq_append_conv)
    with c(4) show ?thesis by (auto simp: released_in_def)
  qed
  moreover have "fenced l \<and> cost l \<le> n"
    using c by (auto simp: fenced_snoc)
  ultimately show ?thesis by blast
qed

text \<open>C12. Whatever the service answers and whenever the run is cancelled: data is only written, a
  container only replaced or deleted and the lease only released while the last confirmation names
  this run as the owner of the lease; the lease is released at most once, as the last call; and the
  calls that are paid for never exceed the limit.\<close>

theorem upload_fenced:
  assumes "upload H sc (logged T) local want (silent A) L (w, []) = (res, (w', l))"
  shows "(\<forall>pre e post. l = pre @ e # post \<longrightarrow> is_write e \<longrightarrow> held pre) \<and>
    (\<forall>pre x post. l = pre @ ERelease x # post \<longrightarrow> post = []) \<and>
    length (filter budgeted l) \<le> op_limit L"
  using outcome_fenced [OF upload_outcome [OF assms]] by (simp add: fenced_def cost_def)

lemma complete_run_append:
  assumes "complete_run H local want source n core" "mutations tail = []"
  shows "complete_run H local want source n (core @ tail)"
proof -
  have "mutations (core @ tail) = mutations core"
    using assms(2) by (simp add: mutations_append)
  with assms(1) show ?thesis
    using based_mono [of H want _ core "core @ tail"] read_back_quiet [of H source core "core @ tail"]
    by (auto simp: complete_run_def)
qed

text \<open>C13. A receipt means that the service gave the expected save before the first mutation, that
  exactly the containers that differ were written, each once and in order, and that afterwards the
  service read back a save with the digest of the local one.\<close>

theorem upload_receipt:
  assumes "upload H sc (logged T) local want (silent A) L (w, []) = (Inr rc, (w', l))"
  shows "\<exists>rem. based H want rem l \<and> mutations l = map wire_name (to_write H local rem) \<and>
    changed rc = length (to_write H local rem) \<and>
    import_digest H local = Inr (receipt_source rc) \<and> read_back H (receipt_source rc) l \<and>
    receipt_verifies rc (scope_binding H sc) (receipt_source rc) \<and> receipt_before rc = want"
proof -
  obtain core tail where c: "l = core @ tail" "tail = [] \<or> (\<exists>x. tail = [ERelease x])"
      "complete_run H local want (receipt_source rc) (changed rc) core"
      "import_digest H local = Inr (receipt_source rc)" "receipt_before rc = want"
      "receipt_binding rc = scope_binding H sc"
    using upload_outcome [OF assms] by (auto simp: outcome_def)
  have "mutations tail = []"
    using c(2) by (auto simp: mutations_def)
  from complete_run_append [OF c(3) this] c show ?thesis
    by (auto simp: complete_run_def receipt_verifies_def)
qed

lemma inj_wire_name: "inj_on wire_name X"
  by (auto simp: inj_on_def wire_name_def)

lemma distinct_partial: "partial_run H local want l \<Longrightarrow> distinct (mutations l)"
proof (cases "mutations l = []")
  case False
  assume "partial_run H local want l"
  with False obtain rem where "prefix (mutations l) (map wire_name (to_write H local rem))"
    by (auto simp: partial_run_def)
  moreover have "distinct (map wire_name (to_write H local rem))"
    by (simp add: distinct_map inj_wire_name to_write_def)
  ultimately show ?thesis
    by (auto simp: prefix_def)
qed simp

text \<open>C14. A failed upload has mutated an initial part of what it had to write, after reading the
  expected save, and no container twice; if it mutated anything the failure asks for recovery, and
  it never claims more commits than there were mutations.\<close>

theorem upload_failure:
  assumes "upload H sc (logged T) local want (silent A) L (w, []) = (Inl e, (w', l))"
  shows "(mutations l = [] \<or> (\<exists>rem. based H want rem l \<and>
       prefix (mutations l) (map wire_name (to_write H local rem)))) \<and> distinct (mutations l) \<and>
    (mutations l \<noteq> [] \<longrightarrow> recovery_required e) \<and> committed_containers e \<le> length (mutations l)"
proof -
  obtain core tail where c: "l = core @ tail" "tail = [] \<or> (\<exists>x. tail = [ERelease x])"
      "partial_run H local want core" "mutations core \<noteq> [] \<longrightarrow> recovery_required e"
      "committed_containers e \<le> length (mutations core)"
    using upload_outcome [OF assms] by (auto simp: outcome_def)
  have m: "mutations l = mutations core"
    using c(1,2) by (auto simp: mutations_append mutations_def)
  have pr: "partial_run H local want l"
    using c(3) m based_mono [of H want _ core l] c(1) by (auto simp: partial_run_def)
  from distinct_partial [OF pr] pr c(4,5) m show ?thesis
    by (simp add: partial_run_def)
qed

section \<open>Witnesses\<close>

text \<open>A service that holds one save and takes the new one with the first mutation; a stand-in digest
  of 32 bytes; and the same service refusing that mutation.\<close>

definition w_hash :: "u8 list \<Rightarrow> u8 list" where
  "w_hash b = replicate 31 0 @ [word_of_nat (length b)]"

definition w_local :: state where
  "w_local = \<lparr>generation = 1, containers = [(''a'', \<lparr>display_name = [], modified = 0, blobs = [(''d'', [7])]\<rparr>)]\<rparr>"

definition w_remote :: state where
  "w_remote = \<lparr>generation = 0, containers = []\<rparr>"

definition w_lease :: lease_reply where
  "w_lease = \<lparr>lease_status = 200, owner_change_id = ''o'', quota_bytes = 100\<rparr>"

definition w_service :: "u16 \<Rightarrow> bool operations" where
  "w_service answer = \<lparr>transport_scope = (\<lambda>_. w_scope (CHR ''1'')),
     read_op = (\<lambda>_ _ _ w. (Inl (Failure ''unused''), w)),
     load_cancel = (\<lambda>w. (False, w)), clock = (\<lambda>w. (0, w)),
     acquire = (\<lambda>_ w. (Inr w_lease, w)), renew_lease = (\<lambda>_ w. (Inr w_lease, w)),
     release = (\<lambda>_ w. (Inr 204, w)), upload_atom = (\<lambda>_ _ w. (Inr w_guid, w)),
     put_container = (\<lambda>_ _ _ _ _ w. (Inr answer, answer = 200)),
     delete_container = (\<lambda>_ _ w. (Inr 404, w)),
     remote_state = (\<lambda>_ _ w. (Inr (if w then w_local else w_remote), w))\<rparr>"

definition w_want :: string where
  "w_want = (case import_digest w_hash w_remote of Inr d \<Rightarrow> d | Inl _ \<Rightarrow> [])"

definition w_upload :: "u16 \<Rightarrow> (failure + receipt) \<times> bool traced" where
  "w_upload answer = upload w_hash (w_scope (CHR ''1'')) (logged (w_service answer)) w_local w_want
     (silent (eret ())) write_limits_default (False, [])"

lemma w_upload_runs:
  "(case w_upload 200 of (Inr rc, (w, l)) \<Rightarrow> changed rc = 1 \<and> released rc \<and> w \<and> mutations l = [''a,savedgame''] | _ \<Rightarrow> False)"
  "(case w_upload 409 of (Inl e, (w, l)) \<Rightarrow> code e = ''lease_lost'' \<and> mutations l = [''a,savedgame''] | _ \<Rightarrow> False)"
  by code_simp+

theorem upload_fenced_witness:
  "\<exists>res w l. w_upload 409 = (res, (w, l)) \<and> length (filter budgeted l) \<le> 8192"
proof -
  obtain res w l where r: "w_upload 409 = (res, (w, l))"
    by (cases "w_upload 409") auto
  from upload_fenced [OF r [unfolded w_upload_def]] r show ?thesis
    by (auto simp: write_limits_default_def)
qed

theorem upload_receipt_witness:
  "\<exists>rc w l. w_upload 200 = (Inr rc, (w, l)) \<and> changed rc = 1 \<and> read_back w_hash (receipt_source rc) l"
proof -
  obtain rc w l where r: "w_upload 200 = (Inr rc, (w, l))" and c: "changed rc = 1"
    using w_upload_runs(1) by (auto split: prod.splits sum.splits)
  from upload_receipt [OF r [unfolded w_upload_def]] r c show ?thesis by blast
qed

theorem upload_failure_witness:
  "\<exists>e w l. w_upload 409 = (Inl e, (w, l)) \<and> mutations l = [''a,savedgame''] \<and> recovery_required e"
proof -
  obtain e w l where r: "w_upload 409 = (Inl e, (w, l))" and m: "mutations l = [''a,savedgame'']"
    using w_upload_runs(2) by (auto split: prod.splits sum.splits)
  from upload_failure [OF r [unfolded w_upload_def]] r m show ?thesis by auto
qed

end
