(* ===== verification/Coordinator.thy ===== *)
theory Coordinator
  imports Errors
begin

text \<open>
  \<^verbatim>\<open>native/backend.rs\<close>: the coordinator that owns the selected runtime, the one active job, the game
  process and their leases. Every operation holds the state's mutex, so it is one atomic step on the
  record \<open>launcher\<close>. The flags shared by \<^verbatim>\<open>Arc<AtomicBool>\<close> are cells of a store, and what an
  operation learns from the system (the child process, the lock file, the clock, a fresh identifier)
  is the record \<open>sight\<close>. Selecting and registering installations is file system work.
\<close>

section \<open>State\<close>

record active =
  act_id :: string
  act_kind :: string
  act_runtime :: "string option"
  act_lease :: "string option"
  act_cancel :: nat
  act_pause :: nat

record steam =
  steam_id :: string
  steam_context :: string

record launcher =
  steam :: "steam option"
  runtime :: "string option"
  process :: "nat option"
  exit_code :: "int option"
  stopping :: bool
  closing :: bool
  active :: "active option"
  jobs :: "(string, json) btree"
  plans :: "(string, json) btree"
  cloud :: json
  installation_report :: json
  startup_worker :: "nat option"
  fenix_worker :: "nat option"
  launcher_worker :: "nat option"
  launcher_job :: json
  cells :: "bool list"

record ctx =
  ctx_id :: string
  ctx_kind :: string
  ctx_runtime :: "string option"
  ctx_cancel :: nat
  ctx_pause :: nat

datatype lock_answer = Free | Missing | Held

record sight =
  exited :: "int option option"
  steam_busy :: bool
  lock_probe :: lock_answer
  lock_take :: "error + unit"
  stamp :: string
  fresh_id :: string

text \<open>The state \<^verbatim>\<open>Launcher::new\<close> builds from the restored selection and report.\<close>

definition launcher_new :: "steam option \<Rightarrow> string option \<Rightarrow> json \<Rightarrow> launcher" where
  "launcher_new item root report = \<lparr>steam = item, runtime = root, process = None, exit_code = None,
     stopping = False, closing = False, active = None, jobs = [], plans = [],
     cloud = JObj [(''enabled'', JBool True), (''state'', JStr ''idle''), (''phase'', JNull),
       (''message'', JStr []), (''error_code'', JNull), (''error_details'', JObj []),
       (''can_retry'', JBool False), (''can_play_local'', JBool False), (''can_cancel'', JBool False),
       (''request_id'', JNull), (''last_synced_at'', JNull), (''conflict'', JBool False),
       (''summary'', JNull)],
     installation_report = report, startup_worker = None, fenix_worker = None, launcher_worker = None,
     launcher_job = JNull, cells = []\<rparr>"

text \<open>A Rust value behind \<^verbatim>\<open>Arc<AtomicBool>\<close>: reading and setting a cell.\<close>

definition cell :: "launcher \<Rightarrow> nat \<Rightarrow> bool" where
  "cell s c \<longleftrightarrow> c < length (cells s) \<and> cells s ! c"

definition set_cell :: "nat \<Rightarrow> launcher \<Rightarrow> launcher" where
  "set_cell c s = s\<lparr>cells := (cells s)[c := True]\<rparr>"

definition set_opt_cell :: "nat option \<Rightarrow> launcher \<Rightarrow> launcher" where
  "set_opt_cell m s = (case m of None \<Rightarrow> s | Some c \<Rightarrow> set_cell c s)"

text \<open>The comparison \<^verbatim>\<open>v[key] == "text"\<close>.\<close>

definition is_text :: "json \<Rightarrow> string \<Rightarrow> string \<Rightarrow> bool" where
  "is_text v key t \<longleftrightarrow> jget v key = JStr t"

definition job_of :: "launcher \<Rightarrow> string \<Rightarrow> json option" where
  "job_of s k = bt_get (jobs s) k"

definition set_job :: "string \<Rightarrow> json \<Rightarrow> launcher \<Rightarrow> launcher" where
  "set_job k j s = s\<lparr>jobs := bt_put k j (jobs s)\<rparr>"

fun take_chars :: "nat \<Rightarrow> string \<Rightarrow> string" where
  "take_chars n [] = []"
| "take_chars n (c # cs) =
     (if 128 \<le> ord c \<and> ord c \<le> 191 then c # take_chars n cs
      else if n = 0 then [] else c # take_chars (n - 1) cs)"

section \<open>Messages\<close>

definition NOT_CURRENT :: string where
  "NOT_CURRENT = ''Dieser Vorgang ist nicht mehr aktuell.''"

definition NO_RUNTIME :: string where
  "NO_RUNTIME = (''Zuerst eine Runtime ausw'' @ a_uml @ ''hlen.'')"

definition RESTARTING :: string where
  "RESTARTING = (''Der Launcher wird f'' @ u_uml @
    ''r ein Update neu gestartet. Bitte gleich erneut versuchen.'')"

definition ONE_AT_A_TIME :: string where
  "ONE_AT_A_TIME = (''Die Einrichtung ben'' @ o_uml @
    ''tigt ein beendetes Spiel und darf nur einmal laufen.'')"

section \<open>Guards\<close>

definition poll :: "sight \<Rightarrow> launcher \<Rightarrow> launcher" where
  "poll e s =
     (if process s = None then s
      else (case exited e of None \<Rightarrow> s
        | Some result \<Rightarrow>
            let s = s\<lparr>exit_code := (case result of None \<Rightarrow> Some (-1) | Some c \<Rightarrow> Some c), stopping := False\<rparr>
            in if (case active s of None \<Rightarrow> False | Some a \<Rightarrow> act_kind a = ''cloud-auto'') then s
               else s\<lparr>process := None\<rparr>))"

definition context_name :: "launcher \<Rightarrow> string" where
  "context_name s = (case steam s of Some i \<Rightarrow> steam_context i
     | None \<Rightarrow> (case runtime s of Some p \<Rightarrow> p | None \<Rightarrow> []))"

definition external :: "sight \<Rightarrow> launcher \<Rightarrow> bool" where
  "external e s =
     (if steam s \<noteq> None then steam_busy e
      else (case runtime s of None \<Rightarrow> False
        | Some root \<Rightarrow>
            if process s \<noteq> None \<or>
               (case active s of None \<Rightarrow> False
                | Some a \<Rightarrow> act_runtime a = Some root \<and> act_lease a \<noteq> None)
            then False
            else (case lock_probe e of Free \<Rightarrow> False | Missing \<Rightarrow> False | Held \<Rightarrow> True)))"

definition open_now :: "launcher \<Rightarrow> error + unit" where
  "open_now s = require (\<not> closing s) RESTARTING"

text \<open>The guard of every change; polling is its effect even when it refuses.\<close>

definition idle :: "sight \<Rightarrow> launcher \<Rightarrow> (error + unit) \<times> launcher" where
  "idle e s =
     (case open_now s of Inl x \<Rightarrow> (Inl x, s)
      | Inr _ \<Rightarrow> (let s = poll e s in
          (require (active s = None \<and> process s = None \<and> \<not> external e s) ONE_AT_A_TIME, s)))"

section \<open>Reserving\<close>

definition new_active :: "string \<Rightarrow> string \<Rightarrow> string option \<Rightarrow> string option \<Rightarrow> launcher \<Rightarrow> active" where
  "new_active i k root lock s = \<lparr>act_id = i, act_kind = k, act_runtime = root, act_lease = lock,
     act_cancel = length (cells s), act_pause = length (cells s) + 1\<rparr>"

definition ctx_of :: "active \<Rightarrow> ctx" where
  "ctx_of a = \<lparr>ctx_id = act_id a, ctx_kind = act_kind a, ctx_runtime = act_runtime a,
     ctx_cancel = act_cancel a, ctx_pause = act_pause a\<rparr>"

definition install :: "active \<Rightarrow> launcher \<Rightarrow> launcher" where
  "install a s = s\<lparr>cells := cells s @ [False, False], active := Some a\<rparr>"

definition play_lock :: "string \<Rightarrow> string" where
  "play_lock root = root @ ''/private/play.lock''"

definition take_lock :: "sight \<Rightarrow> bool \<Rightarrow> string option \<Rightarrow> error + string option" where
  "take_lock e needs_runtime root =
     rbind (require (\<not> needs_runtime \<or> root \<noteq> None) NO_RUNTIME) (\<lambda>_.
     if needs_runtime then
       rbind (ok_or root (Invalid NO_RUNTIME)) (\<lambda>r.
       rbind (lock_take e) (\<lambda>_. Inr (Some (play_lock r))))
     else Inr None)"

definition reserve_root :: "launcher \<Rightarrow> string option" where
  "reserve_root s = (if steam s \<noteq> None then None else runtime s)"

definition new_job :: "sight \<Rightarrow> string \<Rightarrow> launcher \<Rightarrow> json" where
  "new_job e operation s = JObj
     [(''id'', JStr (fresh_id e)), (''operation'', JStr operation), (''state'', JStr ''running''),
      (''runtime_path'', case steam s of Some item \<Rightarrow> JStr (steam_context item)
         | None \<Rightarrow> jopt JStr (reserve_root s)),
      (''installation_id'', jopt JStr (map_option steam_id (steam s))),
      (''message'', JStr (''Vorgang wird vorbereitet '' @
        [CHR 0xE2, CHR 0x80, CHR 0xA6])), (''started_at'', JStr (stamp e))]"

definition reserve :: "sight \<Rightarrow> string \<Rightarrow> string \<Rightarrow> bool \<Rightarrow> launcher \<Rightarrow> (error + ctx) \<times> launcher" where
  "reserve e kind operation needs_runtime s =
     (case idle e s of (Inl x, s) \<Rightarrow> (Inl x, s)
      | (Inr _, s) \<Rightarrow>
         (case take_lock e needs_runtime (reserve_root s) of
            Inl x \<Rightarrow> (Inl x, s)
          | Inr lock \<Rightarrow>
             let a = new_active (fresh_id e) kind (reserve_root s) lock s
             in (Inr (ctx_of a), install a (set_job kind (new_job e operation s) s))))"

section \<open>Reports of a running job\<close>

definition progress :: "ctx \<Rightarrow> string \<Rightarrow> launcher \<Rightarrow> launcher" where
  "progress c message s =
     (let text = JStr (take_chars 1500 message);
          s = (if ctx_kind c = ''cloud-auto'' \<and> is_text (cloud s) ''request_id'' (ctx_id c)
               then s\<lparr>cloud := jset ''message'' text (cloud s)\<rparr> else s)
      in case job_of s (ctx_kind c) of None \<Rightarrow> s
         | Some j \<Rightarrow> if is_text j ''id'' (ctx_id c)
                    then set_job (ctx_kind c) (jset ''message'' text j) s else s)"

definition update :: "ctx \<Rightarrow> json \<Rightarrow> launcher \<Rightarrow> launcher" where
  "update c patch s =
     (case job_of s (ctx_kind c) of None \<Rightarrow> s
      | Some j \<Rightarrow>
          if is_text j ''id'' (ctx_id c) then
            (case (as_object j, as_object patch) of
               (Some _, Some m) \<Rightarrow> set_job (ctx_kind c) (jextend m j) s | _ \<Rightarrow> s)
          else s)"

definition interrupted :: "ctx \<Rightarrow> launcher \<Rightarrow> error + unit" where
  "interrupted c s = (if cell s (ctx_cancel c) then Inl Cancelled else Inr ())"

definition begin_commit :: "ctx \<Rightarrow> string \<Rightarrow> string \<Rightarrow> launcher \<Rightarrow> (error + unit) \<times> launcher" where
  "begin_commit c phase message s =
     (case rbind (interrupted c s) (\<lambda>_.
           rbind (require (case active s of None \<Rightarrow> False | Some a \<Rightarrow> act_id a = ctx_id c) NOT_CURRENT) (\<lambda>_.
           ok_or (job_of s (ctx_kind c)) (Invalid NOT_CURRENT))) of
        Inl x \<Rightarrow> (Inl x, s)
      | Inr j \<Rightarrow>
          (Inr (), set_job (ctx_kind c)
            (jset ''can_cancel'' (JBool False) (jset ''can_resume'' (JBool False)
             (jset ''can_pause'' (JBool False) (jset ''message'' (JStr message)
             (jset ''phase'' (JStr phase) j))))) s))"

definition ctx_root :: "ctx \<Rightarrow> error + string" where
  "ctx_root c = ok_or (ctx_runtime c) (Invalid NO_RUNTIME)"

definition ctx_lease :: "ctx \<Rightarrow> launcher \<Rightarrow> error + string" where
  "ctx_lease c s =
     rbind (ok_or (case active s of Some a \<Rightarrow> if act_id a = ctx_id c then Some a else None | None \<Rightarrow> None)
       (Invalid NOT_CURRENT)) (\<lambda>a.
     ok_or (act_lease a) (Invalid ''Die Runtime ist nicht reserviert.''))"

section \<open>Finishing\<close>

definition finish_ok :: "sight \<Rightarrow> json \<Rightarrow> bool \<Rightarrow> json \<Rightarrow> json" where
  "finish_ok e extra retain j =
     (let j = (case (as_object j, as_object extra) of (Some _, Some m) \<Rightarrow> jextend m j | _ \<Rightarrow> j);
          j = (if is_text j ''state'' ''running'' then jset ''state'' (JStr ''complete'') j else j)
      in if retain then j else jset ''completed_at'' (JStr (stamp e)) j)"

definition u16_json :: "u16 \<Rightarrow> json" where
  "u16_json w = jnum (unat w)"

definition cloud_details :: "failure \<Rightarrow> json" where
  "cloud_details f =
     (let d = JObj [(''http_status'', jopt u16_json (http_status f)),
            (''native_hresult'', jopt (\<lambda>w. jnum (unat w)) (native_hresult f))]
      in case Option.bind (detail f) as_object of None \<Rightarrow> d | Some m \<Rightarrow> jextend m d)"

definition finish_cloud :: "sight \<Rightarrow> failure \<Rightarrow> json \<Rightarrow> json" where
  "finish_cloud e f j =
     jset ''auth_required'' (JBool (code f = ''authentication''))
      (jset ''error_details'' (cloud_details f)
      (jset ''finished_at'' (JStr (stamp e))
      (jset ''result'' JNull
      (jset ''committed_containers'' (jnum (committed_containers f))
      (jset ''recovery_required'' (JBool (recovery_required f))
      (jset ''error_code'' (JStr (code f))
      (jset ''state'' (JStr (if code f = ''cancelled'' \<and> \<not> recovery_required f then ''cancelled'' else ''failed''))
        j)))))))"

definition finish_error :: "sight \<Rightarrow> error \<Rightarrow> json \<Rightarrow> json" where
  "finish_error e x j =
     (let j = jset ''error'' (JStr (error_text x)) (jset ''message'' (JStr (error_text x))
            (jset ''state'' (JStr (if x = Cancelled then ''cancelled'' else ''failed'')) j));
          j = (if is_text j ''phase'' ''download_failed'' then j
               else jset ''failure_phase'' (jget j ''phase'') j);
          j = jset ''phase'' (jget j ''state'') j;
          j = jset ''transfer'' JNull (jset ''can_retry'' (JBool False)
            (jset ''can_resume'' (JBool False) (jset ''can_pause'' (JBool False) j)));
          j = jset ''auth_required'' (JBool (case x of AuthRequired _ \<Rightarrow> True | _ \<Rightarrow> False)) j
      in case x of Cloud f \<Rightarrow> finish_cloud e f j | _ \<Rightarrow> j)"

definition owns :: "launcher \<Rightarrow> string \<Rightarrow> bool" where
  "owns s i \<longleftrightarrow> (case active s of None \<Rightarrow> False | Some a \<Rightarrow> act_id a = i)"

text \<open>\<open>persist\<close> is \<^verbatim>\<open>setup_diagnostics::persist\<close>: it writes the report and returns it.\<close>

definition finish :: "(json \<Rightarrow> json) \<Rightarrow> sight \<Rightarrow> ctx \<Rightarrow> error + json \<Rightarrow> bool \<Rightarrow> launcher \<Rightarrow> launcher" where
  "finish persist e c res retain s =
     (if \<not> owns s (ctx_id c) then s
      else
        let s = (case job_of s (ctx_kind c) of None \<Rightarrow> s
            | Some j \<Rightarrow> set_job (ctx_kind c)
                (case res of Inr extra \<Rightarrow> finish_ok e extra retain j | Inl x \<Rightarrow> finish_error e x j) s);
            s = (if ctx_kind c = ''setup'' then
                   (case job_of s ''setup'' of None \<Rightarrow> s | Some j \<Rightarrow> s\<lparr>installation_report := persist j\<rparr>)
                 else s)
        in if \<not> retain \<or> (case job_of s (ctx_kind c) of None \<Rightarrow> False
               | Some j \<Rightarrow> is_text j ''state'' ''failed'' \<or> is_text j ''state'' ''cancelled'')
           then s\<lparr>active := None\<rparr> else s)"

section \<open>Continuing, cancelling and closing\<close>

definition job_ready :: "launcher \<Rightarrow> string \<Rightarrow> string \<Rightarrow> bool" where
  "job_ready s kind i \<longleftrightarrow> (case job_of s kind of None \<Rightarrow> False
     | Some j \<Rightarrow> is_text j ''id'' i \<and> is_text j ''state'' ''ready'')"

text \<open>A prepared update may be continued after its reservation was given up, on the same runtime.\<close>

definition rearm :: "sight \<Rightarrow> string \<Rightarrow> string \<Rightarrow> launcher \<Rightarrow> (error + unit) \<times> launcher" where
  "rearm e kind i s =
     (if active s \<noteq> None then (Inr (), s)
      else
       (case require (case job_of s kind of None \<Rightarrow> False
           | Some j \<Rightarrow> is_text j ''mode'' ''update'' \<and> as_str (jget j ''runtime_path'') = runtime s)
           (''Das installierte Spiel hat sich ge'' @ a_uml @ ''ndert. Bitte Updates erneut pr'' @
             u_uml @ ''fen.'') of
          Inl x \<Rightarrow> (Inl x, s)
        | Inr _ \<Rightarrow>
         (case idle e s of (Inl x, s) \<Rightarrow> (Inl x, s)
          | (Inr _, s) \<Rightarrow>
           (case rbind (ok_or (runtime s) (Invalid NO_RUNTIME)) (\<lambda>r. rbind (lock_take e) (\<lambda>_. Inr r)) of
              Inl x \<Rightarrow> (Inl x, s)
            | Inr r \<Rightarrow> (Inr (), install (new_active i kind (Some r) (Some (play_lock r)) s) s)))))"

definition continuation :: "sight \<Rightarrow> string \<Rightarrow> string \<Rightarrow> launcher \<Rightarrow> (error + ctx) \<times> launcher" where
  "continuation e kind i s =
     (case rbind (open_now s) (\<lambda>_.
           require (job_ready s kind i) (''Bitte die ausgew'' @ a_uml @
             ''hlten Dateien zuerst erneut pr'' @ u_uml @ ''fen.'')) of
        Inl x \<Rightarrow> (Inl x, s)
      | Inr _ \<Rightarrow>
        (case rearm e kind i s of (Inl x, s) \<Rightarrow> (Inl x, s)
         | (Inr _, s) \<Rightarrow>
          (case active s of
             Some a \<Rightarrow>
               if act_kind a = kind \<and> act_id a = i \<and> \<not> cell s (act_cancel a) then
                 (Inr \<lparr>ctx_id = i, ctx_kind = kind, ctx_runtime = act_runtime a,
                    ctx_cancel = act_cancel a, ctx_pause = act_pause a\<rparr>,
                  (case job_of s kind of None \<Rightarrow> s
                   | Some j \<Rightarrow> set_job kind
                      (jset ''message'' (JStr (''Eingaben werden vor der '' @ big_u_uml @
                        ''bernahme erneut gepr'' @ u_uml @ ''ft '' @ [CHR 0xE2, CHR 0x80, CHR 0xA6]))
                      (jset ''phase'' (JStr ''recheck'') (jset ''state'' (JStr ''installing'') j))) s))
               else (Inl (Invalid NOT_CURRENT), s)
           | None \<Rightarrow> (Inl (Invalid NOT_CURRENT), s))))"

definition committing :: "launcher \<Rightarrow> string \<Rightarrow> string \<Rightarrow> bool" where
  "committing s kind i \<longleftrightarrow> (case job_of s kind of None \<Rightarrow> False
     | Some j \<Rightarrow> is_text j ''id'' i \<and> (is_text j ''phase'' ''switch_update'' \<or>
         is_text j ''phase'' ''publish_runtime'' \<or> is_text j ''phase'' ''removing''))"

definition ok_true :: json where
  "ok_true = JObj [(''ok'', JBool True)]"

definition drop_plan :: "string \<Rightarrow> launcher \<Rightarrow> launcher" where
  "drop_plan kind s = s\<lparr>plans := bt_del kind (plans s)\<rparr>"

text \<open>Cancelling a prepared update that holds no reservation, and cancelling the active job.\<close>

definition cancel_prepared :: "string \<Rightarrow> launcher \<Rightarrow> launcher" where
  "cancel_prepared kind s =
     drop_plan kind (case job_of s kind of None \<Rightarrow> s
       | Some j \<Rightarrow> set_job kind (jset ''message'' (JStr ''Einrichtung abgebrochen.'')
           (jset ''state'' (JStr ''cancelled'') j)) s)"

definition cancel_active :: "active \<Rightarrow> string \<Rightarrow> launcher \<Rightarrow> launcher" where
  "cancel_active a kind s =
     (let s = set_cell (act_cancel a) s;
          ready = (case job_of s kind of None \<Rightarrow> False | Some j \<Rightarrow> is_text j ''state'' ''ready'');
          s = (case job_of s kind of None \<Rightarrow> s
               | Some j \<Rightarrow>
                   let j = jset ''message'' (JStr (''Vorgang wird abgebrochen '' @
                     [CHR 0xE2, CHR 0x80, CHR 0xA6]))
                         (jset ''can_cancel'' (JBool False) j)
                   in set_job kind (if ready then jset ''state'' (JStr ''cancelled'') j else j) s)
      in if ready then drop_plan kind (s\<lparr>active := None\<rparr>) else s)"

definition cancel :: "string \<Rightarrow> string \<Rightarrow> launcher \<Rightarrow> (error + json) \<times> launcher" where
  "cancel kind i s =
     (case require (\<not> committing s kind i)
        ''Der atomare Spielwechsel wird gerade abgeschlossen. Bitte kurz warten.'' of
        Inl x \<Rightarrow> (Inl x, s)
      | Inr _ \<Rightarrow>
        if (case job_of s kind of None \<Rightarrow> False
            | Some j \<Rightarrow> is_text j ''id'' i \<and> is_text j ''mode'' ''update'' \<and> is_text j ''state'' ''ready'') \<and>
           \<not> owns s i
        then (Inr ok_true, cancel_prepared kind s)
        else
          (case active s of
             Some a \<Rightarrow>
               if act_kind a = kind \<and> act_id a = i then (Inr ok_true, cancel_active a kind s)
               else (Inl (Invalid NOT_CURRENT), s)
           | None \<Rightarrow> (Inl (Invalid NOT_CURRENT), s)))"

definition job :: "string \<Rightarrow> launcher \<Rightarrow> json" where
  "job kind s = (case job_of s kind of None \<Rightarrow> JNull | Some j \<Rightarrow> j)"

text \<open>\<open>kill\<close> is the signal sent to the child.\<close>

definition stop :: "(nat \<Rightarrow> error + unit) \<Rightarrow> sight \<Rightarrow> launcher \<Rightarrow> (error + json) \<times> launcher" where
  "stop kill e s =
     (let s = poll e s in
      case process s of
        None \<Rightarrow> (Inl (Invalid (''Es l'' @ a_uml @
          ''uft kein von Flightdeck gestartetes Spiel.'')), s)
      | Some child \<Rightarrow>
          (case kill child of Inl x \<Rightarrow> (Inl x, s) | Inr _ \<Rightarrow> (Inr ok_true, s\<lparr>stopping := True\<rparr>)))"

definition refresh :: "sight \<Rightarrow> launcher \<Rightarrow> json \<times> launcher" where
  "refresh e s =
     (case idle e s of (r, s) \<Rightarrow>
        (JObj [(''ok'', JBool True), (''refresh'', JStr (if is_ok r then ''restarting'' else ''busy''))],
         if is_ok r then s\<lparr>closing := True\<rparr> else s))"

definition close_ready :: "launcher \<Rightarrow> launcher" where
  "close_ready s =
     (case active s of None \<Rightarrow> s
      | Some a \<Rightarrow>
         (case job_of s (act_kind a) of None \<Rightarrow> s
          | Some j \<Rightarrow>
              if is_text j ''state'' ''ready'' then
                (drop_plan (act_kind a) (set_job (act_kind a) (jset ''state'' (JStr ''cancelled'') j)
                   (set_cell (act_cancel a) s)))\<lparr>active := None\<rparr>
              else s))"

definition close :: "launcher \<Rightarrow> launcher" where
  "close s =
     (let s = s\<lparr>closing := True\<rparr>;
          s = set_opt_cell (startup_worker s) s;
          s = set_opt_cell (fenix_worker s) s;
          s = (if as_bool (jget (launcher_job s) ''can_cancel'') = Some True
               then set_opt_cell (launcher_worker s) s else s);
          s = close_ready s
      in case active s of None \<Rightarrow> s
         | Some a \<Rightarrow>
             if act_kind a \<noteq> ''cloud-auto'' \<or> is_text (cloud s) ''phase'' ''before_start'' \<and> process s = None
             then set_cell (act_cancel a) s else s)"

section \<open>Work on a background thread, settings and backups\<close>

text \<open>\<open>field_text\<close> is \<^verbatim>\<open>backend::string\<close>; \<open>path_eq\<close> is the equality of \<^verbatim>\<open>std::path::Path\<close>, by components.\<close>

definition field_text :: "json \<Rightarrow> string \<Rightarrow> error + string" where
  "field_text v key = ok_or (Option.bind (jfind v key) as_str) (Invalid (''Ung'' @ u_uml @
    ''ltige Anfrageparameter.''))"

definition path_parts :: "string \<Rightarrow> string list" where
  "path_parts p =
     (let parts = split_on CHR ''/'' p
      in (if hd parts = [] \<and> p \<noteq> [] then [''/''] else if hd parts = ''.'' then [''.''] else []) @
         filter (\<lambda>x. x \<noteq> [] \<and> x \<noteq> ''.'') parts)"

definition path_eq :: "string \<Rightarrow> string \<Rightarrow> bool" where
  "path_eq a b \<longleftrightarrow> path_parts a = path_parts b"

definition launcher_root :: "launcher \<Rightarrow> error + string" where
  "launcher_root s =
     rbind (require (steam s = None)
       (''Diese Aktion geh'' @ o_uml @ ''rt zur Xbox-Installation. F'' @ u_uml @
         ''r Steam die Steam-Verwaltung verwenden.'')) (\<lambda>_.
     ok_or (runtime s) (Invalid NO_RUNTIME))"

text \<open>\<open>start_job\<close> is the part of the request, \<open>end_job\<close> the end of the thread; \<open>None\<close> is a caught panic.\<close>

definition start_job :: "sight \<Rightarrow> string \<Rightarrow> string \<Rightarrow> bool \<Rightarrow> launcher \<Rightarrow> (error + json \<times> ctx) \<times> launcher" where
  "start_job e kind operation needs_runtime s =
     (case reserve e kind operation needs_runtime s of
        (Inl x, s) \<Rightarrow> (Inl x, s)
      | (Inr c, s) \<Rightarrow> (Inr (JObj [(''ok'', JBool True), (''job_id'', JStr (ctx_id c))], c), s))"

definition end_job ::
  "(json \<Rightarrow> json) \<Rightarrow> sight \<Rightarrow> ctx \<Rightarrow> (error + json) option \<Rightarrow> launcher \<Rightarrow> launcher" where
  "end_job persist e c work s =
     finish persist e c (case work of Some res \<Rightarrow> res
       | None \<Rightarrow> Inl (Invalid ''Der Vorgang wurde unerwartet beendet.'')) False s"

text \<open>\<open>saves\<close> and \<open>backup\<close> are \<^verbatim>\<open>runtime::saves\<close> and \<^verbatim>\<open>runtime::backup\<close>, \<open>put\<close> is \<^verbatim>\<open>files::atomic_json\<close>.\<close>

definition save_backup ::
  "(string \<Rightarrow> json) \<Rightarrow> (string \<Rightarrow> error + json) \<Rightarrow> sight \<Rightarrow> launcher \<Rightarrow> (error + json) \<times> launcher" where
  "save_backup saves backup e s =
     (case idle e s of (Inl x, s) \<Rightarrow> (Inl x, s)
      | (Inr _, s) \<Rightarrow>
         (rbind (ok_or (runtime s) (Invalid NO_RUNTIME)) (\<lambda>r.
          rbind (require (as_bool (jget (saves r) ''can_backup'') = Some True)
            (''Ein Backup ben'' @ o_uml @ ''tigt vorhandene lokale Spielst'' @ a_uml @
              ''nde und ein beendetes Spiel.'')) (\<lambda>_.
          rbind (lock_take e) (\<lambda>_. backup r))), s))"

definition configure_setting ::
  "(string \<Rightarrow> json \<Rightarrow> error + unit) \<Rightarrow> sight \<Rightarrow> json \<Rightarrow> string \<Rightarrow> string \<Rightarrow> string list \<Rightarrow> launcher \<Rightarrow>
   (error + json) \<times> launcher" where
  "configure_setting put e data file key choices s =
     (case rbind (field_text data ''runtime_path'') (\<lambda>selected.
           rbind (field_text data key) (\<lambda>v.
           rbind (require (v \<in> set choices) (''Ung'' @ u_uml @
             ''ltige Einstellung.'')) (\<lambda>_. Inr (selected, v)))) of
        Inl x \<Rightarrow> (Inl x, s)
      | Inr (selected, v) \<Rightarrow>
         (case idle e s of (Inl x, s) \<Rightarrow> (Inl x, s)
          | (Inr _, s) \<Rightarrow>
             (rbind (ok_or (runtime s) (Invalid NO_RUNTIME)) (\<lambda>r.
              rbind (require (path_eq r selected)
                (''Die ausgew'' @ a_uml @ ''hlte Installation hat sich ge'' @ a_uml @
                  ''ndert. Bitte den Status neu laden.'')) (\<lambda>_.
              rbind (lock_take e) (\<lambda>_.
              rbind (put (r @ ''/private/'' @
                file) (jset key (JStr v) (JObj [(''schema'', jnum 1)]))) (\<lambda>_.
              Inr ok_true)))), s)))"

end
