(* ===== verification/Coordination.thy ===== *)
theory Coordination
  imports Coordinator
begin

text \<open>
  The coordinator as a transition system: every operation under the mutex is a step, in any order and
  from any number of threads. Invariants by rule induction, and what no interleaving can break.
\<close>

section \<open>Steps\<close>

text \<open>What a job reports never renames it.\<close>

definition keeps_id :: "json \<Rightarrow> bool" where
  "keeps_id v \<longleftrightarrow> (case as_object v of None \<Rightarrow> True | Some m \<Rightarrow> ''id'' \<notin> fst ` set m)"

inductive step :: "(json \<Rightarrow> json) \<Rightarrow> (nat \<Rightarrow> error + unit) \<Rightarrow> launcher \<Rightarrow> launcher \<Rightarrow> bool"
  for persist kill where
  step_poll: "step persist kill s (poll e s)"
| step_reserve: "reserve e kind operation needs s = (r, s') \<Longrightarrow> step persist kill s s'"
| step_progress: "step persist kill s (progress c message s)"
| step_update: "keeps_id patch \<Longrightarrow> step persist kill s (update c patch s)"
| step_commit: "begin_commit c phase message s = (u, s') \<Longrightarrow> step persist kill s s'"
| step_finish: "(\<And>extra. res = Inr extra \<Longrightarrow> keeps_id extra) \<Longrightarrow>
    step persist kill s (finish persist e c res retain s)"
| step_continuation: "continuation e kind i s = (r, s') \<Longrightarrow> step persist kill s s'"
| step_cancel: "cancel kind i s = (j, s') \<Longrightarrow> step persist kill s s'"
| step_stop: "stop kill e s = (j, s') \<Longrightarrow> step persist kill s s'"
| step_refresh: "refresh e s = (v, s') \<Longrightarrow> step persist kill s s'"
| step_close: "step persist kill s (close s)"

abbreviation steps :: "(json \<Rightarrow> json) \<Rightarrow> (nat \<Rightarrow> error + unit) \<Rightarrow> launcher \<Rightarrow> launcher \<Rightarrow> bool" where
  "steps persist kill \<equiv> (step persist kill)\<^sup>*\<^sup>*"

inductive_cases step_elim: "step persist kill s t"

section \<open>Invariant\<close>

definition job_named :: "launcher \<Rightarrow> string \<Rightarrow> string \<Rightarrow> bool" where
  "job_named s kind i \<longleftrightarrow> (case job_of s kind of None \<Rightarrow> False | Some j \<Rightarrow> is_text j ''id'' i)"

definition jobs_ok :: "launcher \<Rightarrow> bool" where
  "jobs_ok s \<longleftrightarrow> (\<forall>k j. job_of s k = Some j \<longrightarrow> is_object j)"

definition active_ok :: "launcher \<Rightarrow> active \<Rightarrow> bool" where
  "active_ok s a \<longleftrightarrow> act_cancel a < length (cells s) \<and> act_pause a < length (cells s) \<and>
     job_named s (act_kind a) (act_id a) \<and>
     (\<forall>l. act_lease a = Some l \<longrightarrow> (\<exists>r. act_runtime a = Some r \<and> l = play_lock r))"

definition coord_inv :: "launcher \<Rightarrow> bool" where
  "coord_inv s \<longleftrightarrow> jobs_ok s \<and> (\<forall>a. active s = Some a \<longrightarrow> active_ok s a)"

lemma job_of_set_job [simp]: "job_of (set_job k j s) k' = (if k' = k then Some j else job_of s k')"
  by (simp add: job_of_def set_job_def bt_get_put)

lemma set_job_sel [simp]:
  "active (set_job k j s) = active s" "cells (set_job k j s) = cells s" "closing (set_job k j s) = closing s"
  "process (set_job k j s) = process s" "runtime (set_job k j s) = runtime s" "steam (set_job k j s) = steam s"
  by (simp_all add: set_job_def)

lemma set_cell_sel [simp]:
  "active (set_cell c s) = active s" "jobs (set_cell c s) = jobs s" "closing (set_cell c s) = closing s"
  "length (cells (set_cell c s)) = length (cells s)" "process (set_cell c s) = process s"
  "job_of (set_cell c s) k = job_of s k" "cloud (set_cell c s) = cloud s"
  by (simp_all add: set_cell_def job_of_def)

lemma set_opt_cell_sel [simp]:
  "active (set_opt_cell c s) = active s" "jobs (set_opt_cell c s) = jobs s" "closing (set_opt_cell c s) = closing s"
  "length (cells (set_opt_cell c s)) = length (cells s)" "process (set_opt_cell c s) = process s"
  "job_of (set_opt_cell c s) k = job_of s k" "cloud (set_opt_cell c s) = cloud s"
  by (auto simp: set_opt_cell_def split: option.splits)

lemma job_of_cong: "jobs t = jobs s \<Longrightarrow> job_of t = job_of s"
  by (rule ext) (simp add: job_of_def)

text \<open>Only jobs, the active job and the cells matter to the invariant.\<close>

lemma coord_inv_cong:
  "jobs t = jobs s \<Longrightarrow> active t = active s \<Longrightarrow> length (cells t) = length (cells s) \<Longrightarrow>
   coord_inv t = coord_inv s"
  by (simp add: coord_inv_def jobs_ok_def active_ok_def job_named_def job_of_cong [of t s])

lemma coord_inv_idle: "coord_inv s \<Longrightarrow> jobs t = jobs s \<Longrightarrow> active t = None \<Longrightarrow> coord_inv t"
  by (simp add: coord_inv_def jobs_ok_def job_of_cong [of t s])

text \<open>Rewriting a job keeps the invariant when it stays an object with its identifier.\<close>

lemma coord_inv_set_job:
  assumes "coord_inv s" "job_of s k = Some j" "is_object j'" "jget j' ''id'' = jget j ''id''"
  shows "coord_inv (set_job k j' s)"
  using assms unfolding coord_inv_def jobs_ok_def active_ok_def job_named_def is_text_def
  by (auto split: if_splits option.splits)

lemma object_settable: "is_object j \<Longrightarrow> settable j"
  by (simp add: settable_def)

lemma object_jextend: "is_object v \<Longrightarrow> is_object (jextend m v)"
  unfolding jextend_def by (induction m arbitrary: v) (auto intro: is_object_jset object_settable)

lemma jextend_keeps_id:
  assumes "is_object v" "''id'' \<notin> fst ` set m"
  shows "jget (jextend m v) ''id'' = jget v ''id''"
proof -
  have "map_of (rev m) ''id'' = None"
    using assms(2) by (auto simp: map_of_eq_None_iff)
  then show ?thesis
    using assms(1) by (simp add: jget_jextend object_settable)
qed

text \<open>The changes an operation makes to a job, as a set closed under writing other members.\<close>

definition same_job :: "json \<Rightarrow> json \<Rightarrow> bool" where
  "same_job j j' \<longleftrightarrow> is_object j' \<and> jget j' ''id'' = jget j ''id''"

lemma same_job_jset: "same_job j j' \<Longrightarrow> k \<noteq> ''id'' \<Longrightarrow> same_job j (jset k x j')"
  by (simp add: same_job_def is_object_jset object_settable jget_jset)

lemma same_job_refl: "is_object j \<Longrightarrow> same_job j j"
  by (simp add: same_job_def)

lemma same_job_jextend: "same_job j j' \<Longrightarrow> ''id'' \<notin> fst ` set m \<Longrightarrow> same_job j (jextend m j')"
  by (simp add: same_job_def object_jextend jextend_keeps_id)

lemma same_job_if: "same_job j a \<Longrightarrow> same_job j b \<Longrightarrow> same_job j (if c then a else b)"
  by simp

lemmas same_job_intros = same_job_jset same_job_jextend same_job_if

lemma coord_inv_rewrite:
  "coord_inv s \<Longrightarrow> job_of s k = Some j \<Longrightarrow> same_job j j' \<Longrightarrow> coord_inv (set_job k j' s)"
  by (rule coord_inv_set_job) (auto simp: same_job_def)

lemma coord_inv_object: "coord_inv s \<Longrightarrow> job_of s k = Some j \<Longrightarrow> same_job j j"
  by (auto simp: coord_inv_def jobs_ok_def intro: same_job_refl)

lemma same_job_finish_ok:
  assumes "same_job j j" "keeps_id extra"
  shows "same_job j (finish_ok e extra retain j)"
proof -
  have "same_job j (case (as_object j, as_object extra) of (Some _, Some m) \<Rightarrow> jextend m j | _ \<Rightarrow> j)"
    using assms by (auto simp: keeps_id_def intro: same_job_jextend split: option.splits)
  then show ?thesis
    unfolding finish_ok_def Let_def by (intro same_job_if same_job_jset) simp_all
qed

lemma same_job_finish_error: "same_job j j \<Longrightarrow> same_job j (finish_error e x j)"
  unfolding finish_error_def Let_def finish_cloud_def
  by (cases x) (auto intro!: same_job_intros)

section \<open>What an operation may change\<close>

text \<open>Flags only go up, and once the launcher is closing no job becomes active.\<close>

definition evolves :: "launcher \<Rightarrow> launcher \<Rightarrow> bool" where
  "evolves s t \<longleftrightarrow> length (cells s) \<le> length (cells t) \<and> (\<forall>c. cell s c \<longrightarrow> cell t c) \<and>
     (closing s \<longrightarrow> closing t \<and> (\<forall>a. active t = Some a \<longrightarrow> active s = Some a))"

lemma evolves_refl [simp]: "evolves s s"
  by (simp add: evolves_def)

lemma evolves_trans: "evolves s t \<Longrightarrow> evolves t u \<Longrightarrow> evolves s u"
  by (auto simp: evolves_def)

lemma evolves_same: "cells t = cells s \<Longrightarrow> closing t = closing s \<Longrightarrow> active t = active s \<Longrightarrow> evolves s t"
  by (simp add: evolves_def cell_def)

lemma evolves_drop: "cells t = cells s \<Longrightarrow> closing s \<longrightarrow> closing t \<Longrightarrow> active t = None \<Longrightarrow> evolves s t"
  by (simp add: evolves_def cell_def)

lemma evolves_set_cell: "evolves s (set_cell c s)"
  by (cases "c < length (cells s)") (auto simp: evolves_def set_cell_def cell_def nth_list_update)

lemma evolves_set_opt_cell: "evolves s (set_opt_cell c s)"
  by (auto simp: set_opt_cell_def evolves_set_cell split: option.splits)

lemma evolves_install: "\<not> closing s \<Longrightarrow> evolves s (install a s)"
  by (auto simp: evolves_def install_def cell_def nth_append)

lemma poll_sel [simp]:
  "active (poll e s) = active s" "jobs (poll e s) = jobs s" "cells (poll e s) = cells s"
  "closing (poll e s) = closing s" "runtime (poll e s) = runtime s" "steam (poll e s) = steam s"
  "cloud (poll e s) = cloud s"
  by (simp_all add: poll_def Let_def split: option.splits)

lemma job_of_poll [simp]: "job_of (poll e s) = job_of s"
  by (rule job_of_cong) simp

lemma poll_good: "evolves s (poll e s)" "coord_inv (poll e s) = coord_inv s"
  by (rule evolves_same, simp_all) (rule coord_inv_cong, simp_all)

lemma idle_cases:
  obtains "idle e s = (Inl (Invalid RESTARTING), s)" "closing s"
  | "idle e s = (Inl (Invalid ONE_AT_A_TIME), poll e s)" "\<not> closing s"
      "\<not> (active s = None \<and> process (poll e s) = None \<and> \<not> external e (poll e s))"
  | "idle e s = (Inr (), poll e s)" "\<not> closing s" "active s = None" "process (poll e s) = None"
      "\<not> external e (poll e s)"
  by (cases "closing s"; cases "active s = None \<and> process (poll e s) = None \<and> \<not> external e (poll e s)")
    (auto simp: idle_def open_now_def Let_def)

definition good :: "launcher \<Rightarrow> launcher \<Rightarrow> bool" where
  "good s t \<longleftrightarrow> evolves s t \<and> (coord_inv s \<longrightarrow> coord_inv t)"

lemma good_refl [simp]: "good s s"
  by (simp add: good_def)

lemma good_trans: "good s t \<Longrightarrow> good t u \<Longrightarrow> good s u"
  by (auto simp: good_def intro: evolves_trans)

lemma good_poll: "good s (poll e s)"
  by (simp add: good_def poll_good)

lemma good_rewrite: "job_of s k = Some j \<Longrightarrow> (coord_inv s \<Longrightarrow> same_job j j') \<Longrightarrow> good s (set_job k j' s)"
  by (auto simp: good_def evolves_same intro: coord_inv_rewrite)

lemma good_same: "cells t = cells s \<Longrightarrow> closing t = closing s \<Longrightarrow> active t = active s \<Longrightarrow> jobs t = jobs s \<Longrightarrow> good s t"
  using coord_inv_cong [of t s] by (simp add: good_def evolves_same)

lemma good_idle: "idle e s = (r, t) \<Longrightarrow> good s t"
  by (rule idle_cases [of e s]) (auto simp: good_poll)

lemma good_drop: "cells t = cells s \<Longrightarrow> closing s \<longrightarrow> closing t \<Longrightarrow> active t = None \<Longrightarrow> jobs t = jobs s \<Longrightarrow> good s t"
  by (auto simp: good_def evolves_drop intro: coord_inv_idle)

lemma good_set_cell: "good s (set_cell c s)"
  using coord_inv_cong [of "set_cell c s" s] by (simp add: good_def evolves_set_cell)

lemma good_set_opt_cell: "good s (set_opt_cell c s)"
  by (auto simp: set_opt_cell_def good_set_cell split: option.splits)

lemma reserve_root_poll [simp]: "reserve_root (poll e s) = reserve_root s"
  by (simp add: reserve_root_def)

lemma take_lock_Inr:
  "take_lock e needs root = Inr l \<longleftrightarrow>
     (if needs then lock_take e = Inr () \<and> (\<exists>r. root = Some r \<and> l = Some (play_lock r)) else l = None)"
  by (auto simp: take_lock_def result_simps)

lemma new_job_facts:
  "is_object (new_job e p s)" "is_text (new_job e p s) ''id'' (fresh_id e)"
  "is_text (new_job e p s) ''state'' ''running''"
  by (simp_all add: new_job_def is_object_def is_text_def jget_def)

lemma reserve_cases:
  assumes "reserve e kind p needs s = (r, t)"
  obtains x where "r = Inl x" "good s t" "active t = active s"
  | l a where "r = Inr (ctx_of a)" "t = install a (set_job kind (new_job e p (poll e s)) (poll e s))"
      "a = new_active (fresh_id e) kind (reserve_root s) l (poll e s)"
      "idle e s = (Inr (), poll e s)" "take_lock e needs (reserve_root s) = Inr l"
proof (rule idle_cases [of e s])
  assume i: "idle e s = (Inr (), poll e s)"
  show thesis
  proof (cases "take_lock e needs (reserve_root s)")
    case (Inl x)
    with assms i show thesis
      by (intro that(1)) (auto simp: reserve_def good_poll)
  next
    case (Inr l)
    with assms i show thesis
      by (intro that(2) [OF _ _ refl]) (auto simp: reserve_def Let_def)
  qed
qed (use assms in \<open>auto simp: reserve_def good_poll intro: that(1)\<close>)

lemma active_ok_install:
  assumes "coord_inv s" "a = new_active i kind root l u" "cells u = cells s" "is_object j" "is_text j ''id'' i"
    and "\<And>x. l = Some x \<Longrightarrow> \<exists>r. root = Some r \<and> x = play_lock r"
  shows "coord_inv (install a (set_job kind j s))"
  using assms by (auto simp: coord_inv_def jobs_ok_def active_ok_def job_named_def install_def new_active_def
      job_of_def set_job_def bt_get_put)

lemma good_reserve: "reserve e kind p needs s = (r, t) \<Longrightarrow> good s t"
proof (erule reserve_cases)
  fix l a
  assume t: "t = install a (set_job kind (new_job e p (poll e s)) (poll e s))"
      "a = new_active (fresh_id e) kind (reserve_root s) l (poll e s)"
      "idle e s = (Inr (), poll e s)" "take_lock e needs (reserve_root s) = Inr l"
  have "\<not> closing s"
    using t(3) by (auto simp: idle_def open_now_def)
  then have "evolves s t"
    unfolding t(1) by (intro evolves_trans [OF evolves_same evolves_install]) auto
  moreover have "coord_inv t" if "coord_inv s"
    unfolding t(1)
    by (rule active_ok_install [OF _ t(2)])
      (use that t(4) in \<open>auto simp: poll_good new_job_facts take_lock_Inr split: if_splits\<close>)
  ultimately show ?thesis by (simp add: good_def)
qed

lemma good_progress: "good s (progress c message s)"
proof -
  define u where "u = (if ctx_kind c = ''cloud-auto'' \<and> is_text (cloud s) ''request_id'' (ctx_id c)
     then s\<lparr>cloud := jset ''message'' (JStr (take_chars 1500 message)) (cloud s)\<rparr> else s)"
  have u: "good s u"
    unfolding u_def by (simp add: good_same)
  have "good u (case job_of u (ctx_kind c) of None \<Rightarrow> u
         | Some j \<Rightarrow> if is_text j ''id'' (ctx_id c)
                    then set_job (ctx_kind c) (jset ''message'' (JStr (take_chars 1500 message)) j) u else u)"
    by (auto split: option.splits intro!: good_rewrite same_job_jset coord_inv_object)
  with u show ?thesis
    unfolding progress_def Let_def u_def [symmetric] by (rule good_trans)
qed

lemma good_update: "keeps_id patch \<Longrightarrow> good s (update c patch s)"
  unfolding update_def keeps_id_def
  by (auto split: option.splits intro!: good_rewrite same_job_jextend coord_inv_object)

lemma good_begin_commit: "begin_commit c phase message s = (u, t) \<Longrightarrow> good s t"
  unfolding begin_commit_def
  by (auto simp: result_simps split: sum.splits intro!: good_rewrite same_job_jset coord_inv_object)

lemma good_finish:
  assumes "\<And>extra. res = Inr extra \<Longrightarrow> keeps_id extra"
  shows "good s (finish persist e c res retain s)"
proof (cases "owns s (ctx_id c)")
  case True
  define u where "u = (case job_of s (ctx_kind c) of None \<Rightarrow> s
      | Some j \<Rightarrow> set_job (ctx_kind c)
          (case res of Inr extra \<Rightarrow> finish_ok e extra retain j | Inl x \<Rightarrow> finish_error e x j) s)"
  define v where "v = (if ctx_kind c = ''setup'' then
      (case job_of u ''setup'' of None \<Rightarrow> u | Some j \<Rightarrow> u\<lparr>installation_report := persist j\<rparr>) else u)"
  have u: "good s u"
    unfolding u_def using assms
    by (auto split: option.splits sum.splits
        intro!: good_rewrite same_job_finish_ok same_job_finish_error coord_inv_object)
  have v: "good u v"
    unfolding v_def by (auto split: option.splits intro!: good_same)
  have "good v (v\<lparr>active := None\<rparr>)"
    by (auto intro: good_drop)
  with good_trans [OF u v] show ?thesis
    unfolding finish_def Let_def u_def [symmetric] v_def [symmetric] using True
    by (auto intro: good_trans)
qed (simp add: finish_def)

lemma good_rearm: "rearm e kind i s = (r, t) \<Longrightarrow> job_ready s kind i \<Longrightarrow> good s t"
proof (cases "active s")
  case None
  assume rearm: "rearm e kind i s = (r, t)" and ready: "job_ready s kind i"
  show ?thesis
  proof (rule idle_cases [of e s])
    assume i: "idle e s = (Inr (), poll e s)" "\<not> closing s"
    show ?thesis
    proof (cases "t = poll e s \<or> t = s")
      case False
      with rearm i None obtain root where t: "t = install (new_active i kind (Some root) (Some (play_lock root)) (poll e s)) (poll e s)"
        by (auto simp: rearm_def result_simps split: sum.splits)
      have "evolves s t"
        unfolding t by (intro evolves_trans [OF evolves_same evolves_install]) (use i in auto)
      moreover have "coord_inv t" if "coord_inv s"
        using that ready unfolding t
        by (auto simp: coord_inv_def jobs_ok_def active_ok_def job_named_def job_ready_def install_def
            new_active_def job_of_cong [of "install a (poll e s)" s for a] job_of_def split: option.splits)
      ultimately show ?thesis by (simp add: good_def)
    qed (auto simp: good_poll)
  qed (use rearm None in \<open>auto simp: rearm_def good_poll split: sum.splits\<close>)
qed (simp add: rearm_def)

lemma good_continuation: "continuation e kind i s = (r, t) \<Longrightarrow> good s t"
proof -
  assume c: "continuation e kind i s = (r, t)"
  show ?thesis
  proof (cases "\<not> closing s \<and> job_ready s kind i")
    case False
    with c have "t = s"
      by (cases "closing s"; cases "job_ready s kind i") (auto simp: continuation_def open_now_def)
    then show ?thesis by simp
  next
    case True
    then have ok: "rbind (open_now s) (\<lambda>_. require (job_ready s kind i) m) = Inr ()" for m
      by (simp add: open_now_def)
    obtain x u where u: "rearm e kind i s = (x, u)"
      by (cases "rearm e kind i s")
    have "good s u"
      using good_rearm [OF u] True by blast
    moreover have "good u t"
      using c unfolding continuation_def ok
      by (auto simp: u split: sum.splits option.splits if_splits
          intro!: good_rewrite same_job_jset coord_inv_object)
    ultimately show ?thesis by (rule good_trans)
  qed
qed

lemma good_drop_plan: "good s (drop_plan k s)"
  by (simp add: drop_plan_def good_same)

lemma good_cancel_active: "good s (cancel_active a kind s)"
proof -
  define u where "u = set_cell (act_cancel a) s"
  define ready where "ready = (case job_of u kind of None \<Rightarrow> False | Some j \<Rightarrow> is_text j ''state'' ''ready'')"
  define v where "v = (case job_of u kind of None \<Rightarrow> u
     | Some j \<Rightarrow> set_job kind (if ready
         then jset ''state'' (JStr ''cancelled'') (jset ''message'' (JStr (''Vorgang wird abgebrochen '' @ [CHR 0xE2, CHR 0x80, CHR 0xA6]))
              (jset ''can_cancel'' (JBool False) j))
         else jset ''message'' (JStr (''Vorgang wird abgebrochen '' @ [CHR 0xE2, CHR 0x80, CHR 0xA6]))
              (jset ''can_cancel'' (JBool False) j)) u)"
  have "good s u"
    by (simp add: u_def good_set_cell)
  moreover have "good u v"
    unfolding v_def
    by (auto split: option.splits intro!: good_rewrite same_job_jset coord_inv_object)
  moreover have "good v (if ready then drop_plan kind (v\<lparr>active := None\<rparr>) else v)"
    by (auto simp: drop_plan_def intro: good_drop)
  ultimately show ?thesis
    unfolding cancel_active_def Let_def u_def [symmetric] ready_def [symmetric] v_def [symmetric]
    by (blast intro: good_trans)
qed

lemma good_cancel: "cancel kind i s = (r, t) \<Longrightarrow> good s t"
proof -
  assume c: "cancel kind i s = (r, t)"
  have prep: "good s (cancel_prepared kind s)"
    unfolding cancel_prepared_def
    by (rule good_trans [OF _ good_drop_plan])
      (auto split: option.splits intro!: good_rewrite same_job_jset coord_inv_object)
  show ?thesis
    using c unfolding cancel_def
    by (auto split: sum.splits option.splits if_splits intro: prep good_cancel_active)
qed

lemma good_stop: "stop kill e s = (r, t) \<Longrightarrow> good s t"
proof -
  assume "stop kill e s = (r, t)"
  then have "t = poll e s \<or> t = (poll e s)\<lparr>stopping := True\<rparr>"
    by (auto simp: stop_def Let_def split: option.splits sum.splits)
  moreover have "good (poll e s) ((poll e s)\<lparr>stopping := True\<rparr>)"
    by (simp add: good_same)
  ultimately show ?thesis
    using good_poll good_trans by blast
qed

lemma good_refresh: "refresh e s = (v, t) \<Longrightarrow> good s t"
proof -
  assume r: "refresh e s = (v, t)"
  obtain x u where u: "idle e s = (x, u)"
    by (cases "idle e s")
  have "good u (u\<lparr>closing := True\<rparr>)" if "is_ok x"
  proof -
    have "active u = None"
      using that u by (rule_tac idle_cases [of e s]) auto
    then show ?thesis
      by (auto intro: good_drop)
  qed
  with r u good_idle [OF u] show ?thesis
    by (auto simp: refresh_def intro: good_trans split: if_splits)
qed

lemma good_closing: "good s (s\<lparr>closing := True\<rparr>)"
  using coord_inv_cong [of "s\<lparr>closing := True\<rparr>" s] by (simp add: good_def evolves_def cell_def)

lemma good_close_ready: "good s (close_ready s)"
proof -
  have "good s ((drop_plan k (set_job k (jset ''state'' (JStr ''cancelled'') j) (set_cell c s)))\<lparr>active := None\<rparr>)"
    if "job_of s k = Some j" for k j c
  proof -
    have "good s (set_cell c s)" by (rule good_set_cell)
    moreover have "good (set_cell c s) (set_job k (jset ''state'' (JStr ''cancelled'') j) (set_cell c s))"
      using that by (auto intro!: good_rewrite same_job_jset coord_inv_object)
    moreover have "good u ((drop_plan k u)\<lparr>active := None\<rparr>)" for u
      by (auto simp: drop_plan_def intro: good_drop)
    ultimately show ?thesis
      by (blast intro: good_trans)
  qed
  then show ?thesis
    by (auto simp: close_ready_def split: option.splits)
qed

lemma good_close: "good s (close s)"
proof -
  have last: "good u (case active u of None \<Rightarrow> u | Some a \<Rightarrow> if p a then set_cell (act_cancel a) u else u)" for u p
    by (auto split: option.splits intro: good_set_cell)
  have worker: "good u (if b then set_opt_cell w u else u)" for u b w
    by (simp add: good_set_opt_cell)
  show ?thesis
    unfolding close_def Let_def
    by (rule good_trans [OF _ last] good_trans [OF _ good_close_ready] good_trans [OF _ worker]
        good_trans [OF _ good_set_opt_cell] good_closing)+
qed

lemma step_good: "step persist kill s t \<Longrightarrow> good s t"
  by (induction rule: step.induct)
    (auto intro: good_poll good_reserve good_progress good_update good_begin_commit good_finish
      good_continuation good_cancel good_stop good_refresh good_close)

lemma steps_good: "steps persist kill s t \<Longrightarrow> good s t"
  by (induction rule: rtranclp_induct) (auto intro: good_trans step_good)

section \<open>Properties\<close>

lemma coord_inv_new: "coord_inv (launcher_new item root report)"
  by (simp add: coord_inv_def jobs_ok_def job_of_def bt_get_def launcher_new_def)

text \<open>C15. In every reachable state the active job is the one its kind's entry names, its flags exist,
  and a lease it holds is the play lock of its own runtime.\<close>

theorem coordinator_invariant:
  assumes "steps persist kill (launcher_new item root report) s" "active s = Some a"
  shows "(\<exists>j. job_of s (act_kind a) = Some j \<and> jget j ''id'' = JStr (act_id a)) \<and>
    act_cancel a < length (cells s) \<and> act_pause a < length (cells s) \<and>
    (\<forall>l. act_lease a = Some l \<longrightarrow> (\<exists>r. act_runtime a = Some r \<and> l = play_lock r))"
  using steps_good [OF assms(1)] coord_inv_new assms(2)
  by (auto simp: good_def coord_inv_def active_ok_def job_named_def is_text_def split: option.splits)

lemma idle_busy: "active s \<noteq> None \<Longrightarrow> \<exists>x. fst (idle e s) = Inl x"
  by (rule idle_cases [of e s]) auto

lemma reserve_busy: "active s \<noteq> None \<Longrightarrow> \<exists>x. fst (reserve e kind p needs s) = Inl x"
  using idle_busy [of s e] by (auto simp: reserve_def split: prod.splits sum.splits)

text \<open>C16. A reservation succeeds only for an open launcher with no active job, no game process and no
  foreign use of the runtime; it takes the play lock exactly when a runtime is needed, starts with
  its flags down, and from then on no other reservation succeeds.\<close>

theorem reserve_exclusive:
  assumes "reserve e kind p needs s = (Inr c, t)"
  shows "\<not> closing s \<and> active s = None \<and> process (poll e s) = None \<and> \<not> external e (poll e s) \<and>
    (\<exists>a. active t = Some a \<and> c = ctx_of a \<and> act_id a = fresh_id e \<and> act_kind a = kind \<and>
       act_lease a = (if needs then map_option play_lock (runtime s) else None) \<and>
       (needs \<longrightarrow> act_lease a \<noteq> None)) \<and>
    \<not> cell t (ctx_cancel c) \<and> \<not> cell t (ctx_pause c) \<and>
    (\<forall>e' kind' p' needs'. \<exists>x. fst (reserve e' kind' p' needs' t) = Inl x)"
proof -
  obtain l a where r: "c = ctx_of a" "t = install a (set_job kind (new_job e p (poll e s)) (poll e s))"
      "a = new_active (fresh_id e) kind (reserve_root s) l (poll e s)"
      "idle e s = (Inr (), poll e s)" "take_lock e needs (reserve_root s) = Inr l"
    by (rule reserve_cases [OF assms]) auto
  have "active t \<noteq> None"
    by (simp add: r(2) install_def)
  moreover have "\<not> closing s \<and> active s = None \<and> process (poll e s) = None \<and> \<not> external e (poll e s)"
    using r(4) by (rule_tac idle_cases [of e s]) auto
  moreover have "\<not> cell t (ctx_cancel c)" "\<not> cell t (ctx_pause c)"
    by (simp_all add: r(1,2,3) cell_def install_def ctx_of_def new_active_def nth_append)
  moreover have "active t = Some a" "act_id a = fresh_id e" "act_kind a = kind"
      "act_lease a = (if needs then map_option play_lock (runtime s) else None)" "needs \<longrightarrow> act_lease a \<noteq> None"
    using r(5) by (auto simp: r(2,3) install_def new_active_def take_lock_Inr reserve_root_def split: if_splits)
  ultimately show ?thesis
    using r(1) reserve_busy by blast
qed

text \<open>C17. Closing is final: whatever happens afterwards, no job becomes active that was not active
  before, and every attempt to reserve or to continue is refused.\<close>

theorem closing_final:
  assumes "closing s" "steps persist kill s t"
  shows "closing t \<and> (\<forall>a. active t = Some a \<longrightarrow> active s = Some a) \<and>
    fst (reserve e kind p needs t) = Inl (Invalid RESTARTING) \<and>
    fst (continuation e kind i t) = Inl (Invalid RESTARTING)"
  using steps_good [OF assms(2)] assms(1)
  by (auto simp: good_def evolves_def reserve_def continuation_def idle_def open_now_def)

lemma cancel_sets_cell:
  assumes "active s = Some a" "act_cancel a < length (cells s)"
  shows "cell (cancel_active a kind s) (act_cancel a)"
  using assms by (auto simp: cancel_active_def Let_def drop_plan_def cell_def set_cell_def set_job_def
      split: option.splits)

lemma cancel_or_commit_aux:
  assumes "coord_inv s" "active s = Some a"
  shows "cancel (act_kind a) (act_id a) s = (Inr v, t) \<Longrightarrow> steps persist kill t u \<Longrightarrow>
      begin_commit (ctx_of a) phase message u = (Inl Cancelled, u)"
    and "begin_commit (ctx_of a) phase message s = (Inr (), t) \<Longrightarrow>
      phase \<in> {''switch_update'', ''publish_runtime'', ''removing''} \<Longrightarrow>
      \<exists>x. cancel (act_kind a) (act_id a) t = (Inl x, t)"
proof -
  assume c: "cancel (act_kind a) (act_id a) s = (Inr v, t)" and later: "steps persist kill t u"
  have "t = cancel_active a (act_kind a) s"
    using c assms(2) by (auto simp: cancel_def owns_def split: sum.splits option.splits if_splits)
  then have "cell t (act_cancel a)"
    using assms by (auto simp: coord_inv_def active_ok_def intro: cancel_sets_cell)
  then have "cell u (act_cancel a)"
    using steps_good [OF later] by (simp add: good_def evolves_def)
  then show "begin_commit (ctx_of a) phase message u = (Inl Cancelled, u)"
    by (simp add: begin_commit_def interrupted_def ctx_of_def)
next
  assume b: "begin_commit (ctx_of a) phase message s = (Inr (), t)"
    and p: "phase \<in> {''switch_update'', ''publish_runtime'', ''removing''}"
  obtain j where j: "job_of s (act_kind a) = Some j" "is_object j" "jget j ''id'' = JStr (act_id a)"
    using assms by (auto simp: coord_inv_def active_ok_def job_named_def jobs_ok_def is_text_def split: option.splits)
  have "t = set_job (act_kind a) (jset ''can_cancel'' (JBool False) (jset ''can_resume'' (JBool False)
             (jset ''can_pause'' (JBool False) (jset ''message'' (JStr message)
             (jset ''phase'' (JStr phase) j))))) s"
    using b j(1) by (auto simp: begin_commit_def ctx_of_def result_simps split: sum.splits)
  then have "committing t (act_kind a) (act_id a)"
    using j p by (auto simp: committing_def is_text_def jget_jset object_settable settable_jset)
  then show "\<exists>x. cancel (act_kind a) (act_id a) t = (Inl x, t)"
    by (simp add: cancel_def)
qed

text \<open>C18. A successful cancellation of the active job is never overtaken: in every later state a commit
  of that job is refused. And once a commit has entered one of the atomic phases, cancelling is
  refused instead.\<close>

theorem cancel_or_commit:
  assumes "coord_inv s" "active s = Some a"
  shows "(\<forall>v t u. cancel (act_kind a) (act_id a) s = (Inr v, t) \<longrightarrow> steps persist kill t u \<longrightarrow>
      begin_commit (ctx_of a) phase message u = (Inl Cancelled, u)) \<and>
    (\<forall>t. begin_commit (ctx_of a) phase message s = (Inr (), t) \<longrightarrow>
      phase \<in> {''switch_update'', ''publish_runtime'', ''removing''} \<longrightarrow>
      (\<exists>x. cancel (act_kind a) (act_id a) t = (Inl x, t)))"
  using cancel_or_commit_aux [OF assms] by blast

lemma finish_error_state:
  assumes "is_object j"
  shows "is_text (finish_error e x j) ''state'' ''failed'' \<or> is_text (finish_error e x j) ''state'' ''cancelled''"
proof -
  have "settable j" using assms by (rule object_settable)
  then show ?thesis
    by (cases x) (auto simp: finish_error_def finish_cloud_def Let_def is_text_def jget_jset settable_jset)
qed

lemma finish_by_owner_aux:
  assumes "coord_inv s" "active s = Some a"
  shows "ctx_id c \<noteq> act_id a \<Longrightarrow> finish persist e c res retain s = s"
    and "res = Inl x \<or> \<not> retain \<Longrightarrow> active (finish persist e (ctx_of a) res retain s) = None"
    and "finish persist e (ctx_of a) (Inl x) retain s = t \<Longrightarrow>
      \<exists>j. job_of t (act_kind a) = Some j \<and> jget j ''message'' = JStr (error_text x) \<and>
        (jget j ''state'' = JStr ''failed'' \<or> jget j ''state'' = JStr ''cancelled'')"
proof -
  obtain j where j: "job_of s (act_kind a) = Some j" "is_object j"
    using assms by (auto simp: coord_inv_def active_ok_def job_named_def jobs_ok_def split: option.splits)
  show "ctx_id c \<noteq> act_id a \<Longrightarrow> finish persist e c res retain s = s"
    using assms(2) by (simp add: finish_def owns_def)
  let ?u = "set_job (act_kind a) (case res of Inr extra \<Rightarrow> finish_ok e extra retain j | Inl x \<Rightarrow> finish_error e x j) s"
  let ?v = "\<lambda>u. if act_kind a = ''setup'' then
      (case job_of u ''setup'' of None \<Rightarrow> u | Some j \<Rightarrow> u\<lparr>installation_report := persist j\<rparr>) else u"
  have fin: "finish persist e (ctx_of a) res retain s = (let v = ?v (set_job (act_kind a)
      (case res of Inr extra \<Rightarrow> finish_ok e extra retain j | Inl x \<Rightarrow> finish_error e x j) s) in
      if \<not> retain \<or> (case job_of v (act_kind a) of None \<Rightarrow> False
               | Some j \<Rightarrow> is_text j ''state'' ''failed'' \<or> is_text j ''state'' ''cancelled'')
      then v\<lparr>active := None\<rparr> else v)" for res
    using assms(2) by (simp add: finish_def owns_def ctx_of_def j(1))
  have report: "job_of (u\<lparr>installation_report := r\<rparr>) = job_of u" for u r
    by (rule job_of_cong) simp
  have drop: "job_of (u\<lparr>active := None\<rparr>) = job_of u" for u
    by (rule job_of_cong) simp
  show "res = Inl x \<or> \<not> retain \<Longrightarrow> active (finish persist e (ctx_of a) res retain s) = None"
    unfolding fin Let_def using finish_error_state [OF j(2), of e x]
    by (auto simp: report split: option.splits)
  show "\<exists>j. job_of t (act_kind a) = Some j \<and> jget j ''message'' = JStr (error_text x) \<and>
        (jget j ''state'' = JStr ''failed'' \<or> jget j ''state'' = JStr ''cancelled'')"
    if t: "finish persist e (ctx_of a) (Inl x) retain s = t"
  proof -
    have "job_of t (act_kind a) = Some (finish_error e x j)"
      unfolding t [symmetric] fin Let_def by (simp add: report drop)
    moreover have "jget (finish_error e x j) ''message'' = JStr (error_text x)"
      using object_settable [OF j(2)]
      by (cases x) (simp_all add: finish_error_def finish_cloud_def Let_def jget_jset settable_jset)
    ultimately show ?thesis
      using finish_error_state [OF j(2)] by (auto simp: is_text_def)
  qed
qed

text \<open>C19. Only the owner of the active job finishes it: with another identifier nothing changes. The
  owner gives up its reservation unless a success retains it; a failure never does.\<close>

theorem finish_by_owner:
  assumes "coord_inv s" "active s = Some a"
  shows "(\<forall>c. ctx_id c \<noteq> act_id a \<longrightarrow> finish persist e c res retain s = s) \<and>
    (\<forall>x. res = Inl x \<or> \<not> retain \<longrightarrow> active (finish persist e (ctx_of a) res retain s) = None) \<and>
    (\<forall>x. \<exists>j. job_of (finish persist e (ctx_of a) (Inl x) retain s) (act_kind a) = Some j \<and>
        jget j ''message'' = JStr (error_text x) \<and>
        (jget j ''state'' = JStr ''failed'' \<or> jget j ''state'' = JStr ''cancelled''))"
proof (intro conjI allI impI)
  show "finish persist e c res retain s = s" if "ctx_id c \<noteq> act_id a" for c
    using that by (rule finish_by_owner_aux(1) [OF assms])
  show "active (finish persist e (ctx_of a) res retain s) = None" if "res = Inl x \<or> \<not> retain" for x
    using that by (rule finish_by_owner_aux(2) [OF assms])
  show "\<exists>j. job_of (finish persist e (ctx_of a) (Inl x) retain s) (act_kind a) = Some j \<and>
        jget j ''message'' = JStr (error_text x) \<and>
        (jget j ''state'' = JStr ''failed'' \<or> jget j ''state'' = JStr ''cancelled'')" for x
    by (rule finish_by_owner_aux(3) [OF assms refl])
qed

section \<open>Witnesses\<close>

definition w_sight :: sight where
  "w_sight = \<lparr>exited = None, steam_busy = False, lock_probe = Free, lock_take = Inr (),
     stamp = ''t'', fresh_id = ''j1''\<rparr>"

definition w_start :: launcher where
  "w_start = launcher_new None (Some ''/r'') JNull"

definition w_ctx :: ctx where
  "w_ctx = \<lparr>ctx_id = ''j1'', ctx_kind = ''setup'', ctx_runtime = Some ''/r'', ctx_cancel = 0, ctx_pause = 1\<rparr>"

definition w_run :: launcher where
  "w_run = snd (reserve w_sight ''setup'' ''install'' True w_start)"

definition w_active :: active where
  "w_active = \<lparr>act_id = ''j1'', act_kind = ''setup'', act_runtime = Some ''/r'',
     act_lease = Some ''/r/private/play.lock'', act_cancel = 0, act_pause = 1\<rparr>"

lemma w_reserved: "reserve w_sight ''setup'' ''install'' True w_start = (Inr w_ctx, w_run)"
  and w_run_active: "active w_run = Some w_active" and w_ctx_of: "ctx_of w_active = w_ctx"
  by code_simp+

lemma w_run_inv: "coord_inv w_run"
  using good_reserve [OF w_reserved] coord_inv_new [of None "Some ''/r''" JNull]
  by (simp add: good_def w_start_def)

theorem coordinator_invariant_witness:
  "\<exists>r. act_runtime w_active = Some r \<and> act_lease w_active = Some (play_lock r)"
proof -
  have "steps id (\<lambda>_. Inr ()) (launcher_new None (Some ''/r'') JNull) w_run"
    using step_reserve [OF w_reserved, of id "\<lambda>_. Inr ()"] by (auto simp: w_start_def)
  from coordinator_invariant [OF this w_run_active]
  have "act_lease w_active = Some l \<longrightarrow> (\<exists>r. act_runtime w_active = Some r \<and> l = play_lock r)" for l
    by blast
  then show ?thesis
    by (simp add: w_active_def)
qed

theorem reserve_exclusive_witness:
  "active w_run \<noteq> None \<and> (\<exists>x. fst (reserve w_sight ''fenix'' ''open'' True w_run) = Inl x)"
  using reserve_exclusive [OF w_reserved] by auto

theorem closing_final_witness:
  "closing (close w_run) \<and> fst (reserve w_sight ''fenix'' ''open'' True (close w_run)) = Inl (Invalid RESTARTING)"
proof -
  have "closing (close w_run)"
    by code_simp
  from closing_final [OF this rtranclp.rtrancl_refl, of w_sight "''fenix''" "''open''" True] this
  show ?thesis by blast
qed

theorem cancel_or_commit_witness:
  "\<exists>t. cancel ''setup'' ''j1'' w_run = (Inr ok_true, t) \<and>
     begin_commit w_ctx ''switch_update'' ''m'' (close t) = (Inl Cancelled, close t)"
proof -
  have "fst (cancel ''setup'' ''j1'' w_run) = Inr ok_true"
    by code_simp
  then obtain t where c: "cancel (act_kind w_active) (act_id w_active) w_run = (Inr ok_true, t)"
    by (cases "cancel ''setup'' ''j1'' w_run") (simp add: w_active_def)
  have "steps id (\<lambda>_. Inr ()) t (close t)"
    using step_close by blast
  with cancel_or_commit [OF w_run_inv w_run_active, of id "\<lambda>_. Inr ()" "''switch_update''" "''m''"] c
  show ?thesis
    by (auto simp: w_ctx_of) (simp add: w_active_def)
qed

theorem finish_by_owner_witness:
  "active (finish id w_sight w_ctx (Inl Json) True w_run) = None \<and>
   finish id w_sight (w_ctx\<lparr>ctx_id := ''other''\<rparr>) (Inl Json) True w_run = w_run"
proof -
  have "ctx_id (w_ctx\<lparr>ctx_id := ''other''\<rparr>) \<noteq> act_id w_active"
    by (simp add: w_active_def)
  with finish_by_owner [OF w_run_inv w_run_active, of id w_sight "Inl Json" True] show ?thesis
    by (auto simp: w_ctx_of)
qed

end
