(* ===== verification/NeuralBits.thy ===== *)
theory NeuralBits
  imports Errors Bytes
begin

text \<open>
  \<^verbatim>\<open>native/neural_decode.rs\<close>, the scalars and the bit positions: half and FP8 coefficients as the
  bit patterns of the \<^verbatim>\<open>f32\<close> they decode to, and the gathering and scattering of index bits that
  describe the coefficient layouts. Panics (an index out of range, a failed assertion) are the
  value \<open>Panic\<close> of the result type, so that their absence can be proved.
\<close>

unbundle bit_operations_syntax

datatype fault = Panic | Fail error

named_theorems layout_simps "lengths and success of the layout functions"

section \<open>Slices, chunks and updates that may panic\<close>

definition range :: "'a list \<Rightarrow> nat \<Rightarrow> nat \<Rightarrow> fault + 'a list" where
  "range raw a b = (if a \<le> b \<and> b \<le> length raw then Inr (take (b - a) (drop a raw)) else Inl Panic)"

definition from_on :: "'a list \<Rightarrow> nat \<Rightarrow> fault + 'a list" where
  "from_on raw a = range raw a (length raw)"

definition at :: "'a list \<Rightarrow> nat \<Rightarrow> fault + 'a" where
  "at raw i = (if i < length raw then Inr (raw ! i) else Inl Panic)"

definition put :: "nat \<Rightarrow> 'a \<Rightarrow> 'a list \<Rightarrow> fault + 'a list" where
  "put i v xs = (if i < length xs then Inr (xs[i := v]) else Inl Panic)"

definition assert :: "bool \<Rightarrow> fault + unit" where
  "assert c = (if c then Inr () else Inl Panic)"

function (sequential) chunks :: "nat \<Rightarrow> 'a list \<Rightarrow> 'a list list" where
  "chunks n xs = (if n = 0 \<or> length xs < n then [] else take n xs # chunks n (drop n xs))"
  by pat_completeness auto
termination by (relation "measure (length \<circ> snd)") auto

declare chunks.simps [simp del]

lemma range_ok [layout_simps]: "a \<le> b \<Longrightarrow> b \<le> length raw \<Longrightarrow> range raw a b = Inr (take (b - a) (drop a raw))"
  by (simp add: range_def)

lemma from_on_ok [layout_simps]: "a \<le> length raw \<Longrightarrow> from_on raw a = Inr (drop a raw)"
  by (simp add: from_on_def range_def)

lemma length_chunks: "length (chunks n xs) = length xs div n"
proof (induction n xs rule: chunks.induct)
  case (1 n xs)
  show ?case
  proof (cases "n = 0 \<or> length xs < n")
    case False
    then have "length xs div n = Suc ((length xs - n) div n)"
      by (simp add: div_if not_less)
    with 1 [OF False] False show ?thesis
      by (simp add: chunks.simps [of n xs])
  qed (auto simp: chunks.simps [of n xs])
qed

lemma chunks_lengths: "c \<in> set (chunks n xs) \<Longrightarrow> length c = n"
proof (induction n xs rule: chunks.induct)
  case (1 n xs)
  show ?case
  proof (cases "n = 0 \<or> length xs < n")
    case False
    with 1 show ?thesis by (auto simp: chunks.simps [of n xs])
  qed (use 1 in \<open>auto simp: chunks.simps [of n xs]\<close>)
qed

lemma chunks_append: "length xs = n \<Longrightarrow> 0 < n \<Longrightarrow> chunks n (xs @ ys) = xs # chunks n ys"
  by (simp add: chunks.simps [of n "xs @ ys"])

lemma concat_chunks: "n dvd length xs \<Longrightarrow> 0 < n \<Longrightarrow> concat (chunks n xs) = xs"
proof (induction n xs rule: chunks.induct)
  case (1 n xs)
  show ?case
  proof (cases "length xs < n")
    case True
    with 1 show ?thesis by (auto simp: chunks.simps [of n xs] dest: dvd_imp_le)
  next
    case False
    with 1 have "concat (chunks n (drop n xs)) = drop n xs"
      by (auto simp: dvd_diff_nat)
    with False 1 show ?thesis by (simp add: chunks.simps [of n xs])
  qed
qed

section \<open>Logarithm and bit positions\<close>

fun ilog2 :: "nat \<Rightarrow> nat" where
  "ilog2 n = (if n \<le> 1 then 0 else Suc (ilog2 (n div 2)))"

declare ilog2.simps [simp del]

definition gather_bits :: "nat \<Rightarrow> nat list \<Rightarrow> nat" where
  "gather_bits i positions = sum_list (map (\<lambda>(b, p). push_bit b (drop_bit p i AND 1)) (enumerate 0 positions))"

definition scatter_bits :: "nat \<Rightarrow> nat list \<Rightarrow> nat" where
  "scatter_bits i positions = sum_list (map (\<lambda>(b, p). push_bit p (drop_bit b i AND 1)) (enumerate 0 positions))"

definition axes :: "nat list \<Rightarrow> nat list \<Rightarrow> nat list" where
  "axes head tail = head @ tail"

lemma ilog2_bounds: "0 < n \<Longrightarrow> 2 ^ ilog2 n \<le> n \<and> n < 2 ^ Suc (ilog2 n)"
proof (induction n rule: ilog2.induct)
  case (1 n)
  show ?case
  proof (cases "n \<le> 1")
    case False
    then have "2 ^ ilog2 (n div 2) \<le> n div 2 \<and> n div 2 < 2 ^ Suc (ilog2 (n div 2))"
      using 1 by simp
    with False show ?thesis by (simp add: ilog2.simps [of n]) linarith
  qed (use 1 in \<open>simp add: ilog2.simps [of n]\<close>)
qed

lemma gather_Nil [simp]: "gather_bits i [] = 0"
  by (simp add: gather_bits_def)

lemma scatter_Nil [simp]: "scatter_bits i [] = 0"
  by (simp add: scatter_bits_def)

lemma enumerate_Suc: "enumerate (Suc n) xs = map (\<lambda>(b, p). (Suc b, p)) (enumerate n xs)"
  by (induction xs arbitrary: n) auto

lemma gather_Cons: "gather_bits i (p # ps) = drop_bit p i mod 2 + 2 * gather_bits i ps"
proof -
  have "sum_list (map (\<lambda>(b, p). push_bit (Suc b) (drop_bit p i AND 1)) xs) =
      2 * sum_list (map (\<lambda>(b, p). push_bit b (drop_bit p i AND 1)) xs)" for xs :: "(nat \<times> nat) list"
    by (induction xs) (auto simp: push_bit_double)
  then show ?thesis
    by (simp add: gather_bits_def enumerate_Suc comp_def case_prod_unfold and_one_eq)
qed

lemma scatter_Cons: "scatter_bits i (p # ps) = push_bit p (i mod 2) + scatter_bits (i div 2) ps"
  by (simp add: scatter_bits_def enumerate_Suc comp_def case_prod_unfold and_one_eq drop_bit_Suc)

lemma bit_gather: "bit (gather_bits i ps) b \<longleftrightarrow> b < length ps \<and> bit i (ps ! b)"
proof (induction ps arbitrary: b)
  case (Cons p ps)
  have e: "gather_bits i (p # ps) = of_bool (bit i p) + 2 * gather_bits i ps"
    by (simp add: gather_Cons bit_iff_odd_drop_bit mod_2_eq_odd)
  show ?case
    by (cases b) (auto simp: e bit_0 bit_Suc Cons)
qed simp

lemma bit_scatter:
  "distinct ps \<Longrightarrow> bit (scatter_bits i ps) q \<longleftrightarrow> (\<exists>b < length ps. ps ! b = q \<and> bit i b)"
proof (induction ps arbitrary: i q)
  case (Cons p ps)
  let ?a = "push_bit p (i mod 2)" and ?t = "scatter_bits (i div 2) ps"
  have t: "bit ?t n \<longleftrightarrow> (\<exists>b < length ps. ps ! b = n \<and> bit i (Suc b))" for n
    using Cons by (simp add: bit_Suc)
  have a: "bit ?a n \<longleftrightarrow> n = p \<and> bit i 0" for n
    by (auto simp: bit_push_bit_iff mod_2_eq_odd bit_0 bit_1_iff simp flip: One_nat_def)
  have "\<not> bit ?a n \<or> \<not> bit ?t n" for n
    using Cons.prems by (auto simp: a t)
  then have "?a + ?t = ?a OR ?t"
    by (intro disjunctive_add) simp
  then have "bit (scatter_bits i (p # ps)) q \<longleftrightarrow> q = p \<and> bit i 0 \<or> bit ?t q"
    by (simp add: scatter_Cons bit_or_iff a)
  then show ?case
    by (auto simp: t less_Suc_eq_0_disj)
qed simp

lemma less_power_bits: "(i :: nat) < 2 ^ n \<longleftrightarrow> (\<forall>k. bit i k \<longrightarrow> k < n)"
proof
  assume "i < 2 ^ n"
  then show "\<forall>k. bit i k \<longrightarrow> k < n"
    by (metis bit_take_bit_iff take_bit_nat_eq_self)
next
  assume "\<forall>k. bit i k \<longrightarrow> k < n"
  then have "take_bit n i = i"
    by (auto simp: bit_eq_iff bit_take_bit_iff)
  then show "i < 2 ^ n"
    by (simp add: take_bit_nat_eq_self_iff)
qed

lemma gather_less: "gather_bits i ps < 2 ^ length ps"
  by (simp add: less_power_bits bit_gather)

lemma scatter_less: "distinct ps \<Longrightarrow> \<forall>p \<in> set ps. p < n \<Longrightarrow> scatter_bits i ps < 2 ^ n"
  by (auto simp: less_power_bits bit_scatter)

text \<open>Two lists of positions that together name every index bit once.\<close>

definition layout :: "nat \<Rightarrow> nat list \<Rightarrow> nat list \<Rightarrow> bool" where
  "layout n rb cb \<longleftrightarrow> distinct (rb @ cb) \<and> set (rb @ cb) = {..<n}"

lemma layout_size: "layout n rb cb \<Longrightarrow> length rb + length cb = n"
  unfolding layout_def using distinct_card [of "rb @ cb"] by simp

lemma layout_swap: "layout n rb cb \<Longrightarrow> layout n cb rb"
  by (auto simp: layout_def)

lemma place_bit:
  assumes "layout n rb cb"
  shows "bit (scatter_bits r rb OR scatter_bits c cb) q \<longleftrightarrow>
    (\<exists>b < length rb. rb ! b = q \<and> bit r b) \<or> (\<exists>b < length cb. cb ! b = q \<and> bit c b)"
  using assms by (auto simp: layout_def bit_or_iff bit_scatter)

lemma place_less: "layout n rb cb \<Longrightarrow> scatter_bits r rb OR scatter_bits c cb < 2 ^ n"
  by (auto simp: less_power_bits place_bit) (auto simp: layout_def set_eq_iff in_set_conv_nth)

lemma place_row:
  assumes "layout n rb cb" "r < 2 ^ length rb"
  shows "gather_bits (scatter_bits r rb OR scatter_bits c cb) rb = r"
proof (rule bit_eqI)
  fix b
  have "\<not> (\<exists>k < length cb. cb ! k = rb ! b \<and> bit c k)" if "b < length rb"
    using assms(1) nth_mem [OF that] by (auto simp: layout_def disjoint_iff dest: nth_mem)
  moreover have "(\<exists>k < length rb. rb ! k = rb ! b \<and> bit r k) \<longleftrightarrow> bit r b" if "b < length rb"
    using assms(1) that by (auto simp: layout_def nth_eq_iff_index_eq)
  moreover have "bit r b \<Longrightarrow> b < length rb"
    using assms(2) by (simp add: less_power_bits)
  ultimately show "bit (gather_bits (scatter_bits r rb OR scatter_bits c cb) rb) b \<longleftrightarrow> bit r b"
    using assms(1) by (auto simp: bit_gather place_bit)
qed

lemma place_col:
  assumes "layout n rb cb" "c < 2 ^ length cb"
  shows "gather_bits (scatter_bits r rb OR scatter_bits c cb) cb = c"
  using place_row [OF layout_swap [OF assms(1)] assms(2), of r] by (simp add: or.commute)

lemma place_inverse:
  assumes "layout n rb cb" "i < 2 ^ n"
  shows "scatter_bits (gather_bits i rb) rb OR scatter_bits (gather_bits i cb) cb = i"
proof (rule bit_eqI)
  fix q
  have "bit i q \<Longrightarrow> q \<in> set (rb @ cb)"
    using assms by (auto simp: less_power_bits layout_def)
  then show "bit (scatter_bits (gather_bits i rb) rb OR scatter_bits (gather_bits i cb) cb) q \<longleftrightarrow> bit i q"
    using assms(1) by (auto simp: place_bit bit_gather in_set_conv_nth)
qed

end
