(* ===== verification/NeuralScalars.thy ===== *)
theory NeuralScalars
  imports NeuralBits
begin

text \<open>
  \<^verbatim>\<open>native/neural_decode.rs\<close>, the coefficients: half-precision and FP8 (E4M3) values widened to the
  bits of an \<^verbatim>\<open>f32\<close>. The two float products of the source are exact, a short integer times a
  power of two, so \<open>scaled_bits\<close> writes their result out. The values are compared as integers in
  units of the smallest representable number.
\<close>

section \<open>The code\<close>

text \<open>The bits of the \<^verbatim>\<open>f32\<close> equal to \<open>m / 2 ^ k\<close>, for \<open>m\<close> below \<open>2 ^ 24\<close>, and the negation of a float.\<close>

definition scaled_bits :: "nat \<Rightarrow> nat \<Rightarrow> u32" where
  "scaled_bits m k = (if m = 0 then 0
     else word_of_nat ((127 + ilog2 m - k) * 2 ^ 23 + (m * 2 ^ (23 - ilog2 m) - 2 ^ 23)))"

definition negate :: "u32 \<Rightarrow> u32" where
  "negate v = v XOR 0x80000000"

definition half :: "u16 \<Rightarrow> u32" where
  "half h =
     (let sign = push_bit 16 (ucast (h AND 0x8000));
          e = drop_bit 10 h AND 31;
          mant = h AND 1023
      in if e = 0 then
           (let v = scaled_bits (unat mant) 24 in if sign \<noteq> 0 then negate v else v)
         else
           (let exponent = (if e = 31 then 255 else ucast e + 112)
            in (sign OR push_bit 23 exponent) OR push_bit 13 (ucast mant)))"

definition fp8 :: "u8 \<Rightarrow> u32" where
  "fp8 b =
     (let e = drop_bit 3 b AND 15; m = b AND 7;
          v = (if e = 15 \<and> m = 7 then 0x7FC00000
               else if e = 0 then scaled_bits (unat m) 9
               else push_bit 23 (ucast e + 120) OR push_bit 20 (ucast m))
      in if b AND 128 \<noteq> 0 then negate v else v)"

definition halves :: "u8 list \<Rightarrow> fault + u32 list" where
  "halves raw = rbind (assert (length raw mod 2 = 0)) (\<lambda>_.
     Inr (map (\<lambda>v. half (from_le16 v)) (chunks 2 raw)))"

definition floats :: "u8 list \<Rightarrow> fault + u32 list" where
  "floats raw = rbind (assert (length raw mod 4 = 0)) (\<lambda>_. Inr (map from_le32 (chunks 4 raw)))"

section \<open>What the patterns stand for\<close>

text \<open>The value of a finite pattern, in units of \<open>2 ^ -149\<close>, \<open>2 ^ -24\<close> and \<open>2 ^ -9\<close>.\<close>

definition f32_value :: "u32 \<Rightarrow> int" where
  "f32_value w =
     (let e = unat w div 2 ^ 23 mod 2 ^ 8; m = unat w mod 2 ^ 23;
          v = (if e = 0 then m else (2 ^ 23 + m) * 2 ^ (e - 1))
      in if 2 ^ 31 \<le> unat w then - int v else int v)"

definition f16_value :: "u16 \<Rightarrow> int" where
  "f16_value h =
     (let e = unat h div 2 ^ 10 mod 2 ^ 5; m = unat h mod 2 ^ 10;
          v = (if e = 0 then m else (2 ^ 10 + m) * 2 ^ (e - 1))
      in if 2 ^ 15 \<le> unat h then - int v else int v)"

definition fp8_value :: "u8 \<Rightarrow> int" where
  "fp8_value b =
     (let e = unat b div 2 ^ 3 mod 2 ^ 4; m = unat b mod 2 ^ 3;
          v = (if e = 0 then m else (2 ^ 3 + m) * 2 ^ (e - 1))
      in if 2 ^ 7 \<le> unat b then - int v else int v)"

section \<open>Fields\<close>

definition fields :: "bool \<Rightarrow> nat \<Rightarrow> nat \<Rightarrow> u32" where
  "fields s e m = word_of_nat (of_bool s * 2 ^ 31 + e * 2 ^ 23 + m)"

lemma unat_fields: "e < 256 \<Longrightarrow> m < 2 ^ 23 \<Longrightarrow> unat (fields s e m) = of_bool s * 2 ^ 31 + e * 2 ^ 23 + m"
proof -
  assume "e < 256" "m < 2 ^ 23"
  then have "of_bool s * 2 ^ 31 + e * 2 ^ 23 + m < (2 :: nat) ^ 32"
    by (cases s) simp_all
  then show "unat (fields s e m) = of_bool s * 2 ^ 31 + e * 2 ^ 23 + m"
    unfolding fields_def unsigned_of_nat by (simp add: take_bit_nat_eq_self)
qed

lemma f32_value_fields:
  assumes "e < 256" "m < 2 ^ 23"
  shows "f32_value (fields s e m) =
    (if s then - 1 else 1) * int (if e = 0 then m else (2 ^ 23 + m) * 2 ^ (e - 1))"
proof -
  have u: "unat (fields s e m) = (of_bool s * 2 ^ 8 + e) * 2 ^ 23 + m"
    using unat_fields [OF assms] by simp
  have q: "(q * 2 ^ 23 + m) div 2 ^ 23 = q" "(q * 2 ^ 23 + m) mod 2 ^ 23 = m" for q
    using assms by simp_all
  have "unat (fields s e m) div 2 ^ 23 mod 2 ^ 8 = e" "unat (fields s e m) mod 2 ^ 23 = m"
    unfolding u q using assms by (cases s, simp_all)
  moreover have "2 ^ 31 \<le> unat (fields s e m) \<longleftrightarrow> s"
    using assms by (cases s) (simp_all add: unat_fields)
  ultimately show ?thesis
    by (simp add: f32_value_def Let_def)
qed

lemma bit_of_nat_word: "m < 2 ^ n \<Longrightarrow> bit (word_of_nat m :: u32) k \<Longrightarrow> k < n"
  by (simp add: bit_of_nat_iff less_power_bits)

lemma bit_sign: "bit (2147483648 :: int) n \<longleftrightarrow> n = 31"
proof -
  have "(2147483648 :: int) = 2 ^ 31" by simp
  then show ?thesis by (simp only: bit_exp_iff) auto
qed

lemma or_fields:
  assumes "e < 256" "m < 2 ^ 23"
  shows "((if s then 0x80000000 else 0) OR push_bit 23 (word_of_nat e)) OR word_of_nat m = fields s e m"
proof -
  let ?s = "if s then 0x80000000 else 0 :: u32" and ?e = "push_bit 23 (word_of_nat e) :: u32"
    and ?m = "word_of_nat m :: u32"
  have s: "bit ?s n \<Longrightarrow> n = 31" for n
    by (simp add: bit_sign split: if_splits)
  have e: "bit ?e n \<Longrightarrow> 23 \<le> n \<and> n < 31" for n
    using bit_of_nat_word [of e 8 "n - 23"] assms by (auto simp: bit_push_bit_iff)
  have m: "bit ?m n \<Longrightarrow> n < 23" for n
    by (rule bit_of_nat_word [OF assms(2)])
  have "\<not> bit ?s n \<or> \<not> bit ?e n" for n
    using s [of n] e [of n] by blast
  then have "?s OR ?e = ?s + ?e"
    by (rule disjunctive_add [symmetric])
  moreover have "\<not> bit (?s OR ?e) n \<or> \<not> bit ?m n" for n
    using s [of n] e [of n] m [of n] unfolding bit_or_iff by fastforce
  then have "(?s OR ?e) OR ?m = (?s OR ?e) + ?m"
    by (rule disjunctive_add [symmetric])
  ultimately show ?thesis
    by (simp add: fields_def push_bit_eq_mult)
qed

lemma negate_fields:
  assumes "e < 256" "m < 2 ^ 23"
  shows "negate (fields False e m) = fields True e m"
proof -
  let ?s = "0x80000000 :: u32" and ?r = "push_bit 23 (word_of_nat e) OR word_of_nat m :: u32"
  have "fields False e m = ?r" "fields True e m = ?s OR ?r"
    using or_fields [OF assms, of False] or_fields [OF assms, of True] by (simp_all add: or.assoc)
  moreover have "\<not> bit ?r 31"
    using bit_of_nat_word [of e 8 8] bit_of_nat_word [of m 23 31] assms
    by (auto simp: bit_or_iff bit_push_bit_iff)
  then have "?r XOR ?s = ?s OR ?r"
    by (auto intro!: bit_eqI simp: bit_or_iff bit_xor_iff bit_sign)
  ultimately show ?thesis
    by (simp add: negate_def)
qed

lemma scaled_bits_fields:
  "0 < m \<Longrightarrow> scaled_bits m k = fields False (127 + ilog2 m - k) (m * 2 ^ (23 - ilog2 m) - 2 ^ 23)"
  by (simp add: scaled_bits_def fields_def)

lemma scaled_mantissa:
  assumes "0 < m" "m < 2 ^ 23"
  shows "ilog2 m < 23" "2 ^ 23 \<le> m * 2 ^ (23 - ilog2 m)" "m * 2 ^ (23 - ilog2 m) < 2 ^ 24"
proof -
  have b: "2 ^ ilog2 m \<le> m" "m < 2 ^ Suc (ilog2 m)"
    using ilog2_bounds [OF assms(1)] by auto
  then have "(2 :: nat) ^ ilog2 m < 2 ^ 23"
    using assms(2) by linarith
  then show l: "ilog2 m < 23"
    by (rule power_less_imp_less_exp [rotated]) simp
  have "(2 :: nat) ^ 23 = 2 ^ ilog2 m * 2 ^ (23 - ilog2 m)" "(2 :: nat) ^ 24 = 2 ^ Suc (ilog2 m) * 2 ^ (23 - ilog2 m)"
    using l by (simp_all flip: power_add)
  then show "2 ^ 23 \<le> m * 2 ^ (23 - ilog2 m)" "m * 2 ^ (23 - ilog2 m) < 2 ^ 24"
    using mult_le_mono1 [OF b(1), of "2 ^ (23 - ilog2 m)"]
      mult_less_mono1 [OF b(2), of "2 ^ (23 - ilog2 m)"]
    by (auto simp del: power_Suc)
qed

lemma scaled_value:
  assumes "m < 2 ^ 23" "k \<le> 126"
  shows "f32_value (scaled_bits m k) = int m * 2 ^ (149 - k)"
    and "f32_value (negate (scaled_bits m k)) = - int m * 2 ^ (149 - k)"
proof -
  have "f32_value (scaled_bits m k) = int m * 2 ^ (149 - k) \<and>
      f32_value (negate (scaled_bits m k)) = - int m * 2 ^ (149 - k)"
  proof (cases "m = 0")
    case True
    have "scaled_bits 0 k = fields False 0 0"
      by (simp add: scaled_bits_def fields_def)
    with True show ?thesis
      by (simp add: negate_fields f32_value_fields)
  next
    case False
    let ?l = "ilog2 m" and ?f = "m * 2 ^ (23 - ilog2 m) - 2 ^ 23"
    note b = scaled_mantissa [OF _ assms(1)] False
    have e: "0 < 127 + ?l - k" "127 + ?l - k < 256" and f: "?f < 2 ^ 23"
      using b assms by auto
    have "(2 ^ 23 + ?f) * 2 ^ (127 + ?l - k - 1) = m * (2 ^ (23 - ?l) * 2 ^ (126 + ?l - k))"
      using b by simp
    also have "(2 :: nat) ^ (23 - ?l) * 2 ^ (126 + ?l - k) = 2 ^ (149 - k)"
      using b assms by (simp flip: power_add)
    finally have v: "(2 ^ 23 + ?f) * 2 ^ (127 + ?l - k - 1) = m * 2 ^ (149 - k)" .
    show ?thesis
      using False e f v by (simp add: scaled_bits_fields negate_fields f32_value_fields
          del: of_nat_mult of_nat_power)  (simp only: of_nat_mult of_nat_power of_nat_numeral)
  qed
  then show "f32_value (scaled_bits m k) = int m * 2 ^ (149 - k)"
    "f32_value (negate (scaled_bits m k)) = - int m * 2 ^ (149 - k)" by auto
qed

section \<open>The decoders\<close>

lemma unat_and_mask: "unat (w AND mask n) = unat w mod 2 ^ n"
  by (metis take_bit_eq_mask take_bit_eq_mod unsigned_take_bit_eq)

lemma unat_drop: "unat (drop_bit n w) = unat w div 2 ^ n"
  unfolding unat_drop_bit_eq by (rule drop_bit_eq_div)

lemma top_bit:
  assumes "unat w < 2 ^ Suc n"
  shows "bit w n \<longleftrightarrow> 2 ^ n \<le> unat w"
proof -
  have "bit w n \<longleftrightarrow> odd (unat w div 2 ^ n)"
    unfolding bit_iff_odd [of "unat w", symmetric] by (simp add: bit_unsigned_iff)
  also have "unat w div 2 ^ n = of_bool (2 ^ n \<le> unat w)"
    using assms by (auto intro: div_nat_eqI)
  finally show ?thesis by simp
qed

lemma and_power: "w AND 2 ^ n = (if bit w n then 2 ^ n else 0)" for w :: "'a :: len word"
  by (rule bit_eqI) (auto simp: bit_and_iff bit_exp_iff)

lemma half_parts:
  "unat (drop_bit 10 h AND 31) = unat h div 2 ^ 10 mod 2 ^ 5" (is ?e)
  "unat (h AND 1023) = unat h mod 2 ^ 10" (is ?m)
  "push_bit 16 (ucast (h AND 0x8000)) = (if 2 ^ 15 \<le> unat h then 0x80000000 else 0 :: u32)" (is ?s)
  for h :: u16
proof -
  have "(31 :: u16) = mask 5" "(1023 :: u16) = mask 10"
    by (simp_all add: mask_eq_exp_minus_1)
  then show ?e ?m
    by (simp_all only: unat_and_mask unat_drop)
  have b: "bit h 15 \<longleftrightarrow> 2 ^ 15 \<le> unat h"
    by (rule top_bit) (rule order_less_le_trans [OF unsigned_less], simp)
  have "h AND 0x8000 = (if bit h 15 then 0x8000 else 0)"
    using and_power [of h 15] by simp
  then show ?s by (simp add: b)
qed

lemma half_fields:
  "half h = (let s = 2 ^ 15 \<le> unat h; e = unat h div 2 ^ 10 mod 2 ^ 5; m = unat h mod 2 ^ 10 in
     if e = 0 then (if s then negate (scaled_bits m 24) else scaled_bits m 24)
     else fields s (if e = 31 then 255 else e + 112) (m * 2 ^ 13))"
proof -
  let ?s = "2 ^ 15 \<le> unat h" and ?e = "unat h div 2 ^ 10 mod 2 ^ 5" and ?m = "unat h mod 2 ^ 10"
  have w: "drop_bit 10 h AND 31 = word_of_nat ?e" "h AND 1023 = word_of_nat ?m"
    unfolding half_parts [symmetric] by simp_all
  have e0: "drop_bit 10 h AND 31 = 0 \<longleftrightarrow> ?e = 0" and e31: "drop_bit 10 h AND 31 = 31 \<longleftrightarrow> ?e = 31"
    unfolding half_parts(1) [symmetric] by (simp_all add: word_unat_eq_iff)
  have m: "push_bit 13 (ucast (h AND 1023)) = (word_of_nat (?m * 2 ^ 13) :: u32)"
    unfolding half_parts(2) [symmetric] by (simp add: push_bit_eq_mult unsigned_of_nat)
  have x: "(if drop_bit 10 h AND 31 = 31 then 255 else ucast (drop_bit 10 h AND 31) + 112) =
      (word_of_nat (if ?e = 31 then 255 else ?e + 112) :: u32)"
    unfolding e31 half_parts(1) [symmetric] by simp
  show ?thesis
    unfolding half_def Let_def e0 x m half_parts(2,3)
    by (subst or_fields) (auto simp: less_mult_imp_div_less)
qed

lemma normal_value:
  assumes "0 < e" "e + c < 256" "m < 2 ^ k" "k \<le> 23"
  shows "f32_value (fields s (e + c) (m * 2 ^ (23 - k))) =
    (if s then - 1 else 1) * int ((2 ^ k + m) * 2 ^ (e - 1)) * 2 ^ (c + 23 - k)"
proof -
  have k: "(2 :: nat) ^ 23 = 2 ^ k * 2 ^ (23 - k)"
    using assms(4) unfolding power_add [symmetric] by simp
  have m: "m * 2 ^ (23 - k) < 2 ^ 23"
    unfolding k using assms(3) by simp
  have "(2 ^ 23 + m * 2 ^ (23 - k)) * 2 ^ (e + c - 1) = (2 ^ k + m) * 2 ^ (e - 1) * (2 ^ (23 - k) * 2 ^ c)"
  proof -
    have "(2 :: nat) ^ (e + c - 1) = 2 ^ (e - 1) * 2 ^ c"
      using assms(1) unfolding power_add [symmetric] by simp
    then show ?thesis unfolding k by (simp add: algebra_simps)
  qed
  also have "(2 :: nat) ^ (23 - k) * 2 ^ c = 2 ^ (c + 23 - k)"
    using assms(4) unfolding power_add [symmetric] by (simp add: add.commute)
  finally have v: "(2 ^ 23 + m * 2 ^ (23 - k)) * 2 ^ (e + c - 1) = (2 ^ k + m) * 2 ^ (e - 1) * 2 ^ (c + 23 - k)" .
  have "f32_value (fields s (e + c) (m * 2 ^ (23 - k))) =
      (if s then - 1 else 1) * int ((2 ^ 23 + m * 2 ^ (23 - k)) * 2 ^ (e + c - 1))"
    using f32_value_fields [OF assms(2) m, of s] assms(1) by simp
  then show ?thesis
    unfolding v by (simp only: of_nat_mult of_nat_power of_nat_numeral mult.assoc)
qed

text \<open>Every half-precision pattern that is a number decodes to exactly that number.\<close>

lemma half_value:
  assumes "unat h div 2 ^ 10 mod 2 ^ 5 < 31"
  shows "f32_value (half h) = f16_value h * 2 ^ 125"
proof -
  obtain s e m where d: "s = (2 ^ 15 \<le> unat h)" "e = unat h div 2 ^ 10 mod 2 ^ 5" "m = unat h mod 2 ^ 10"
    by blast
  have m: "m < 2 ^ 10"
    by (simp add: d)
  have v: "f16_value h = (if s then - 1 else 1) * int (if e = 0 then m else (2 ^ 10 + m) * 2 ^ (e - 1))"
    by (simp add: f16_value_def Let_def d)
  have h: "half h = (if e = 0 then (if s then negate (scaled_bits m 24) else scaled_bits m 24)
      else fields s (e + 112) (m * 2 ^ (23 - 10)))"
    using assms by (simp add: half_fields Let_def d)
  show ?thesis
  proof (cases "e = 0")
    case True
    then show ?thesis
      using scaled_value [of m 24] m by (simp add: h v)
  next
    case False
    then show ?thesis
      using normal_value [of e 112 m 10 s] m assms d by (simp add: h v)
  qed
qed

lemma fp8_parts:
  "unat (drop_bit 3 b AND 15) = unat b div 2 ^ 3 mod 2 ^ 4" (is ?e)
  "unat (b AND 7) = unat b mod 2 ^ 3" (is ?m)
  "b AND 128 = 0 \<longleftrightarrow> \<not> 2 ^ 7 \<le> unat b" (is ?s)
  for b :: u8
proof -
  have "(15 :: u8) = mask 4" "(7 :: u8) = mask 3"
    by (simp_all add: mask_eq_exp_minus_1)
  then show ?e ?m
    by (simp_all only: unat_and_mask unat_drop)
  have "(128 :: u8) = 2 ^ 7" by simp
  then have "b AND 128 = 0 \<longleftrightarrow> \<not> bit b 7"
    by (simp only: and_exp_eq_0_iff_not_bit)
  also have "bit b 7 \<longleftrightarrow> 2 ^ 7 \<le> unat b"
    by (rule top_bit) (rule order_less_le_trans [OF unsigned_less], simp)
  finally show ?s .
qed

lemma fp8_fields:
  assumes "unat b mod 2 ^ 7 \<noteq> 127"
  shows "fp8 b = (let e = unat b div 2 ^ 3 mod 2 ^ 4; m = unat b mod 2 ^ 3;
      v = (if e = 0 then scaled_bits m 9 else fields False (e + 120) (m * 2 ^ 20))
    in if 2 ^ 7 \<le> unat b then negate v else v)"
proof -
  let ?e = "unat b div 2 ^ 3 mod 2 ^ 4" and ?m = "unat b mod 2 ^ 3"
  have e0: "drop_bit 3 b AND 15 = 0 \<longleftrightarrow> ?e = 0" and e15: "drop_bit 3 b AND 15 = 15 \<longleftrightarrow> ?e = 15"
    and m7: "b AND 7 = 7 \<longleftrightarrow> ?m = 7"
    unfolding fp8_parts(1,2) [symmetric] by (simp_all add: word_unat_eq_iff)
  have "unat b mod 2 ^ 7 = ?e * 2 ^ 3 + ?m"
    using mod_mult2_eq [of "unat b" "2 ^ 3" "2 ^ 4"] by simp
  then have nan: "\<not> (?e = 15 \<and> ?m = 7)"
    using assms by auto
  have a: "push_bit 20 (ucast (b AND 7)) = (word_of_nat (?m * 2 ^ 20) :: u32)"
    "ucast (drop_bit 3 b AND 15) + 120 = (word_of_nat (?e + 120) :: u32)"
    unfolding fp8_parts(1,2) [symmetric] by (simp_all add: push_bit_eq_mult unsigned_of_nat)
  have f: "push_bit 23 (word_of_nat (?e + 120)) OR word_of_nat (?m * 2 ^ 20) =
      fields False (?e + 120) (?m * 2 ^ 20)"
    using or_fields [of "?e + 120" "?m * 2 ^ 20" False] by (simp add: less_mult_imp_div_less)
  show ?thesis
    unfolding fp8_def Let_def e0 e15 m7 a f if_not_P [OF nan] fp8_parts
    by (simp only: not_not if_not_P cong: if_cong)
qed

lemma fp8_value_aux:
  assumes "unat b mod 2 ^ 7 \<noteq> 127"
  shows "f32_value (fp8 b) = fp8_value b * 2 ^ 140"
proof -
  obtain s e m where d: "s = (2 ^ 7 \<le> unat b)" "e = unat b div 2 ^ 3 mod 2 ^ 4" "m = unat b mod 2 ^ 3"
    by blast
  have l: "m < 2 ^ 3" "e < 16"
    by (simp_all add: d)
  have v: "fp8_value b = (if s then - 1 else 1) * int (if e = 0 then m else (2 ^ 3 + m) * 2 ^ (e - 1))"
    by (simp add: fp8_value_def Let_def d)
  have h: "fp8 b = (let v = (if e = 0 then scaled_bits m 9 else fields False (e + 120) (m * 2 ^ (23 - 3)))
      in if s then negate v else v)"
    using assms by (simp add: fp8_fields Let_def d)
  show ?thesis
  proof (cases "e = 0")
    case True
    then show ?thesis
      using scaled_value [of m 9] l by (simp add: h v)
  next
    case False
    have "negate (fields False (e + 120) (m * 2 ^ 20)) = fields True (e + 120) (m * 2 ^ 20)"
      using l by (intro negate_fields) simp_all
    with False show ?thesis
      using normal_value [of e 120 m 3 s] l by (cases s) (simp_all add: h v)
  qed
qed

text \<open>C20. Widening loses nothing: every half-precision pattern that is not infinite or not-a-number,
  and every FP8 pattern that is a number, decodes to the \<^verbatim>\<open>f32\<close> of exactly the same value.\<close>

theorem coefficients_exact:
  assumes "unat h div 2 ^ 10 mod 2 ^ 5 < 31" "unat b mod 2 ^ 7 \<noteq> 127"
  shows "f32_value (half h) = f16_value h * 2 ^ 125 \<and> f32_value (fp8 b) = fp8_value b * 2 ^ 140"
  using half_value [OF assms(1)] fp8_value_aux [OF assms(2)] by (rule conjI)

theorem coefficients_exact_witness:
  "f32_value (half 0x3C00) = 2 ^ 149 \<and> f32_value (fp8 0xB8) = - (2 ^ 149)"
proof -
  have "f16_value 0x3C00 = 2 ^ 24" "fp8_value 0xB8 = - (2 ^ 9)"
    by code_simp+
  with coefficients_exact [of "0x3C00" "0xB8"] show ?thesis by simp
qed

lemma length_halves: "halves raw = Inr v \<Longrightarrow> length v = length raw div 2"
  by (auto simp: halves_def assert_def length_chunks result_simps split: if_splits)

lemma halves_ok [layout_simps]:
  "length raw mod 2 = 0 \<Longrightarrow> \<exists>v. halves raw = Inr v \<and> length v = length raw div 2"
  by (simp add: halves_def assert_def length_chunks)

lemma floats_ok [layout_simps]:
  "length raw mod 4 = 0 \<Longrightarrow> \<exists>v. floats raw = Inr v \<and> length v = length raw div 4"
  by (simp add: floats_def assert_def length_chunks)

end
