(* ===== verification/NeuralTables.thy ===== *)
theory NeuralTables
  imports NeuralScalars "HOL-Library.Multiset"
begin

text \<open>
  \<^verbatim>\<open>native/neural_decode.rs\<close>, the coefficient layouts: matrices and their sparse form, skip
  connections, attention biases, and one decoder per kind of network block. Every slice, index and
  assertion of the source can fail with \<open>Panic\<close>.
\<close>

section \<open>Layouts\<close>

definition INVALID :: string where
  "INVALID = ''Invalid or unsupported NR weight archive.''"

definition C32 :: "nat list" where
  "C32 = [0, 1, 4, 5, 8, 9, 12, 13, 2, 3, 6, 7, 10, 11, 14, 15, 16, 17, 20, 21, 24, 25, 28, 29, 18, 19,
    22, 23, 26, 27, 30, 31]"

definition extend_all :: "('x \<Rightarrow> fault + 'a list) \<Rightarrow> 'x list \<Rightarrow> fault + 'a list" where
  "extend_all f xs = rbind (all_ok f xs) (\<lambda>vs. Inr (concat vs))"

definition part_of :: "('a list \<Rightarrow> fault + 'b) \<Rightarrow> 'a list \<Rightarrow> nat \<Rightarrow> nat \<Rightarrow> fault + 'b" where
  "part_of f raw a b = rbind (range raw a b) f"

text \<open>Extending a vector by the result of another decoder.\<close>

definition extend :: "'a list \<Rightarrow> fault + 'a list \<Rightarrow> ('a list \<Rightarrow> fault + 'b) \<Rightarrow> fault + 'b" where
  "extend v m f = rbind m (\<lambda>w. f (v @ w))"

definition matrix :: "u8 list \<Rightarrow> nat list \<Rightarrow> nat list \<Rightarrow> fault + u32 list" where
  "matrix raw rb cb =
     rbind (assert (length raw = 2 ^ (length rb + length cb))) (\<lambda>_.
     let columns = map (\<lambda>i. scatter_bits i cb) [0..<2 ^ length cb]
     in extend_all (\<lambda>r. let row = scatter_bits r rb
          in all_ok (\<lambda>c. rbind (at raw (row OR c)) (\<lambda>b. Inr (fp8 b))) columns) [0..<2 ^ length rb])"

definition sparse :: "u8 list \<Rightarrow> nat \<Rightarrow> nat \<Rightarrow> nat list \<Rightarrow> nat list \<Rightarrow> fault + u32 list" where
  "sparse raw rows cols rb cb =
     rfold (\<lambda>(i, b) values. put (gather_bits i rb * cols + gather_bits i cb) (fp8 b) values)
       (enumerate 0 raw) (replicate (rows * cols) 0)"

definition skip_order :: "nat \<Rightarrow> nat list" where
  "skip_order ch = map (\<lambda>s. (s div 16) * 16 + (s mod 8) * 2 + (s mod 16 div 8)) [0..<ch]"

definition skip :: "u8 list \<Rightarrow> nat list \<Rightarrow> fault + u32 list" where
  "skip raw order = rbind (halves raw) (\<lambda>vs.
     rfold (\<lambda>(index, v) values. put index v values) (zip order vs) (replicate (length order) 0))"

definition bias_index :: "nat \<Rightarrow> nat" where
  "bias_index i =
     (let j = i mod 4096;
          q = gather_bits j [5, 6, 10, 7, 1, 11];
          k = gather_bits j [0, 3, 8, 4, 2, 9]
      in (i div 4096) * 4096 + q * 64 + k)"

definition bias :: "u8 list \<Rightarrow> fault + u32 list" where
  "bias raw = rbind (halves raw) (\<lambda>vs.
     rfold (\<lambda>(i, v) values. put (bias_index i) v values) (enumerate 0 vs) (replicate (length raw div 2) 0))"

definition interleaved :: "u8 list \<Rightarrow> nat \<Rightarrow> fault + u8 list" where
  "interleaved raw part =
     rbind (assert (length raw mod 3072 = 0)) (\<lambda>_.
     extend_all (\<lambda>v. range v (part * 1024) ((part + 1) * 1024)) (chunks 3072 raw))"

section \<open>Running without a panic\<close>

definition runs :: "fault + 'a \<Rightarrow> ('a \<Rightarrow> bool) \<Rightarrow> bool" where
  "runs m Q \<longleftrightarrow> (\<exists>v. m = Inr v \<and> Q v)"

abbreviation gives :: "fault + 'a list \<Rightarrow> nat \<Rightarrow> bool" where
  "gives m n \<equiv> runs m (\<lambda>v. length v = n)"

lemma runs_Inr [simp]: "runs (Inr v) Q = Q v"
  by (simp add: runs_def)

lemma runs_Inl [simp]: "runs (Inl e) Q = False"
  by (simp add: runs_def)

lemma runs_bind [simp]: "runs (rbind m f) Q = runs m (\<lambda>v. runs (f v) Q)"
  by (cases m) auto

lemma runs_mono: "runs m P \<Longrightarrow> (\<And>v. P v \<Longrightarrow> Q v) \<Longrightarrow> runs m Q"
  by (auto simp: runs_def)

lemma runs_assert [simp]: "runs (assert c) Q \<longleftrightarrow> c \<and> Q ()"
  by (simp add: assert_def)

lemma runs_range [simp]: "runs (range raw a b) Q \<longleftrightarrow> a \<le> b \<and> b \<le> length raw \<and> Q (take (b - a) (drop a raw))"
  by (auto simp: range_def)

lemma runs_from [simp]: "runs (from_on raw a) Q \<longleftrightarrow> a \<le> length raw \<and> Q (drop a raw)"
  by (auto simp: from_on_def)

lemma runs_at [simp]: "runs (at raw i) Q \<longleftrightarrow> i < length raw \<and> Q (raw ! i)"
  by (simp add: at_def)

lemma runs_put [simp]: "runs (put i v xs) Q \<longleftrightarrow> i < length xs \<and> Q (xs[i := v])"
  by (simp add: put_def)

lemma runs_extend [simp]: "runs (extend v m f) Q = runs m (\<lambda>w. runs (f (v @ w)) Q)"
  by (simp add: extend_def)

lemma runs_part: "b \<le> length raw \<Longrightarrow> a \<le> b \<Longrightarrow> (\<And>r. length r = b - a \<Longrightarrow> runs (f r) Q) \<Longrightarrow> runs (part_of f raw a b) Q"
  by (simp add: part_of_def)

lemma runs_all_ok:
  "(\<And>x. x \<in> set xs \<Longrightarrow> runs (f x) (P x)) \<Longrightarrow> runs (all_ok f xs) (\<lambda>vs. list_all2 P xs vs)"
proof (induction xs)
  case (Cons x xs)
  then have "runs (f x) (P x)" "runs (all_ok f xs) (\<lambda>vs. list_all2 P xs vs)"
    by auto
  then show ?case by (auto simp: runs_def)
qed simp

lemma gives_extend_all:
  assumes "\<And>x. x \<in> set xs \<Longrightarrow> gives (f x) n"
  shows "gives (extend_all f xs) (length xs * n)"
proof -
  have "length (concat vs) = length xs * n" if "list_all2 (\<lambda>_ v. length v = n) xs vs" for vs
    using that by (induction rule: list_all2_induct) auto
  then show ?thesis
    using runs_all_ok [of xs f "\<lambda>_ v. length v = n"] assms by (auto simp: extend_all_def intro: runs_mono)
qed

lemma gives_fold_put:
  "(\<And>x. x \<in> set xs \<Longrightarrow> g x < length vs) \<Longrightarrow> gives (rfold (\<lambda>x. put (g x) (h x)) xs vs) (length vs)"
proof (induction xs arbitrary: vs)
  case (Cons x xs)
  have "gives (rfold (\<lambda>x. put (g x) (h x)) xs (vs[g x := h x])) (length (vs[g x := h x]))"
    by (rule Cons.IH) (use Cons.prems in auto)
  then show ?case
    using Cons.prems by simp
qed simp

text \<open>Writing every element of a list once, at an injective index, permutes it.\<close>

lemma fold_put_nth:
  assumes "rfold (\<lambda>x. put (g x) (h x)) xs vs = Inr ws" "distinct (map g xs)"
  shows "length ws = length vs \<and> (\<forall>x \<in> set xs. g x < length vs \<and> ws ! g x = h x) \<and>
    (\<forall>k < length vs. k \<notin> g ` set xs \<longrightarrow> ws ! k = vs ! k)"
  using assms
proof (induction xs arbitrary: vs)
  case (Cons x xs)
  obtain us where us: "put (g x) (h x) vs = Inr us" "rfold (\<lambda>x. put (g x) (h x)) xs us = Inr ws"
    using Cons.prems(1) by (auto simp: result_simps)
  then have l: "g x < length vs" and r: "rfold (\<lambda>x. put (g x) (h x)) xs (vs[g x := h x]) = Inr ws"
    by (auto simp: put_def split: if_splits)
  note IH = Cons.IH [OF r]
  have "g x \<notin> g ` set xs" "distinct (map g xs)"
    using Cons.prems(2) by auto
  with IH l show ?case by auto
qed simp

lemma gives_matrix:
  assumes "layout n rb cb" "length raw = 2 ^ n"
  shows "gives (matrix raw rb cb) (2 ^ n)"
proof -
  have "gives (all_ok (\<lambda>c. rbind (at raw (scatter_bits r rb OR c)) (\<lambda>b. Inr (fp8 b)))
      (map (\<lambda>i. scatter_bits i cb) [0..<2 ^ length cb])) (2 ^ length cb)" for r
  proof -
    have "runs (all_ok (\<lambda>c. rbind (at raw (scatter_bits r rb OR c)) (\<lambda>b. Inr (fp8 b)))
        (map (\<lambda>i. scatter_bits i cb) [0..<2 ^ length cb]))
        (\<lambda>vs. list_all2 (\<lambda>_ _. True) (map (\<lambda>i. scatter_bits i cb) [0..<2 ^ length cb]) vs)"
      by (rule runs_all_ok) (auto simp: assms(2) place_less [OF assms(1)])
    then show ?thesis by (rule runs_mono) (auto dest: list_all2_lengthD)
  qed
  then have "gives (extend_all (\<lambda>r. all_ok (\<lambda>c. rbind (at raw (scatter_bits r rb OR c)) (\<lambda>b. Inr (fp8 b)))
      (map (\<lambda>i. scatter_bits i cb) [0..<2 ^ length cb])) [0..<2 ^ length rb])
      (length [0..<2 ^ length rb] * 2 ^ length cb)"
    by (rule gives_extend_all)
  moreover have "length [0..<2 ^ length rb] * 2 ^ length cb = (2 :: nat) ^ n"
    using layout_size [OF assms(1)] by (simp flip: power_add)
  ultimately show ?thesis
    using layout_size [OF assms(1)] assms(2) by (simp add: matrix_def)
qed

lemma nth_concat_rows:
  assumes "list_all2 (\<lambda>r vs. length vs = k \<and> (\<forall>c < k. vs ! c = F r c)) rs vss"
  shows "concat vss = concat (map (\<lambda>r. map (F r) [0..<k]) rs)"
  using assms by (induction rule: list_all2_induct) (auto intro: nth_equalityI)

text \<open>The entry at row \<open>r\<close> and column \<open>c\<close> is the byte at the place the two layouts give.\<close>

lemma all_ok_map: "(\<And>x. x \<in> set xs \<Longrightarrow> f (h x) = Inr (g x)) \<Longrightarrow> all_ok f (map h xs) = Inr (map g xs)"
  by (induction xs) auto

lemma matrix_rows:
  assumes "layout n rb cb" "length raw = 2 ^ n"
  shows "matrix raw rb cb = Inr (concat (map (\<lambda>r. map (\<lambda>c. fp8 (raw ! (scatter_bits r rb OR scatter_bits c cb)))
    [0..<2 ^ length cb]) [0..<2 ^ length rb]))"
proof -
  let ?row = "\<lambda>r. map (\<lambda>c. fp8 (raw ! (scatter_bits r rb OR scatter_bits c cb))) [0..<2 ^ length cb]"
  have "all_ok (\<lambda>c. rbind (at raw (scatter_bits r rb OR c)) (\<lambda>b. Inr (fp8 b)))
      (map (\<lambda>i. scatter_bits i cb) [0..<2 ^ length cb]) = Inr (?row r)" for r
    by (rule all_ok_map) (simp add: at_def assms(2) place_less [OF assms(1)])
  then have "all_ok (\<lambda>r. all_ok (\<lambda>c. rbind (at raw (scatter_bits r rb OR c)) (\<lambda>b. Inr (fp8 b)))
      (map (\<lambda>i. scatter_bits i cb) [0..<2 ^ length cb])) (map id [0..<2 ^ length rb]) =
      Inr (map ?row [0..<2 ^ length rb])"
    by (intro all_ok_map [where h = id]) (simp only: id_apply)
  then show ?thesis
    using layout_size [OF assms(1)] assms(2) by (simp add: matrix_def assert_def extend_all_def)
qed

lemma concat_grid: "concat (map (\<lambda>r. map (F r) [0..<k]) [0..<m]) = map (\<lambda>i. F (i div k) (i mod k)) [0..<m * k]"
proof (induction m)
  case (Suc m)
  have "[0..<Suc m * k] = [0..<m * k] @ [m * k..<k + m * k]"
    using upt_add_eq_append [of 0 "m * k" k] by (simp add: add.commute)
  also have "[m * k..<k + m * k] = map (\<lambda>c. c + m * k) [0..<k]"
    by (simp add: map_add_upt)
  finally have u: "[0..<Suc m * k] = [0..<m * k] @ map (\<lambda>c. c + m * k) [0..<k]" .
  have "map (\<lambda>i. F (i div k) (i mod k)) (map (\<lambda>c. c + m * k) [0..<k]) = map (F m) [0..<k]"
    by simp
  then show ?case
    using Suc unfolding u by (simp del: map_map)
qed simp

lemma matrix_nth:
  assumes "layout n rb cb" "length raw = 2 ^ n"
  shows "matrix raw rb cb = Inr (map (\<lambda>i. fp8 (raw ! (scatter_bits (i div 2 ^ length cb) rb OR
    scatter_bits (i mod 2 ^ length cb) cb))) [0..<2 ^ n])"
  unfolding matrix_rows [OF assms] concat_grid using layout_size [OF assms(1)] by (simp flip: power_add)

definition source_of :: "nat list \<Rightarrow> nat list \<Rightarrow> nat \<Rightarrow> nat" where
  "source_of rb cb i = scatter_bits (i div 2 ^ length cb) rb OR scatter_bits (i mod 2 ^ length cb) cb"

definition target_of :: "nat list \<Rightarrow> nat list \<Rightarrow> nat \<Rightarrow> nat" where
  "target_of rb cb i = gather_bits i rb * 2 ^ length cb + gather_bits i cb"

lemma target_source:
  assumes "layout n rb cb" "i < 2 ^ n"
  shows "target_of rb cb (source_of rb cb i) = i"
proof -
  have "i div 2 ^ length cb < 2 ^ length rb"
    using assms layout_size [OF assms(1)] by (simp add: less_mult_imp_div_less flip: power_add)
  then show ?thesis
    by (simp add: target_of_def source_of_def place_row [OF assms(1)] place_col [OF assms(1)]
        div_mult_mod_eq del: mult_div_mod_eq)
qed

lemma source_target: "layout n rb cb \<Longrightarrow> i < 2 ^ n \<Longrightarrow> source_of rb cb (target_of rb cb i) = i"
  using gather_less [of i cb] by (simp add: target_of_def source_of_def place_inverse)

lemma target_less:
  assumes "layout n rb cb"
  shows "target_of rb cb i < 2 ^ n"
proof -
  have "gather_bits i rb * 2 ^ length cb + gather_bits i cb < (gather_bits i rb + 1) * 2 ^ length cb"
    using gather_less [of i cb] by simp
  also have "\<dots> \<le> 2 ^ length rb * 2 ^ length cb"
    using gather_less [of i rb] by (intro mult_le_mono1) simp
  finally show ?thesis
    using layout_size [OF assms] by (simp add: target_of_def flip: power_add)
qed

lemma source_permutes:
  assumes "layout n rb cb"
  shows "mset (map (source_of rb cb) [0..<2 ^ n]) = mset [0..<2 ^ n]"
proof -
  have "inj_on (source_of rb cb) {..<2 ^ n}"
    by (rule inj_on_inverseI [where g = "target_of rb cb"]) (simp add: target_source [OF assms])
  moreover have "source_of rb cb ` {..<2 ^ n} = {..<2 ^ n}"
  proof -
    have "source_of rb cb i < 2 ^ n" for i
      by (simp add: source_of_def place_less [OF assms])
    moreover have "i \<in> source_of rb cb ` {..<2 ^ n}" if "i < 2 ^ n" for i
      using source_target [OF assms that] target_less [OF assms, of i] by (metis imageI lessThan_iff)
    ultimately show ?thesis by auto
  qed
  ultimately have "distinct (map (source_of rb cb) [0..<2 ^ n])"
      "set (map (source_of rb cb) [0..<2 ^ n]) = set [0..<2 ^ n]"
    by (simp_all add: distinct_map atLeast0LessThan)
  then show ?thesis
    using set_eq_iff_mset_eq_distinct [OF _ distinct_upt] by blast
qed

lemma matrix_source:
  assumes "layout n rb cb" "length raw = 2 ^ n"
  shows "matrix raw rb cb = Inr (map (\<lambda>i. fp8 (raw ! source_of rb cb i)) [0..<2 ^ n])"
  unfolding matrix_nth [OF assms] source_of_def ..

text \<open>A matrix decodes every byte of its record exactly once.\<close>

lemma matrix_mset:
  assumes "layout n rb cb" "length raw = 2 ^ n"
  shows "\<exists>v. matrix raw rb cb = Inr v \<and> mset v = mset (map fp8 raw)"
proof -
  have "mset (map (\<lambda>i. fp8 (raw ! source_of rb cb i)) [0..<2 ^ n]) =
      image_mset (\<lambda>j. fp8 (raw ! j)) (mset (map (source_of rb cb) [0..<2 ^ n]))"
    by (simp add: multiset.map_comp comp_def flip: mset_map)
  also have "\<dots> = mset (map (\<lambda>j. fp8 (raw ! j)) [0..<length raw])"
    unfolding source_permutes [OF assms(1)] assms(2) by (simp only: mset_map)
  also have "map (\<lambda>j. fp8 (raw ! j)) [0..<length raw] = map fp8 raw"
    by (rule nth_equalityI) auto
  finally show ?thesis
    by (simp add: matrix_source [OF assms])
qed

text \<open>The sparse decoder, which walks the record instead of the table, computes the same table.\<close>

lemma sparse_matrix:
  assumes "layout n rb cb" "length raw = 2 ^ n"
  shows "sparse raw (2 ^ length rb) (2 ^ length cb) rb cb = matrix raw rb cb"
proof -
  let ?g = "\<lambda>x. target_of rb cb (fst x)" and ?h = "\<lambda>x. fp8 (snd x)"
  have size: "(2 :: nat) ^ length rb * 2 ^ length cb = 2 ^ n"
    using layout_size [OF assms(1)] by (simp flip: power_add)
  have s: "sparse raw (2 ^ length rb) (2 ^ length cb) rb cb =
      rfold (\<lambda>x. put (?g x) (?h x)) (enumerate 0 raw) (replicate (2 ^ n) 0)"
    by (simp add: sparse_def size target_of_def case_prod_unfold)
  have "gives (rfold (\<lambda>x. put (?g x) (?h x)) (enumerate 0 raw) (replicate (2 ^ n) 0)) (2 ^ n)"
    using gives_fold_put [of "enumerate 0 raw" ?g "replicate (2 ^ n) (0 :: u32)" ?h] target_less [OF assms(1)]
    by simp
  then obtain ws where ws: "rfold (\<lambda>x. put (?g x) (?h x)) (enumerate 0 raw) (replicate (2 ^ n) 0) = Inr ws"
    by (auto simp: runs_def)
  have inj: "inj_on (target_of rb cb) {..<2 ^ n}"
    by (rule inj_on_inverseI [where g = "source_of rb cb"]) (simp add: source_target [OF assms(1)])
  have fst: "map fst (enumerate 0 raw) = [0..<2 ^ n]"
    by (simp add: assms(2))
  have "distinct (map (target_of rb cb) (map fst (enumerate 0 raw)))"
    using inj unfolding fst by (simp add: distinct_map atLeast0LessThan)
  then have d: "distinct (map ?g (enumerate 0 raw))"
    by (simp only: map_map comp_def)
  have put: "ws ! target_of rb cb j = fp8 (raw ! j)" if "j < 2 ^ n" for j
  proof -
    have "(j, raw ! j) \<in> set (enumerate 0 raw)"
      using that assms(2) by (auto simp: in_set_enumerate_eq)
    then show ?thesis
      using fold_put_nth [OF ws d] by force
  qed
  have "ws = map (\<lambda>i. fp8 (raw ! source_of rb cb i)) [0..<2 ^ n]"
  proof (rule nth_equalityI)
    show "length ws = length (map (\<lambda>i. fp8 (raw ! source_of rb cb i)) [0..<2 ^ n])"
      using fold_put_nth [OF ws d] by simp
    then show "ws ! i = map (\<lambda>i. fp8 (raw ! source_of rb cb i)) [0..<2 ^ n] ! i" if "i < length ws" for i
      using put [of "source_of rb cb i"] target_source [OF assms(1), of i] that
      by (simp add: source_of_def place_less [OF assms(1)])
  qed
  then show ?thesis
    by (simp add: s ws matrix_source [OF assms])
qed

lemma gives_sparse:
  assumes "rows = 2 ^ length rb" "cols = 2 ^ length cb"
  shows "gives (sparse raw rows cols rb cb) (rows * cols)"
proof -
  have "gather_bits i rb * cols + gather_bits i cb < rows * cols" for i
  proof -
    have "gather_bits i rb * cols + gather_bits i cb < (gather_bits i rb + 1) * cols"
      using gather_less [of i cb] assms(2) by simp
    also have "\<dots> \<le> rows * cols"
      using gather_less [of i rb] assms(1) by (intro mult_le_mono1) simp
    finally show ?thesis .
  qed
  then show ?thesis
    using gives_fold_put [of "enumerate 0 raw" "\<lambda>x. gather_bits (fst x) rb * cols + gather_bits (fst x) cb"
        "replicate (rows * cols) (0 :: u32)" "\<lambda>x. fp8 (snd x)"]
    by (simp add: sparse_def case_prod_unfold)
qed

section \<open>Skips, biases and interleaved parts\<close>

lemma gives_skip:
  assumes "length raw = 2 * length order" "\<forall>k \<in> set order. k < length order"
  shows "gives (skip raw order) (length order)"
proof -
  obtain vs where vs: "halves raw = Inr vs"
    using halves_ok [of raw] assms(1) by auto
  have "fst x < length order" if "x \<in> set (zip order vs)" for x
    using set_zip_leftD [of "fst x" "snd x" order vs] that assms(2) by simp
  then show ?thesis
    using gives_fold_put [of "zip order vs" fst "replicate (length order) (0 :: u32)" snd]
    by (simp add: skip_def vs case_prod_unfold)
qed

lemma skip_order_less: "16 dvd ch \<Longrightarrow> k \<in> set (skip_order ch) \<Longrightarrow> k < ch"
proof -
  assume "16 dvd ch" "k \<in> set (skip_order ch)"
  then obtain c s where c: "ch = 16 * c" and s: "s < 16 * c" "k = s div 16 * 16 + s mod 8 * 2 + s mod 16 div 8"
    by (auto simp: skip_order_def)
  have "s mod 8 * 2 + s mod 16 div 8 < 16"
    using mod_less_divisor [of 8 s] mod_less_divisor [of 16 s] by linarith
  moreover have "s div 16 < c"
    using s(1) by (simp add: less_mult_imp_div_less mult.commute)
  ultimately show ?thesis
    by (simp add: s(2) c)
qed

lemma length_skip_order [simp]: "length (skip_order ch) = ch"
  by (simp add: skip_order_def)

lemma gives_skip_order: "16 dvd ch \<Longrightarrow> length raw = 2 * ch \<Longrightarrow> gives (skip raw (skip_order ch)) ch"
  using gives_skip [of raw "skip_order ch"] skip_order_less [of ch] by simp

lemma gives_skip_C32: "length raw = 64 \<Longrightarrow> gives (skip raw C32) 32"
proof -
  have "length C32 = 32" "\<forall>k \<in> set C32. k < 32"
    by (simp_all add: C32_def)
  then show "length raw = 64 \<Longrightarrow> gives (skip raw C32) 32"
    using gives_skip [of raw C32] by simp
qed

lemma bias_index_less: "i div 4096 < n \<Longrightarrow> bias_index i < n * 4096"
  using gather_less [of "i mod 4096" "[5, 6, 10, 7, 1, 11]"] gather_less [of "i mod 4096" "[0, 3, 8, 4, 2, 9]"]
  by (simp add: bias_index_def Let_def)

lemma gives_bias:
  assumes "length raw = n * 8192"
  shows "gives (bias raw) (n * 4096)"
proof -
  obtain vs where vs: "halves raw = Inr vs" "length vs = n * 4096"
    using halves_ok [of raw] assms by auto
  have "bias_index (fst x) < n * 4096" if "x \<in> set (enumerate 0 vs)" for x
    using that vs(2) by (intro bias_index_less) (auto simp: in_set_enumerate_eq less_mult_imp_div_less)
  then show ?thesis
    using gives_fold_put [of "enumerate 0 vs" "\<lambda>x. bias_index (fst x)" "replicate (n * 4096) (0 :: u32)" snd]
    by (simp add: bias_def vs case_prod_unfold assms mult.commute [of 4096 n])
qed

lemma gives_interleaved:
  assumes "length raw = n * 3072" "part < 3"
  shows "gives (interleaved raw part) (n * 1024)"
proof -
  have "gives (range v (part * 1024) ((part + 1) * 1024)) 1024" if "v \<in> set (chunks 3072 raw)" for v
    using that assms(2) chunks_lengths [of v 3072 raw] by simp
  then have "gives (extend_all (\<lambda>v. range v (part * 1024) ((part + 1) * 1024)) (chunks 3072 raw))
      (length (chunks 3072 raw) * 1024)"
    by (rule gives_extend_all)
  then show ?thesis
    using assms(1) by (simp add: interleaved_def length_chunks)
qed



end
