(* ===== verification/NeuralBlocks.thy ===== *)
theory NeuralBlocks
  imports NeuralTables
begin

text \<open>
  \<^verbatim>\<open>native/neural_decode.rs\<close>, one decoder per kind of network block. The lengths shown here are
  those of the tables the converter must produce; that they hold is also the proof that no slice or
  index of a decoder leaves its record.
\<close>

section \<open>The decoders\<close>

definition pre :: "u8 list \<Rightarrow> fault + u32 list \<times> u8 list" where
  "pre raw =
     rbind (part_of halves raw 8208 9232) (\<lambda>vs.
     rbind (rfold (\<lambda>(s, v) mix.
         let ch = (s div 64) * 4 + (s div 32 mod 2) + 2 * (s div 4 mod 2);
             feature = (s div 8 mod 4) * 4 + s mod 4
         in put (ch * 16 + feature) v mix) (enumerate 0 vs) (replicate 512 0)) (\<lambda>mix.
     rbind (range raw 0 8208) (\<lambda>a.
     rbind (from_on raw 9232) (\<lambda>b. Inr (mix, a @ b)))))"

definition post :: "u8 list \<Rightarrow> fault + u8 list \<times> u32 list \<times> u32 list" where
  "post raw =
     rbind (range raw 0 0x2050) (\<lambda>a. rbind (range raw 0x20d0 0x5130) (\<lambda>b.
     let ordinary = a @ replicate 16 0 @ b in
     rbind (part_of (\<lambda>r. skip r C32) raw 0x2050 0x2090) (\<lambda>s1.
     rbind (part_of (\<lambda>r. skip r C32) raw 0x2090 0x20d0) (\<lambda>s2.
     rbind (rbind (from_on raw 0x5130) halves) (\<lambda>vs.
     rbind (rfold (\<lambda>(i, v) head. put (gather_bits i [2, 5, 6, 7] * 32 + gather_bits i [0, 1, 3, 4, 8]) v head)
         (enumerate 0 vs) (replicate 512 0)) (\<lambda>head.
     rbind (range head 0 32) (\<lambda>h1. rbind (range head 64 96) (\<lambda>h2. rbind (range head 128 160) (\<lambda>h3.
     Inr (ordinary, s1 @ s2, h1 @ h2 @ h3))))))))))"

text \<open>Copying one row of a table over another, and one slice over another.\<close>

definition copy_at :: "nat \<Rightarrow> 'a list \<Rightarrow> 'a list \<Rightarrow> fault + 'a list" where
  "copy_at a new xs = rbind (assert (a + length new \<le> length xs)) (\<lambda>_.
     Inr (take a xs @ new @ drop (a + length new) xs))"

definition copy_range :: "nat \<Rightarrow> nat \<Rightarrow> 'a list \<Rightarrow> 'a list \<Rightarrow> fault + 'a list" where
  "copy_range a b new xs = rbind (range xs a b) (\<lambda>r.
     rbind (assert (length r = length new)) (\<lambda>_. copy_at a new xs))"

definition upsample :: "u8 list \<Rightarrow> nat \<Rightarrow> fault + u32 list \<times> u8 list" where
  "upsample raw ch =
     (if ch = 32 then
        rbind (range raw 0 0x2000) (\<lambda>a. rbind (range raw 0x2800 0x2860) (\<lambda>b. rbind (from_on raw 0x28a0) (\<lambda>c.
        let body = a @ b @ c in
        rbind (part_of (\<lambda>r. matrix r [3, 6, 7, 8, 9] [1, 0, 4, 5, 2, 10]) raw 0x2000 0x2800) (\<lambda>mat.
        rbind (rfold (\<lambda>(i, source) out.
            rbind (at C32 i) (\<lambda>t. rbind (range mat (source * 64) ((source + 1) * 64)) (\<lambda>row.
            copy_range (t * 64) ((t + 1) * 64) row out)))
          (enumerate 0 (skip_order 32)) (replicate 2048 0)) (\<lambda>out.
        extend out (part_of (\<lambda>r. skip r C32) raw 0x2860 0x28a0) (\<lambda>out.
        Inr (out, body)))))))
      else
        rbind (if ch = 64 then Inr (61760, 0x7000, 0x9000, 0x70a0)
               else if ch = 128 then Inr (197184, 0x18000, 0x20000, 0x18120)
               else if ch = 256 then Inr (689232, 0x58000, 0x78000, 0x58220)
               else Inl Panic) (\<lambda>(n, start, ffskip, qkv).
        rbind (rbind (range raw 0 start) (\<lambda>r. copy_range 0 start r (replicate n 0))) (\<lambda>body.
        rbind (rbind (range raw ffskip (ffskip + 2 * ch))
          (\<lambda>r. copy_range (start + 16) (start + 16 + 2 * ch) r body)) (\<lambda>body.
        rbind (rbind (from_on raw (ffskip + 4 * ch)) (\<lambda>r. copy_range qkv (length body) r body)) (\<lambda>body.
        let d = ilog2 ch in
        rbind (part_of (\<lambda>r. matrix r (axes [3] [6..<d + 5]) (axes [1, 0, 4, 5, 2] [d + 5..<2 * d + 1]))
          raw start ffskip) (\<lambda>weights.
        extend weights (part_of (\<lambda>r. skip r (skip_order ch)) raw (ffskip + 2 * ch) (ffskip + 4 * ch)) (\<lambda>weights.
        Inr (weights, body))))))))"

definition downsample :: "u8 list \<Rightarrow> nat \<Rightarrow> fault + u32 list" where
  "downsample raw ch =
     (if ch = 32 then part_of (\<lambda>r. matrix r [3, 6, 7, 8, 9, 10] [0, 1, 4, 5, 2]) raw 0x50b0 0x58b0
      else
        rbind (if ch = 64 then Inr 0xf130 else if ch = 128 then Inr 0x30230
               else if ch = 256 then Inr 0xa8440 else Inl Panic) (\<lambda>offset.
        let d = ilog2 ch in
        part_of (\<lambda>r. matrix r (axes [3, 6, 7, 8, 9] [10..<d + 6]) (axes [1, 0, 4, 5, 2] [d + 6..<2 * d + 1]))
          raw offset (offset + 2 * ch * ch)))"

definition c32 :: "u8 list \<Rightarrow> fault + u32 list \<times> u32 list" where
  "c32 raw =
     extend (replicate 512 0) (part_of (\<lambda>r. matrix r [3, 6, 7, 8, 9, 10, 11] [0, 1, 4, 5, 2]) raw 0 4096) (\<lambda>ffn.
     extend ffn (part_of (\<lambda>r. matrix r [6, 3, 7, 8, 9] [1, 0, 4, 5, 2, 10, 11]) raw 4096 8192) (\<lambda>ffn.
     extend ffn (part_of (\<lambda>r. skip r C32) raw 0x2010 0x2050) (\<lambda>ffn.
     extend [] (extend_all (\<lambda>base. part_of (\<lambda>r. matrix r [6, 3, 7, 8, 9] [0, 1, 4, 5, 2]) raw base (base + 1024))
       [0x2060, 0x2460, 0x2860, 0x4c70]) (\<lambda>attention.
     extend attention (part_of bias raw 0x2c60 0x4c60) (\<lambda>attention.
     extend attention (part_of floats raw 0x4c60 0x4c64) (\<lambda>attention.
     extend attention (part_of (\<lambda>r. skip r C32) raw 0x5070 0x50b0) (\<lambda>attention.
     Inr (ffn, attention))))))))"

definition multi :: "u8 list \<Rightarrow> nat \<Rightarrow> fault + u32 list \<times> u32 list \<times> u32 list" where
  "multi raw ch =
     (let d = ilog2 ch; hidden = 4 * ch; b2 = hidden * ch; b3 = b2 + 128 * ch in
     extend [] (part_of (\<lambda>r. sparse r hidden ch (axes [3, 6, 7, 8, 9, 10, 11] [d + 7..<2 * d + 2])
       (axes [1, 0, 4, 5, 2] [12..<d + 7])) raw 0 b2) (\<lambda>ffn.
     extend ffn (part_of (\<lambda>r. sparse r ch hidden (axes [3, 6, 7, 8, 9] [12..<d + 7])
       (axes [1, 0, 4, 5, 2, 10, 11] [12..<d + 7])) raw b2 b3) (\<lambda>ffn.
     extend ffn (part_of (\<lambda>r. sparse r ch ch (axes [3, 6, 7, 8, 9] [10..<d + 5])
       (axes [1, 0, 4, 5, 2] [d + 5..<2 * d])) raw b3 (b3 + ch * ch)) (\<lambda>ffn.
     rbind (if ch = 64 then Inr (0x7010, 0xe0a0, 0xe0b0, 0xa0a0, 0xf0b0, 0x70a0)
            else if ch = 128 then Inr (0x18010, 0x2c120, 0x2c130, 0x24120, 0x30130, 0x18120)
            else if ch = 256 then Inr (0x58010, 0x98220, 0x98240, 0x88220, 0xa8240, 0x58220)
            else Inl Panic) (\<lambda>(fs, scale, p, bias_start, at, base).
     extend ffn (part_of (\<lambda>r. skip r (skip_order ch)) raw fs (fs + 2 * ch)) (\<lambda>ffn.
     let rb = axes [3, 6, 7, 8, 9] [10..<d + 5]; cb = axes [1, 0, 4, 5, 2] [d + 5..<2 * d] in
     extend [] (extend_all (\<lambda>part. rbind (part_of (\<lambda>r. interleaved r part) raw base (base + 3 * ch * ch))
       (\<lambda>v. matrix v rb cb)) [0..<3]) (\<lambda>attention.
     extend attention (part_of (\<lambda>r. matrix r rb cb) raw p (p + ch * ch)) (\<lambda>attention.
     extend attention (part_of bias raw bias_start scale) (\<lambda>attention.
     extend attention (part_of floats raw scale (scale + (ch div 32) * 4)) (\<lambda>components.
     extend components (part_of (\<lambda>r. skip r (skip_order ch)) raw at (at + 2 * ch)) (\<lambda>attention.
     Inr (ffn, components, attention))))))))))))"

definition split_matrix :: "u8 list \<Rightarrow> fault + u32 list" where
  "split_matrix raw = matrix raw [3, 6, 7, 8, 9, 10, 11, 12, 13] [1, 0, 4, 5, 2, 14, 15, 16, 17]"

definition split :: "u8 list \<Rightarrow> u8 list \<Rightarrow> u8 list \<Rightarrow> u8 list \<Rightarrow> fault + u32 list \<times> u32 list \<times> u32 list" where
  "split raw0 raw1 raw2 raw3 =
     extend [] (part_of split_matrix raw0 0 262144) (\<lambda>fw.
     extend fw (extend_all (\<lambda>(start, rb, cb). extend_all (\<lambda>g.
         part_of (\<lambda>r. matrix r rb cb) raw0 (start + g * 16384) (start + (g + 1) * 16384)) [0..<8])
       [(0x40000, [3, 6, 7, 8, 9, 10, 11, 12], [1, 0, 4, 5, 2, 13]),
        (0x60000, [3, 6, 7, 8, 9, 10], [1, 0, 4, 5, 2, 11, 12, 13])]) (\<lambda>fw.
     extend [] (part_of split_matrix raw1 0 262144) (\<lambda>projection.
     extend projection (rbind (from_on raw1 262144) (\<lambda>r. skip r (skip_order 512))) (\<lambda>projection.
     extend [] (extend_all (\<lambda>part. rbind (part_of (\<lambda>r. interleaved r part) raw2 0 0xc0000) split_matrix)
       [0..<3]) (\<lambda>attention.
     extend attention (part_of split_matrix raw3 0 262144) (\<lambda>attention.
     extend attention (part_of bias raw2 0xc0000 0xe0000) (\<lambda>attention.
     extend attention (rbind (from_on raw2 0xe0000) floats) (\<lambda>attention.
     extend attention (rbind (from_on raw3 262144) (\<lambda>r. skip r (skip_order 512))) (\<lambda>attention.
     Inr (fw, projection, attention))))))))))"

definition vit_matrix :: "u8 list \<Rightarrow> nat \<Rightarrow> nat \<Rightarrow> fault + u32 list" where
  "vit_matrix raw inputs outputs =
     (let ib = ilog2 inputs; ob = ilog2 outputs
      in matrix raw (axes [6, 3, 9, 7, 8] [10..<ob + 5]) (axes [0, 1, 2, 4, 5] [ob + 5..<ib + ob]))"

definition vit_residual :: "u8 list \<Rightarrow> nat \<Rightarrow> fault + u32 list" where
  "vit_residual raw inputs =
     rbind (part_of (\<lambda>r. vit_matrix r inputs 1024) raw 0 (inputs * 1024)) (\<lambda>values.
     rbind (rbind (from_on raw (inputs * 1024)) halves) (\<lambda>scales.
     extend values (all_ok (\<lambda>i. at scales (scatter_bits i [0, 3, 4, 1, 2, 5, 6, 7, 8, 9])) [0..<1024])
     Inr))"

section \<open>Their lengths\<close>

definition layout_ok :: "nat list \<Rightarrow> nat list \<Rightarrow> bool" where
  "layout_ok rb cb \<longleftrightarrow> sort (rb @ cb) = [0..<length (rb @ cb)]"

lemma layout_okD:
  assumes "layout_ok rb cb"
  shows "layout (length rb + length cb) rb cb"
proof -
  have s: "sort (rb @ cb) = [0..<length rb + length cb]"
    using assms by (simp only: layout_ok_def length_append)
  have "set (rb @ cb) = set (sort (rb @ cb))" "distinct (rb @ cb) = distinct (sort (rb @ cb))"
    by simp_all
  then show ?thesis
    unfolding layout_def s by (simp only: set_upt distinct_upt atLeast0LessThan simp_thms)
qed

text \<open>One introduction rule per building block: the decoders follow by applying them in order.\<close>

lemma run_bind: "runs m (\<lambda>v. runs (f v) Q) \<Longrightarrow> runs (rbind m f) Q"
  by simp

lemma run_extend: "runs m (\<lambda>w. runs (f (v @ w)) Q) \<Longrightarrow> runs (extend v m f) Q"
  by simp

lemma run_range:
  "a \<le> b \<Longrightarrow> b \<le> length raw \<Longrightarrow> (\<And>r. length r = b - a \<Longrightarrow> Q r) \<Longrightarrow> runs (range raw a b) Q"
  by simp

lemma run_from:
  "a \<le> length raw \<Longrightarrow> (\<And>r. length r = length raw - a \<Longrightarrow> Q r) \<Longrightarrow> runs (from_on raw a) Q"
  by simp

lemma run_gives: "gives m n \<Longrightarrow> (\<And>v. length v = n \<Longrightarrow> Q v) \<Longrightarrow> runs m Q"
  by (auto intro: runs_mono)

lemma run_matrix:
  assumes "layout_ok rb cb" "length raw = 2 ^ (length rb + length cb)"
    and "\<And>v. length v = 2 ^ (length rb + length cb) \<Longrightarrow> Q v"
  shows "runs (matrix raw rb cb) Q"
  using gives_matrix [OF layout_okD [OF assms(1)] assms(2)] assms(3) by (rule run_gives)

lemma run_sparse:
  assumes "rows = 2 ^ length rb" "cols = 2 ^ length cb" "\<And>v. length v = rows * cols \<Longrightarrow> Q v"
  shows "runs (sparse raw rows cols rb cb) Q"
  using gives_sparse [OF assms(1,2)] assms(3) by (rule run_gives)

lemma run_halves:
  "length raw mod 2 = 0 \<Longrightarrow> (\<And>v. length v = length raw div 2 \<Longrightarrow> Q v) \<Longrightarrow> runs (halves raw) Q"
  using halves_ok [of raw] by auto

lemma run_floats:
  "length raw mod 4 = 0 \<Longrightarrow> (\<And>v. length v = length raw div 4 \<Longrightarrow> Q v) \<Longrightarrow> runs (floats raw) Q"
  using floats_ok [of raw] by auto

lemma run_C32: "length raw = 64 \<Longrightarrow> (\<And>v. length v = 32 \<Longrightarrow> Q v) \<Longrightarrow> runs (skip raw C32) Q"
  using gives_skip_C32 by (rule run_gives)

lemma run_skip:
  "16 dvd ch \<Longrightarrow> length raw = 2 * ch \<Longrightarrow> (\<And>v. length v = ch \<Longrightarrow> Q v) \<Longrightarrow> runs (skip raw (skip_order ch)) Q"
  using gives_skip_order by (rule run_gives)

lemma run_bias:
  assumes "length raw mod 8192 = 0" "\<And>v. length v = length raw div 2 \<Longrightarrow> Q v"
  shows "runs (bias raw) Q"
proof -
  obtain n where n: "length raw = n * 8192"
    using assms(1) by (metis dvd_div_mult_self mod_eq_0_iff_dvd)
  show ?thesis
    using gives_bias [OF n] by (rule run_gives) (simp add: assms(2) n)
qed

lemma run_interleaved:
  assumes "length raw mod 3072 = 0" "part < 3" "\<And>v. length v = length raw div 3072 * 1024 \<Longrightarrow> Q v"
  shows "runs (interleaved raw part) Q"
proof -
  obtain n where n: "length raw = n * 3072"
    using assms(1) by (metis dvd_div_mult_self mod_eq_0_iff_dvd)
  show ?thesis
    using gives_interleaved [OF n assms(2)] by (rule run_gives) (simp add: assms(3) n)
qed

lemma run_part: "b \<le> length raw \<Longrightarrow> a \<le> b \<Longrightarrow> (\<And>r. length r = b - a \<Longrightarrow> runs (f r) Q) \<Longrightarrow> runs (part_of f raw a b) Q"
  by (rule runs_part)

lemma run_each:
  assumes "\<And>x. x \<in> set xs \<Longrightarrow> gives (f x) n" "\<And>v. length v = length xs * n \<Longrightarrow> Q v"
  shows "runs (extend_all f xs) Q"
  using gives_extend_all [OF assms(1)] assms(2) by (rule run_gives)

lemma run_writes:
  assumes "\<forall>x \<in> set xs. g x < length vs" "\<And>w. length w = length vs \<Longrightarrow> Q w"
  shows "runs (rfold (\<lambda>x. put (g x) (h x)) xs vs) Q"
  using gives_fold_put [of xs g vs h] assms by (blast intro: run_gives)

lemma run_done: "Q v \<Longrightarrow> runs (Inr v) Q"
  by simp

lemmas run_intros = run_bind run_extend run_range run_from run_matrix run_sparse run_C32 run_skip
  run_bias run_interleaved run_part run_done run_halves run_floats

lemma ilog2_values: "ilog2 32 = 5" "ilog2 64 = 6" "ilog2 128 = 7" "ilog2 256 = 8" "ilog2 512 = 9"
  "ilog2 1024 = 10" "ilog2 4096 = 12"
  by code_simp+

lemma pre_index: "(s :: nat) < 512 \<Longrightarrow> ((s div 64) * 4 + (s div 32 mod 2) + 2 * (s div 4 mod 2)) * 16 +
    ((s div 8 mod 4) * 4 + s mod 4) < 512"
proof -
  have "(a * 4 + b + 2 * c) * 16 + (d * 4 + e) < 512" if "a < 8" "b < 2" "c < 2" "d < 4" "e < 4" for a b c d e :: nat
    using that by simp
  from this [of "s div 64" "s div 32 mod 2" "s div 4 mod 2" "s div 8 mod 4" "s mod 4"]
  show "s < 512 \<Longrightarrow> ?thesis"
    by (simp add: less_mult_imp_div_less)
qed

lemma run_pre:
  assumes "length raw = 21696"
  shows "runs (pre raw) (\<lambda>(mix, body). length mix = 512 \<and> length body = 20672)"
proof -
  have w: "rfold (\<lambda>(s, v) mix.
         let ch = (s div 64) * 4 + (s div 32 mod 2) + 2 * (s div 4 mod 2);
             feature = (s div 8 mod 4) * 4 + s mod 4
         in put (ch * 16 + feature) v mix) xs vs =
      rfold (\<lambda>x. put (((fst x div 64) * 4 + (fst x div 32 mod 2) + 2 * (fst x div 4 mod 2)) * 16 +
         ((fst x div 8 mod 4) * 4 + fst x mod 4)) (snd x)) xs vs" for xs vs
    by (simp add: Let_def case_prod_unfold)
  show ?thesis
    unfolding pre_def w
    by (intro run_bind run_part run_halves run_writes run_range run_from run_done)
      (use pre_index in \<open>auto simp: assms in_set_enumerate_eq\<close>)
qed

lemma run_post:
  assumes "length raw = 21808"
  shows "runs (post raw) (\<lambda>(body, scales, head). length body = 20672 \<and> length scales = 64 \<and> length head = 96)"
proof -
  have b: "gather_bits i [2, 5, 6, 7] * 32 + gather_bits i [0, 1, 3, 4, 8] < 512" for i
    using gather_less [of i "[2, 5, 6, 7]"] gather_less [of i "[0, 1, 3, 4, 8]"] by simp
  show ?thesis
    unfolding post_def Let_def case_prod_unfold
    by (intro run_bind run_part run_C32 run_halves run_writes run_range run_from run_done)
      (use b in \<open>auto simp: assms\<close>)
qed

lemma run_c32:
  assumes "20672 \<le> length raw"
  shows "runs (c32 raw) (\<lambda>(ffn, attention). length ffn = 8736 \<and> length attention = 8225)"
proof -
  have l: "layout_ok [3, 6, 7, 8, 9, 10, 11] [0, 1, 4, 5, 2]" "layout_ok [6, 3, 7, 8, 9] [1, 0, 4, 5, 2, 10, 11]"
    "layout_ok [6, 3, 7, 8, 9] [0, 1, 4, 5, 2]"
    by code_simp+
  have four: "gives (part_of (\<lambda>r. matrix r [6, 3, 7, 8, 9] [0, 1, 4, 5, 2]) raw base (base + 1024)) 1024"
    if "base \<in> set [0x2060, 0x2460, 0x2860, 0x4c70]" for base
    by (intro run_part run_matrix l) (use that assms in auto)
  show ?thesis
    unfolding c32_def
    by (intro run_extend run_part run_matrix run_C32 run_bias run_floats run_done
        run_each [where n = 1024] four l) (use assms in auto)
qed

text \<open>The layouts of the wide blocks, for their three widths.\<close>

definition wide :: "nat \<Rightarrow> bool" where
  "wide ch \<longleftrightarrow> (let d = ilog2 ch in
     layout_ok (axes [3, 6, 7, 8, 9] [10..<d + 5]) (axes [1, 0, 4, 5, 2] [d + 5..<2 * d]) \<and>
     layout_ok (axes [3] [6..<d + 5]) (axes [1, 0, 4, 5, 2] [d + 5..<2 * d + 1]) \<and>
     layout_ok (axes [3, 6, 7, 8, 9] [10..<d + 6]) (axes [1, 0, 4, 5, 2] [d + 6..<2 * d + 1]))"

lemma wide_channels: "wide 64" "wide 128" "wide 256"
  by code_simp+

lemma widths_differ: "(128 :: nat) = 64 \<longleftrightarrow> False" "(256 :: nat) = 64 \<longleftrightarrow> False" "(256 :: nat) = 128 \<longleftrightarrow> False"
  "(64 :: nat) = 32 \<longleftrightarrow> False" "(128 :: nat) = 32 \<longleftrightarrow> False" "(256 :: nat) = 32 \<longleftrightarrow> False"
  by simp_all

lemma run_multi:
  assumes "ch = 64 \<and> 61760 \<le> length raw \<or> ch = 128 \<and> 197184 \<le> length raw \<or> ch = 256 \<and> 689232 \<le> length raw"
  shows "runs (multi raw ch) (\<lambda>(ffn, components, attention). length ffn = 9 * ch * ch + ch \<and>
    length components = 4 * ch * ch + ch div 32 * 4096 + ch div 32 \<and>
    length attention = 4 * ch * ch + ch div 32 * 4096 + ch div 32 + ch)"
proof -
  have "layout_ok (axes [3, 6, 7, 8, 9] [10..<ilog2 c + 5]) (axes [1, 0, 4, 5, 2] [ilog2 c + 5..<2 * ilog2 c])"
    if "wide c" for c
    using that by (simp add: wide_def Let_def)
  note l = wide_channels [THEN this, simplified ilog2_values axes_def, simplified]
  show ?thesis
    using assms
    by (elim disjE conjE; simp only: multi_def Let_def ilog2_values case_prod_conv simp_thms if_True if_False rbind_simps widths_differ;
        intro run_extend run_part run_sparse run_skip run_bias run_floats run_interleaved run_matrix run_bind run_done
          run_each [where n = "ch * ch"]; simp add: axes_def l)
qed

lemma run_downsample:
  assumes "ch = 32 \<and> 0x58b0 \<le> length raw \<or> ch = 64 \<and> 0xf130 + 8192 \<le> length raw \<or>
    ch = 128 \<and> 0x30230 + 32768 \<le> length raw \<or> ch = 256 \<and> 0xa8440 + 131072 \<le> length raw"
  shows "gives (downsample raw ch) (2 * ch * ch)"
proof -
  have "layout_ok (axes [3, 6, 7, 8, 9] [10..<ilog2 c + 6]) (axes [1, 0, 4, 5, 2] [ilog2 c + 6..<2 * ilog2 c + 1])"
    if "wide c" for c
    using that by (simp add: wide_def Let_def)
  note l = wide_channels [THEN this, simplified ilog2_values axes_def, simplified]
  have l32: "layout_ok [3, 6, 7, 8, 9, 10] [0, Suc 0, 4, 5, 2]"
    by code_simp
  show ?thesis
    using assms
    by (elim disjE conjE; simp only: downsample_def Let_def ilog2_values case_prod_conv simp_thms if_True if_False
          rbind_simps widths_differ; intro run_part run_matrix run_done; simp add: axes_def l l32)
qed

lemma run_vit_matrix:
  assumes "length raw = inputs * outputs" "inputs = 1024 \<and> outputs = 4096 \<or> inputs = 4096 \<and> outputs = 1024 \<or>
    inputs = 1024 \<and> outputs = 1024"
  shows "gives (vit_matrix raw inputs outputs) (inputs * outputs)"
proof -
  have l: "layout_ok (axes [6, 3, 9, 7, 8] [10..<12 + 5]) (axes [0, 1, 2, 4, 5] [12 + 5..<10 + 12])"
    "layout_ok (axes [6, 3, 9, 7, 8] [10..<10 + 5]) (axes [0, 1, 2, 4, 5] [10 + 5..<12 + 10])"
    "layout_ok (axes [6, 3, 9, 7, 8] [10..<10 + 5]) (axes [0, 1, 2, 4, 5] [10 + 5..<10 + 10])"
    by code_simp+
  show ?thesis
    using assms(2) by (elim disjE conjE; simp only: vit_matrix_def Let_def ilog2_values;
        intro run_matrix l; simp add: axes_def assms(1))
qed

lemma run_groups:
  assumes "layout_ok rb cb" "length rb + length cb = 14" "start + 131072 \<le> length raw"
  shows "gives (extend_all (\<lambda>g. part_of (\<lambda>r. matrix r rb cb) raw (start + g * 16384) (start + (g + 1) * 16384)) [0..<8])
    131072"
  by (intro run_each [where n = 16384] run_part run_matrix assms(1)) (use assms(2,3) in auto)

lemma run_split_matrix:
  "length raw = 262144 \<Longrightarrow> (\<And>v. length v = 262144 \<Longrightarrow> Q v) \<Longrightarrow> runs (split_matrix raw) Q"
proof -
  have "layout_ok [3, 6, 7, 8, 9, 10, 11, 12, 13] [1, 0, 4, 5, 2, 14, 15, 16, 17]"
    by code_simp
  then show "length raw = 262144 \<Longrightarrow> (\<And>v. length v = 262144 \<Longrightarrow> Q v) \<Longrightarrow> runs (split_matrix raw) Q"
    unfolding split_matrix_def by (intro run_matrix) simp_all
qed

lemma run_split:
  assumes "length raw0 = 524288" "length raw1 = 263168" "length raw2 = 917568" "length raw3 = 263168"
  shows "runs (split raw0 raw1 raw2 raw3) (\<lambda>(fw, projection, attention).
    length fw = 524288 \<and> length projection = 262656 \<and> length attention = 1114640)"
proof -
  have l: "layout_ok [3, 6, 7, 8, 9, 10, 11, 12] [1, 0, 4, 5, 2, 13]" "layout_ok [3, 6, 7, 8, 9, 10] [1, 0, 4, 5, 2, 11, 12, 13]"
    by code_simp+
  have "gives (case x of (start, rb, cb) \<Rightarrow> extend_all (\<lambda>g.
         part_of (\<lambda>r. matrix r rb cb) raw0 (start + g * 16384) (start + (g + 1) * 16384)) [0..<8]) 131072"
    if "x \<in> set [(0x40000, [3, 6, 7, 8, 9, 10, 11, 12], [1, 0, 4, 5, 2, 13]),
        (0x60000, [3, 6, 7, 8, 9, 10], [1, 0, 4, 5, 2, 11, 12, 13])]" for x :: "nat \<times> nat list \<times> nat list"
    using that run_groups [OF l(1), of "0x40000" raw0] run_groups [OF l(2), of "0x60000" raw0] assms(1) by auto
  note groups = run_each [OF this]
  show ?thesis
    unfolding split_def
    by (intro run_extend groups run_each [where n = 262144] run_bind run_part run_split_matrix run_skip run_bias
        run_interleaved run_floats run_from run_done; simp add: assms)
qed

lemma run_vit_residual:
  assumes "inputs = 4096 \<and> length raw = 4194304 + 2048 \<or> inputs = 1024 \<and> length raw = 1048576 + 2048"
  shows "gives (vit_residual raw inputs) (inputs * 1024 + 1024)"
proof -
  have s: "scatter_bits i [0, 3, 4, 1, 2, 5, 6, 7, 8, 9] < 1024" for i
    using scatter_less [of "[0, 3, 4, 1, 2, 5, 6, 7, 8, 9]" 10 i] by simp
  have "gives (all_ok (\<lambda>i. at scales (scatter_bits i [0, 3, 4, 1, 2, 5, 6, 7, 8, 9])) [0..<1024]) 1024"
    if "length scales = 1024" for scales :: "u32 list"
    by (rule runs_mono [OF runs_all_ok [where P = "\<lambda>_ _. True"]]) (use s in \<open>auto simp: that dest: list_all2_lengthD\<close>)
  note pick = run_gives [OF this]
  have m: "gives (vit_matrix r inputs 1024) (inputs * 1024)" if "length r = inputs * 1024" for r
    using run_vit_matrix [OF that] assms by auto
  show ?thesis
    unfolding vit_residual_def
    by (intro run_bind run_part run_gives [OF m] run_from run_halves run_extend pick run_done) (use assms in auto)
qed

lemma run_copy:
  assumes "a + length new = b" "b \<le> length xs" "\<And>ys. length ys = length xs \<Longrightarrow> Q ys"
  shows "runs (copy_range a b new xs) Q"
  using assms by (simp add: copy_range_def copy_at_def)

lemma run_fold:
  assumes "\<And>x v. x \<in> set xs \<Longrightarrow> I v \<Longrightarrow> runs (f x v) I" "I v" "\<And>w. I w \<Longrightarrow> Q w"
  shows "runs (rfold f xs v) Q"
proof -
  have "runs (rfold f xs v) I"
    using assms(1,2)
  proof (induction xs arbitrary: v)
    case (Cons x xs)
    then have "runs (f x v) I" by simp
    with Cons show ?case by (auto intro: runs_mono)
  qed simp
  then show ?thesis
    using assms(3) by (rule runs_mono)
qed

lemma run_upsample_32:
  assumes "length raw = 22784"
  shows "runs (upsample raw 32) (\<lambda>(weights, body). length weights = 2080 \<and> length body = 20672)"
proof -
  have l: "layout_ok [3, 6, 7, 8, 9] [1, 0, 4, 5, 2, 10]"
    by code_simp
  have c: "C32 ! i < 32" if "i < 32" for i
  proof -
    have "\<forall>k \<in> set C32. k < 32" "length C32 = 32" by (simp_all add: C32_def)
    then show ?thesis using that by simp
  qed
  have row: "runs ((\<lambda>(i, source) out. rbind (at C32 i) (\<lambda>t.
      rbind (range mat (source * 64) ((source + 1) * 64)) (\<lambda>row. copy_range (t * 64) ((t + 1) * 64) row out))) x out)
      (\<lambda>out. length out = 2048)"
    if "x \<in> set (enumerate 0 (skip_order 32))" "length out = 2048" "length mat = 2048"
    for x and mat out :: "u32 list"
  proof -
    obtain i source where x: "x = (i, source)"
      by (cases x)
    have "i < 32" "source = skip_order 32 ! i"
      using that(1) by (simp_all add: x in_set_enumerate_eq)
    moreover from this have "source < 32"
      using skip_order_less [of 32 source] by simp
    ultimately show ?thesis
      using x c [of i] that(2,3) by (auto simp: C32_def [THEN arg_cong [of _ _ length]] intro!: run_copy)
  qed
  show ?thesis
    unfolding upsample_def Let_def
    by (simp only: simp_thms if_True; intro run_bind run_range run_from run_part run_matrix l
        run_fold [where I = "\<lambda>out. length out = 2048"] row run_extend run_C32 run_done)
      (use assms in auto)
qed

lemma run_upsample:
  assumes "ch = 64 \<and> n = 61760 \<and> length raw = 70048 \<or> ch = 128 \<and> n = 197184 \<and> length raw = 230176 \<or>
    ch = 256 \<and> n = 689232 \<and> length raw = 820784"
  shows "runs (upsample raw ch) (\<lambda>(weights, body). length weights = 2 * ch * ch + ch \<and> length body = n)"
proof -
  have "layout_ok (axes [3] [6..<ilog2 c + 5]) (axes [1, 0, 4, 5, 2] [ilog2 c + 5..<2 * ilog2 c + 1])"
    if "wide c" for c
    using that by (simp add: wide_def Let_def)
  note l = wide_channels [THEN this, simplified ilog2_values axes_def, simplified]
  show ?thesis
    using assms
    by (elim disjE conjE; simp only: upsample_def Let_def ilog2_values case_prod_conv simp_thms if_True if_False
          rbind_simps widths_differ;
        intro run_bind run_part run_range run_from run_copy run_matrix run_extend run_skip run_done;
        simp add: axes_def l)
qed

end
