(* ===== verification/NeuralArchive.thy ===== *)
theory NeuralArchive
  imports NeuralBlocks OrderedMap Effects
begin

text \<open>
  \<^verbatim>\<open>native/neural_decode.rs\<close>, the archive of coefficient records and the conversion of all of them,
  and the table contract of \<^verbatim>\<open>native/neural_assets.rs\<close> the conversion must meet.
\<close>

section \<open>The pinned records\<close>

definition record_name :: "nat \<Rightarrow> nat \<Rightarrow> string" where
  "record_name b layer = ''block'' @ show_nat b @ ''.layer'' @ show_nat layer @ ''.layer''"

definition single_size :: "nat \<Rightarrow> nat" where
  "single_size b =
     (if b = 0 then 21696 else if b = 4 then 22720 else if b = 8 then 69936 else if b = 14 then 229936
      else if b = 22 then 820288 else if b = 39 then 525312 else if b = 48 then 820784
      else if b = 56 then 230176 else if b = 62 then 70048 else if b = 66 then 22784
      else if b = 70 then 21808
      else if \<not> (5 \<le> b \<and> b < 66) then 20672 else if \<not> (9 \<le> b \<and> b < 62) then 61760
      else if \<not> (15 \<le> b \<and> b < 56) then 197184 else 689232)"

definition layers :: "nat \<Rightarrow> nat list" where
  "layers b =
     (if 23 \<le> b \<and> b < 31 \<or> 40 \<le> b \<and> b < 48 then
        [524288, 263168, 917568, 263168] @ (if b = 30 then [524304] else [])
      else if 31 \<le> b \<and> b < 39 then [4194320, 4196352, 3145856, 2, 1050624]
      else [single_size b])"

definition record_list :: "(string \<times> nat) list" where
  "record_list = concat (map (\<lambda>b. map (\<lambda>(layer, len). (record_name b layer, len)) (enumerate 0 (layers b)))
     [0..<71]) @ [(''block70.layer0.blend_scale'', 2)]"

definition record_sizes :: "(string, nat) btree" where
  "record_sizes = bt_of_list record_list"

section \<open>Reading the archive\<close>

definition slice :: "'a list \<Rightarrow> nat \<Rightarrow> nat \<Rightarrow> error + 'a list" where
  "slice data offset n =
     (if offset + n \<le> usize_max \<and> offset + n \<le> length data then Inr (take n (drop offset data))
      else Inl (Invalid INVALID))"

definition u64_at :: "u8 list \<Rightarrow> nat \<Rightarrow> error + nat" where
  "u64_at data offset = rbind (slice data offset 8) (\<lambda>bytes. Inr (unat (from_le64 bytes)))"

definition trailer :: "nat \<Rightarrow> u8 list" where
  "trailer len = concat (map le32 [0, 0, 1, 0, word_of_nat len div 2])"

definition read_record ::
  "(string, nat) btree \<Rightarrow> u8 list \<Rightarrow> nat \<Rightarrow> (string, u8 list) btree \<Rightarrow> error + nat \<times> (string, u8 list) btree" where
  "read_record sizes data cursor result =
     rbind (u64_at data cursor) (\<lambda>name_len.
     rbind (require (1 \<le> name_len \<and> name_len \<le> 4096) INVALID) (\<lambda>_.
     rbind (slice data (cursor + 8) name_len) (\<lambda>raw_name.
     rbind (require (list_all (\<lambda>c. c < 128) raw_name) INVALID) (\<lambda>_.
     rbind (ok_or (from_utf8 raw_name) (Invalid INVALID)) (\<lambda>name.
     rbind (u64_at data (cursor + 8 + name_len)) (\<lambda>span.
     let body_start = cursor + 16 + name_len in
     rbind (slice data body_start span) (\<lambda>body.
     rbind (ok_or (bt_get sizes name) (Invalid INVALID)) (\<lambda>len.
     rbind (if span = len + 40 then
              rbind (u64_at body 0) (\<lambda>a. if a \<noteq> span then Inr False else
              rbind (u64_at body 8) (\<lambda>b. if b \<noteq> len then Inr False else
              rbind (slice body 16 4) (\<lambda>one. Inr (one = le32 1))))
            else Inr False) (\<lambda>header.
     rbind (require header INVALID) (\<lambda>_.
     rbind (slice body (20 + len) 20) (\<lambda>tail.
     rbind (require (tail = trailer len) INVALID) (\<lambda>_.
     rbind (slice body 20 len) (\<lambda>payload.
     rbind (require (\<not> bt_has result name) INVALID) (\<lambda>_.
     Inr (body_start + span, bt_put name payload result)))))))))))))))"

lemma read_record_grows: "read_record sizes data cursor result = Inr (c, r) \<Longrightarrow> cursor < c"
  by (auto simp: read_record_def result_simps Let_def)

lemma u64_at_in: "u64_at data offset = Inr n \<Longrightarrow> offset < length data"
  by (auto simp: u64_at_def slice_def result_simps split: if_splits)

function read_records ::
  "(string, nat) btree \<Rightarrow> u8 list \<Rightarrow> nat \<Rightarrow> (string, u8 list) btree \<Rightarrow> error + (string, u8 list) btree" where
  "read_records sizes data cursor result =
     (if cursor < length data then
        rbind (read_record sizes data cursor result) (\<lambda>(c, r). read_records sizes data c r)
      else Inr result)"
  by pat_completeness auto
termination
  by (relation "measure (\<lambda>(_, data, cursor, _). length data - cursor)")
    (auto dest: read_record_grows)

declare read_records.simps [simp del]

definition records :: "u8 list \<Rightarrow> error + (string, u8 list) btree" where
  "records data =
     rbind (u64_at data 0) (\<lambda>n.
     rbind (require (n = length data) INVALID) (\<lambda>_.
     rbind (read_records record_sizes data 8 []) (\<lambda>result.
     rbind (require (length result = length record_sizes) INVALID) (\<lambda>_. Inr result))))"

section \<open>Converting it\<close>

type_synonym 's emit = "string \<Rightarrow> u32 list \<Rightarrow> ('s, fault, unit) eff"

definition block_name :: "nat \<Rightarrow> string \<Rightarrow> string" where
  "block_name b ending = ''block'' @ show_nat b @ ending"

definition payload :: "(string, u8 list) btree \<Rightarrow> nat \<Rightarrow> nat \<Rightarrow> fault + u8 list" where
  "payload m b layer = ok_or (bt_get m (record_name b layer)) Panic"

definition body_of :: "(nat, u8 list) btree \<Rightarrow> (string, u8 list) btree \<Rightarrow> nat \<Rightarrow> fault + u8 list" where
  "body_of bodies m b = (case bt_get bodies b of Some raw \<Rightarrow> Inr raw | None \<Rightarrow> payload m b 0)"

definition check :: "bool \<Rightarrow> fault + unit" where
  "check c = map_err Fail (require c INVALID)"

definition width :: "nat \<Rightarrow> nat" where
  "width b = (if \<not> (9 \<le> b \<and> b < 62) then 64 else if \<not> (15 \<le> b \<and> b < 56) then 128 else 256)"

definition emit_upsample :: "'s emit \<Rightarrow> (string, u8 list) btree \<Rightarrow> nat \<times> nat \<Rightarrow> (nat, u8 list) btree \<Rightarrow>
    ('s, fault, (nat, u8 list) btree) eff" where
  "emit_upsample emit m x bodies = (case x of (b, ch) \<Rightarrow>
     ebind (elift (rbind (payload m b 0) (\<lambda>raw. upsample raw ch))) (\<lambda>(weights, body).
     eseq (emit (block_name b ''-weights.f32'') weights)
     (eret (bt_put b body bodies))))"

definition emit_multi :: "'s emit \<Rightarrow> (string, u8 list) btree \<Rightarrow> (nat, u8 list) btree \<Rightarrow> nat \<Rightarrow> unit \<Rightarrow>
    ('s, fault, unit) eff" where
  "emit_multi emit m bodies b u =
     ebind (elift (rbind (body_of bodies m b) (\<lambda>raw. multi raw (width b)))) (\<lambda>(ffn, components, attention).
     eseq (emit (block_name b ''-ffn.f32'') ffn)
     (eseq (emit (block_name b ''-attention-components.audit.f32'') components)
     (emit (block_name b ''-attention.f32'') attention)))"

definition prefix_of :: "nat \<Rightarrow> string" where
  "prefix_of b = (if b = 70 then ''post70'' else ''block'' @ show_nat b)"

definition emit_narrow :: "'s emit \<Rightarrow> (string, u8 list) btree \<Rightarrow> (nat, u8 list) btree \<Rightarrow> u32 list \<Rightarrow> nat \<Rightarrow> unit \<Rightarrow>
    ('s, fault, unit) eff" where
  "emit_narrow emit m bodies mix b u =
     ebind (elift (rbind (body_of bodies m b) c32)) (\<lambda>(ffn, attention).
     ebind (elift (if b = 0 then copy_range 0 512 mix ffn else Inr ffn)) (\<lambda>ffn.
     eseq (emit (prefix_of b @ ''-ffn.f32'') ffn)
     (emit (prefix_of b @ ''-attention.f32'') attention)))"

definition emit_downsample :: "'s emit \<Rightarrow> (string, u8 list) btree \<Rightarrow> nat \<times> nat \<Rightarrow> unit \<Rightarrow> ('s, fault, unit) eff" where
  "emit_downsample emit m x u = (case x of (b, ch) \<Rightarrow>
     ebind (elift (rbind (payload m b 0) (\<lambda>raw. downsample raw ch))) (emit (block_name b ''-ds.f32'')))"

definition emit_split :: "'s emit \<Rightarrow> (string, u8 list) btree \<Rightarrow> nat \<Rightarrow> unit \<Rightarrow> ('s, fault, unit) eff" where
  "emit_split emit m b u =
     ebind (elift (rbind (payload m b 0) (\<lambda>r0. rbind (payload m b 1) (\<lambda>r1. rbind (payload m b 2) (\<lambda>r2.
       rbind (payload m b 3) (\<lambda>r3. split r0 r1 r2 r3)))))) (\<lambda>(fw, projection, attention).
     eseq (emit (block_name b ''-ffwd.f32'') fw)
     (eseq (emit (block_name b ''-ffwd-projection.f32'') projection)
     (emit (block_name b ''-attention.f32'') attention)))"

definition qkv_table :: "u8 list \<Rightarrow> fault + u32 list" where
  "qkv_table raw =
     extend [] (extend_all (\<lambda>part. rbind (rbind (from_on raw 128) (\<lambda>r. interleaved r part))
       (\<lambda>v. vit_matrix v 1024 1024)) [0..<3]) (\<lambda>qkv.
     extend qkv (part_of floats raw 0 128) Inr)"

definition emit_vit :: "'s emit \<Rightarrow> (string, u8 list) btree \<Rightarrow> nat \<Rightarrow> unit \<Rightarrow> ('s, fault, unit) eff" where
  "emit_vit emit m b u =
     ebind (elift (payload m b 0)) (\<lambda>raw.
     eseq (elift (rbind (from_on raw 4194304) (\<lambda>r. check (list_all (\<lambda>b. b = 0) r))))
     (ebind (elift (part_of (\<lambda>r. vit_matrix r 1024 4096) raw 0 4194304)) (\<lambda>expand.
     eseq (emit (block_name b ''-expand.f32'') expand)
     (ebind (elift (rbind (payload m b 1) (\<lambda>r. vit_residual r 4096))) (\<lambda>contract.
     eseq (emit (block_name b ''-contract.f32'') contract)
     (ebind (elift (rbind (payload m b 2) qkv_table)) (\<lambda>qkv.
     eseq (emit (block_name b ''-qkv.f32'') qkv)
     (ebind (elift (rbind (payload m b 4) (\<lambda>r. vit_residual r 1024)))
       (emit (block_name b ''-projection.f32''))))))))))"

definition head_matrix :: "u8 list \<Rightarrow> fault + u32 list" where
  "head_matrix raw = part_of (\<lambda>r. matrix r [3, 6, 7, 8, 9, 10, 11, 12, 13, 14] [1, 0, 4, 5, 2, 15, 16, 17, 18])
     raw 0 524288"

definition decoder_weights :: "u8 list \<Rightarrow> fault + u32 list" where
  "decoder_weights raw =
     extend [] (part_of (\<lambda>r. matrix r [3, 6, 7, 8, 9, 10, 11, 12, 13] [1, 0, 4, 5, 2, 14, 15, 16, 17, 18])
       raw 0 524288) (\<lambda>weights.
     extend weights (rbind (from_on raw 524288) (\<lambda>r. skip r (skip_order 512))) Inr)"

definition decode :: "'s emit \<Rightarrow> (string, u8 list) btree \<Rightarrow> ('s, fault, unit) eff" where
  "decode emit m =
     ebind (elift (rbind (payload m 0 0) pre)) (\<lambda>(mix, pre_body).
     eseq (emit ''block0-mix.audit.f32'' mix)
     (ebind (elift (rbind (payload m 70 0) post)) (\<lambda>(post_body, scales, head).
     eseq (emit ''post70-head.f32'' head)
     (eseq (emit ''post70-scales.f32'' scales)
     (ebind (efor (emit_upsample emit m) [(48, 256), (56, 128), (62, 64), (66, 32)]
         (bt_of_list [(0, pre_body), (70, post_body)])) (\<lambda>bodies.
     eseq (efor (emit_multi emit m bodies) ([5..<23] @ [48..<66]) ())
     (eseq (efor (emit_narrow emit m bodies mix) ([0..<5] @ [66..<71]) ())
     (eseq (efor (emit_downsample emit m) [(4, 32), (8, 64), (14, 128), (22, 256)] ())
     (eseq (efor (emit_split emit m) ([23..<31] @ [40..<48]) ())
     (eseq (ebind (elift (rbind (payload m 30 4) head_matrix)) (emit ''head-matrix.f32''))
     (eseq (efor (emit_vit emit m) [31..<39] ())
     (ebind (elift (rbind (payload m 39 0) decoder_weights)) (emit ''decoder39-weights.f32'')))))))))))))"

section \<open>The tables the engine expects\<close>

definition MAPS :: "string list" where
  "MAPS = [''hwc-to-vit.i32'', ''vit-to-hwc.i32'']"

definition table_list :: "(string \<times> nat) list" where
  "table_list =
     [(''block0-mix.audit.f32'', 512), (''post70-head.f32'', 96), (''post70-scales.f32'', 64),
      (''head-matrix.f32'', 524288), (''decoder39-weights.f32'', 524800)] @
     concat (map (\<lambda>b. let ch = width b in
       [(block_name b ''-ffn.f32'', 9 * ch * ch + ch),
        (block_name b ''-attention-components.audit.f32'', 4 * ch * ch + ch div 32 * 4096 + ch div 32),
        (block_name b ''-attention.f32'', 4 * ch * ch + ch div 32 * 4096 + ch div 32 + ch)])
       ([5..<23] @ [48..<66])) @
     map (\<lambda>(b, ch). (block_name b ''-ds.f32'', 2 * ch * ch)) [(8, 64), (14, 128), (22, 256)] @
     concat (map (\<lambda>b.
       [(block_name b ''-ffwd.f32'', 524288), (block_name b ''-ffwd-projection.f32'', 262656),
        (block_name b ''-attention.f32'', 1114640)]) ([23..<31] @ [40..<48])) @
     concat (map (\<lambda>b. map (\<lambda>(ending, n). (block_name b (''-'' @ ending @ ''.f32''), n))
       [(''expand'', 4194304), (''contract'', 4195328), (''qkv'', 3145760), (''projection'', 1049600)]) [31..<39]) @
     map (\<lambda>(b, ch). (block_name b ''-weights.f32'', 2 * ch * ch + ch)) [(48, 256), (56, 128), (62, 64), (66, 32)] @
     concat (map (\<lambda>b. [(prefix_of b @ ''-ffn.f32'', 8736), (prefix_of b @ ''-attention.f32'', 8225)])
       ([0..<5] @ [66..<71])) @
     [(''block4-ds.f32'', 2048)] @ map (\<lambda>name. (name, 655360)) MAPS"

definition table_sizes :: "(string, nat) btree" where
  "table_sizes = bt_of_list table_list"

section \<open>The bridge between the two pixel orders\<close>

definition bridge_row :: "bool \<Rightarrow> u32 \<Rightarrow> u32" where
  "bridge_row inverted t =
     (if inverted then ((t AND NOT 15) OR drop_bit 3 (t AND 8)) OR push_bit 1 (t AND 7)
      else ((t AND NOT 15) OR push_bit 3 (t AND 1)) OR drop_bit 1 (t AND 14))"

definition bridge_col :: "bool \<Rightarrow> u32 \<Rightarrow> u32" where
  "bridge_col inverted c =
     (if inverted then
        ((((c AND NOT 31) OR push_bit 1 (c AND 1)) OR drop_bit 1 (c AND 2)) OR drop_bit 2 (c AND 16)) OR push_bit 1 (c AND 12)
      else
        ((((c AND NOT 31) OR push_bit 1 (c AND 1)) OR drop_bit 1 (c AND 2)) OR push_bit 2 (c AND 4)) OR drop_bit 1 (c AND 24))"

definition bridge :: "bool \<Rightarrow> u8 list" where
  "bridge inverted = concat (map (\<lambda>t. concat (map (\<lambda>c.
     le32 (bridge_row inverted (word_of_nat t) * 1024 + bridge_col inverted (word_of_nat c))) [0..<1024])) [0..<640])"

end
