(* ===== verification/NeuralConversion.thy ===== *)
theory NeuralConversion
  imports NeuralArchive
begin

text \<open>
  What holds of the archive reader, of the conversion and of the bridge: an accepted archive has
  exactly the pinned records, and converting one never panics: it refuses exactly non-zero padding and
  otherwise emits the tables the engine expects of it.
\<close>

section \<open>Maps built from lists\<close>

lemma bt_get_of_list: "bt_get (bt_of_list kvs) k = map_of (rev kvs) k"
  by (induction kvs rule: rev_induct) (auto simp: bt_of_list_def bt_get_put [unfolded bt_get_def] bt_get_def)

lemma bt_of_list_in: "bt_get (bt_of_list kvs) k = Some v \<Longrightarrow> (k, v) \<in> set kvs"
  by (auto simp: bt_get_of_list dest: map_of_SomeD)

lemma bt_of_list_get:
  assumes "(k, v) \<in> set kvs" "\<And>w. (k, w) \<in> set kvs \<Longrightarrow> w = v"
  shows "bt_get (bt_of_list kvs) k = Some v"
proof -
  have "bt_get (bt_of_list kvs) k \<noteq> None"
    using assms(1) unfolding bt_get_of_list map_of_eq_None_iff by force
  then show ?thesis
    using assms(2) bt_of_list_in [of kvs k] by auto
qed

section \<open>Names\<close>

lemma show_nat_inject: "show_nat a = show_nat b \<longleftrightarrow> a = b"
  by (metis digits_value_show)

lemma digits_stop:
  assumes "\<not> is_digit c" "\<not> is_digit d"
  shows "show_nat a @ c # s = show_nat b @ d # t \<longleftrightarrow> a = b \<and> c = d \<and> s = t"
proof
  assume e: "show_nat a @ c # s = show_nat b @ d # t"
  have "takeWhile is_digit (show_nat n @ x # y) = show_nat n" if "\<not> is_digit x" for n x y
    using show_nat_digits [of n] that by (subst takeWhile_append2) (auto simp: list_all_iff)
  then have "show_nat a = show_nat b"
    using e assms by metis
  then show "a = b \<and> c = d \<and> s = t"
    using e by (simp add: show_nat_inject)
qed simp

lemma block_name_eq:
  "\<not> is_digit c \<Longrightarrow> \<not> is_digit d \<Longrightarrow> block_name a (c # s) = block_name b (d # t) \<longleftrightarrow> a = b \<and> c = d \<and> s = t"
  by (simp add: block_name_def digits_stop)

lemma record_name_eq: "record_name a i = record_name b j \<longleftrightarrow> a = b \<and> i = j"
  by (simp add: record_name_def digits_stop show_nat_inject is_digit_def)

lemma blend_name: "record_name b i \<noteq> ''block70.layer0.blend_scale''"
proof
  assume e: "record_name b i = ''block70.layer0.blend_scale''"
  have "hd (rev (record_name b i)) = CHR ''r''"
    by (simp add: record_name_def)
  then show False
    by (simp add: e)
qed

section \<open>An accepted archive\<close>

lemma record_list_in: "(n, len) \<in> set record_list \<longleftrightarrow>
    (\<exists>b < 71. \<exists>layer < length (layers b). n = record_name b layer \<and> len = layers b ! layer) \<or>
    n = ''block70.layer0.blend_scale'' \<and> len = 2"
proof -
  have "(n, len) \<in> (\<lambda>(layer, len). (record_name b layer, len)) ` set (enumerate 0 (layers b)) \<longleftrightarrow>
      (\<exists>layer < length (layers b). n = record_name b layer \<and> len = layers b ! layer)" for b
    by (auto simp: enumerate_eq_zip set_zip image_iff)
  then show ?thesis
    unfolding record_list_def by (simp del: enumerate_map_upt) (auto simp: Bex_def)
qed

lemma record_sizes_get:
  assumes "b < 71" "layer < length (layers b)"
  shows "bt_get record_sizes (record_name b layer) = Some (layers b ! layer)"
  unfolding record_sizes_def
  by (rule bt_of_list_get) (use assms in \<open>auto simp: record_list_in record_name_eq blend_name\<close>)

definition fits :: "(string, nat) btree \<Rightarrow> (string, u8 list) btree \<Rightarrow> bool" where
  "fits sizes m \<longleftrightarrow> bt_ok m \<and> (\<forall>k body. bt_get m k = Some body \<longrightarrow> bt_get sizes k = Some (length body))"

lemma read_record_fits: "read_record sizes data cursor m = Inr (c, m') \<Longrightarrow> fits sizes m \<Longrightarrow> fits sizes m'"
  by (auto simp: read_record_def result_simps Let_def fits_def bt_ok_put bt_get_put slice_def
      split: if_splits)

lemma read_records_fits: "read_records sizes data cursor m = Inr m' \<Longrightarrow> fits sizes m \<Longrightarrow> fits sizes m'"
proof (induction sizes data cursor m rule: read_records.induct)
  case (1 sizes data cursor m)
  then show ?case
    by (auto simp: read_records.simps [of sizes data cursor m] result_simps read_record_fits split: if_splits)
qed

lemma records_complete:
  assumes "records data = Inr m"
  shows "bt_ok m" "\<And>k. map_option length (bt_get m k) = bt_get record_sizes k"
proof -
  have f: "fits record_sizes m" and l: "length m = length record_sizes"
    using assms read_records_fits [of record_sizes data 8 "[]" m]
    by (auto simp: records_def result_simps fits_def bt_get_def)
  show ok: "bt_ok m"
    using f by (simp add: fits_def)
  have ok': "bt_ok record_sizes"
    by (simp add: record_sizes_def bt_ok_of_list)
  have sub: "set (bt_keys m) \<subseteq> set (bt_keys record_sizes)"
    using f by (auto simp: fits_def bt_has_iff [symmetric] bt_has_def)
  have "card (set (bt_keys m)) = card (set (bt_keys record_sizes))"
    using ok ok' l unfolding bt_keys_def by (simp only: distinct_card [OF bt_ok_distinct] length_map)
  with sub have same: "set (bt_keys m) = set (bt_keys record_sizes)"
    by (simp add: card_subset_eq)
  show "map_option length (bt_get m k) = bt_get record_sizes k" for k
  proof -
    have "bt_get m k = None \<longleftrightarrow> bt_get record_sizes k = None"
      using same bt_has_iff [of m k] bt_has_iff [of record_sizes k] by (auto simp: bt_has_def)
    then show ?thesis
      using f by (cases "bt_get m k") (auto simp: fits_def)
  qed
qed

lemma run_payload:
  assumes "records data = Inr m" "b < 71" "layer < length (layers b)"
    and "\<And>raw. length raw = layers b ! layer \<Longrightarrow> Q raw"
  shows "runs (payload m b layer) Q"
  using records_complete(2) [OF assms(1), of "record_name b layer"] record_sizes_get [OF assms(2,3)] assms(4)
  by (auto simp: payload_def)

section \<open>A conversion emits the expected tables\<close>

text \<open>The sink that logs every table, and the names and lengths it has logged.\<close>

definition log_table :: "(string \<times> u32 list) list emit" where
  "log_table n v = emod (\<lambda>l. l @ [(n, v)])"

definition tables_of :: "(string \<times> u32 list) list \<Rightarrow> (string \<times> nat) list" where
  "tables_of l = map (\<lambda>(n, v). (n, length v)) l"

text \<open>The only refusal: a transformer record whose padding, the bytes after its coefficients, is not zero.
  The flag \<^verbatim>\<open>z\<close> of a run says that all padding is.\<close>

definition padding_zero :: "(string, u8 list) btree \<Rightarrow> nat \<Rightarrow> bool" where
  "padding_zero m b = (case bt_get m (record_name b 0) of None \<Rightarrow> False
     | Some raw \<Rightarrow> list_all (\<lambda>x. x = 0) (drop 4194304 raw))"

definition unpadded :: "(string, u8 list) btree \<Rightarrow> bool" where
  "unpadded m = list_all (padding_zero m) [31..<39]"

definition refused :: "bool \<Rightarrow> fault \<Rightarrow> bool" where
  "refused z e \<longleftrightarrow> e = Fail (Invalid INVALID) \<and> \<not> z"

abbreviation emits ::
  "bool \<Rightarrow> ((string \<times> u32 list) list, fault, 'a) eff \<Rightarrow> (string \<times> nat) list \<Rightarrow> ('a \<Rightarrow> bool) \<Rightarrow>
   (string \<times> u32 list) list \<Rightarrow> bool" where
  "emits z m ts P l \<equiv> wp m (\<lambda>a l'. tables_of l' = tables_of l @ ts \<and> P a) (\<lambda>e _. refused z e) l"

lemma tables_of_append [simp]: "tables_of (l @ k) = tables_of l @ tables_of k"
  by (simp add: tables_of_def)

lemma tables_of_Cons [simp]: "tables_of ((n, v) # k) = (n, length v) # tables_of k"
  by (simp add: tables_of_def)

lemma tables_of_Nil [simp]: "tables_of [] = []"
  by (simp add: tables_of_def)

lemma wp_log [wp_simps]: "wp (log_table n v) Q E l = Q () (l @ [(n, v)])"
  by (simp add: log_table_def wp_emod)

lemma wp_runs: "runs r P \<Longrightarrow> (\<And>v. P v \<Longrightarrow> Q v s) \<Longrightarrow> wp (elift r) Q E s"
  by (auto simp: runs_def wp_elift)

lemma emits_loop:
  assumes "\<And>x l. x \<in> set xs \<Longrightarrow> emits z (f x ()) (g x) (\<lambda>_. True) l"
  shows "emits z (efor f xs ()) (concat (map g xs)) (\<lambda>_. True) l"
proof -
  have "wp (efor f xs ()) ((\<lambda>ys zs (_ :: unit) l'. tables_of l' = tables_of l @ concat (map g ys)) xs [])
      (\<lambda>e _. refused z e) l"
  proof (rule wp_efor_step)
    fix ys x zs a s
    assume "xs = ys @ x # zs" "tables_of s = tables_of l @ concat (map g ys)"
    then show "wp (f x a) (\<lambda>_ l'. tables_of l' = tables_of l @ concat (map g (ys @ [x]))) (\<lambda>e _. refused z e) s"
      using assms [of x s] by (auto intro: wp_mono)
  qed simp
  then show ?thesis by simp
qed

definition upsample_tables :: "nat \<times> nat \<Rightarrow> (string \<times> nat) list" where
  "upsample_tables x = (case x of (b, ch) \<Rightarrow> [(block_name b ''-weights.f32'', 2 * ch * ch + ch)])"

definition multi_tables :: "nat \<Rightarrow> (string \<times> nat) list" where
  "multi_tables b = (let ch = width b in
     [(block_name b ''-ffn.f32'', 9 * ch * ch + ch),
      (block_name b ''-attention-components.audit.f32'', 4 * ch * ch + ch div 32 * 4096 + ch div 32),
      (block_name b ''-attention.f32'', 4 * ch * ch + ch div 32 * 4096 + ch div 32 + ch)])"

definition narrow_tables :: "nat \<Rightarrow> (string \<times> nat) list" where
  "narrow_tables b = [(prefix_of b @ ''-ffn.f32'', 8736), (prefix_of b @ ''-attention.f32'', 8225)]"

definition downsample_tables :: "nat \<times> nat \<Rightarrow> (string \<times> nat) list" where
  "downsample_tables x = (case x of (b, ch) \<Rightarrow> [(block_name b ''-ds.f32'', 2 * ch * ch)])"

definition split_tables :: "nat \<Rightarrow> (string \<times> nat) list" where
  "split_tables b = [(block_name b ''-ffwd.f32'', 524288), (block_name b ''-ffwd-projection.f32'', 262656),
     (block_name b ''-attention.f32'', 1114640)]"

definition vit_tables :: "nat \<Rightarrow> (string \<times> nat) list" where
  "vit_tables b = [(block_name b ''-expand.f32'', 4194304), (block_name b ''-contract.f32'', 4195328),
     (block_name b ''-qkv.f32'', 3145760), (block_name b ''-projection.f32'', 1049600)]"

text \<open>What a block needs of its record or of the body an upsampling left for it.\<close>

definition need :: "nat \<Rightarrow> nat" where
  "need b = (if 5 \<le> b \<and> b < 66 then if width b = 64 then 61760 else if width b = 128 then 197184 else 689232
     else 20672)"

definition bodies_ok :: "(nat, u8 list) btree \<Rightarrow> bool" where
  "bodies_ok bodies \<longleftrightarrow> (\<forall>b raw. bt_get bodies b = Some raw \<longrightarrow> need b \<le> length raw)"

lemma single_need: "list_all (\<lambda>b. layers b = [single_size b] \<and> need b \<le> single_size b)
    ([0..<23] @ [48..<71])"
  by code_simp

lemma run_body:
  assumes "records data = Inr m" "bodies_ok bodies" "b \<in> set ([0..<23] @ [48..<71])"
    and "\<And>raw. need b \<le> length raw \<Longrightarrow> Q raw"
  shows "runs (body_of bodies m b) Q"
proof (cases "bt_get bodies b")
  case None
  have "layers b = [single_size b]" "need b \<le> single_size b"
    using single_need assms(3) by (simp_all only: list_all_iff)
  moreover have "b < 71"
    using assms(3) by auto
  ultimately show ?thesis
    using None assms(4) by (auto simp: body_of_def intro!: run_payload [OF assms(1)])
next
  case (Some raw)
  then show ?thesis
    using assms(2,4) by (simp add: body_of_def bodies_ok_def)
qed

lemma emits_multi:
  assumes "records data = Inr m" "bodies_ok bodies" "b \<in> set ([5..<23] @ [48..<66])"
  shows "emits z (emit_multi log_table m bodies b u) (multi_tables b) (\<lambda>_. True) l"
proof -
  have b: "b \<in> set ([0..<23] @ [48..<71])" and n: "5 \<le> b \<and> b < 66"
    using assms(3) by auto
  have "runs (rbind (body_of bodies m b) (\<lambda>raw. multi raw (width b))) (\<lambda>(ffn, components, attention).
      length ffn = 9 * width b * width b + width b \<and>
      length components = 4 * width b * width b + width b div 32 * 4096 + width b div 32 \<and>
      length attention = 4 * width b * width b + width b div 32 * 4096 + width b div 32 + width b)"
    by (intro run_bind run_body [OF assms(1,2) b] run_multi) (auto simp: need_def n width_def split: if_splits)
  then show ?thesis
    unfolding emit_multi_def wp_ebind
    by (rule wp_runs) (auto simp: wp_simps multi_tables_def Let_def)
qed

lemma emits_narrow:
  assumes "records data = Inr m" "bodies_ok bodies" "b \<in> set ([0..<5] @ [66..<71])" "length mix = 512"
  shows "emits z (emit_narrow log_table m bodies mix b u) (narrow_tables b) (\<lambda>_. True) l"
proof -
  have b: "b \<in> set ([0..<23] @ [48..<71])" and n: "\<not> (5 \<le> b \<and> b < 66)"
    using assms(3) by auto
  have "runs (rbind (body_of bodies m b) c32) (\<lambda>(ffn, attention). length ffn = 8736 \<and> length attention = 8225)"
    by (intro run_bind run_body [OF assms(1,2) b] run_c32) (auto simp: need_def n)
  then show ?thesis
    unfolding emit_narrow_def wp_ebind
  proof (rule wp_runs)
    fix v :: "u32 list \<times> u32 list"
    assume "case v of (ffn, attention) \<Rightarrow> length ffn = 8736 \<and> length attention = 8225"
    then obtain ffn attention where v: "v = (ffn, attention)" "length ffn = 8736" "length attention = 8225"
      by auto
    have "runs (if b = 0 then copy_range 0 512 mix ffn else Inr ffn) (\<lambda>w. length w = 8736)"
      using v assms(4) by (auto intro: run_copy)
    then show "wp (case v of (ffn, attention) \<Rightarrow> ebind (elift (if b = 0 then copy_range 0 512 mix ffn else Inr ffn))
        (\<lambda>ffn. eseq (log_table (prefix_of b @ ''-ffn.f32'') ffn) (log_table (prefix_of b @ ''-attention.f32'') attention)))
        (\<lambda>a l'. tables_of l' = tables_of l @ narrow_tables b \<and> True) (\<lambda>e _. refused z e) l"
      unfolding v prod.case wp_ebind by (rule wp_runs) (simp add: wp_simps narrow_tables_def v)
  qed
qed

lemma emits_downsample:
  assumes "records data = Inr m" "x \<in> set [(4, 32), (8, 64), (14, 128), (22, 256)]"
  shows "emits z (emit_downsample log_table m x u) (downsample_tables x) (\<lambda>_. True) l"
proof -
  obtain b ch where x: "x = (b, ch)" by (cases x)
  have "runs (rbind (payload m b 0) (\<lambda>raw. downsample raw ch)) (\<lambda>v. length v = 2 * ch * ch)"
    by (intro run_bind run_payload [OF assms(1)] run_downsample)
      (use assms(2) in \<open>auto simp: x layers_def single_size_def\<close>)
  then show ?thesis
    unfolding emit_downsample_def x prod.case wp_ebind
    by (rule wp_runs) (simp add: wp_simps downsample_tables_def)
qed

lemma emits_split:
  assumes "records data = Inr m" "b \<in> set ([23..<31] @ [40..<48])"
  shows "emits z (emit_split log_table m b u) (split_tables b) (\<lambda>_. True) l"
proof -
  have r: "23 \<le> b \<and> b < 31 \<or> 40 \<le> b \<and> b < 48"
    using assms(2) by (simp del: upt_rec_numeral)
  have l: "b < 71" "4 \<le> length (layers b)" "layers b ! 0 = 524288" "layers b ! 1 = 263168"
    "layers b ! 2 = 917568" "layers b ! 3 = 263168"
    using r by (auto simp: layers_def nth_append)
  have "runs (rbind (payload m b 0) (\<lambda>r0. rbind (payload m b 1) (\<lambda>r1. rbind (payload m b 2) (\<lambda>r2.
      rbind (payload m b 3) (\<lambda>r3. split r0 r1 r2 r3))))) (\<lambda>(fw, projection, attention).
      length fw = 524288 \<and> length projection = 262656 \<and> length attention = 1114640)"
    by (intro run_bind run_payload [OF assms(1)] run_split) (use l in auto)
  then show ?thesis
    unfolding emit_split_def wp_ebind
    by (rule wp_runs) (auto simp: wp_simps split_tables_def)
qed

lemma run_qkv:
  assumes "length raw = 3145856"
  shows "gives (qkv_table raw) 3145760"
proof -
  have v: "gives (vit_matrix r 1024 1024) 1048576" if "length r = 1048576" for r
    using run_vit_matrix [of r 1024 1024] that by simp
  show ?thesis
    unfolding qkv_table_def
    by (intro run_extend run_each [where n = 1048576] run_bind run_from run_interleaved run_gives [OF v] run_part
        run_floats run_done) (simp_all add: assms)
qed

lemma emits_vit:
  assumes "records data = Inr m" "b \<in> set [31..<39]" "z \<Longrightarrow> padding_zero m b"
  shows "emits z (emit_vit log_table m b u) (vit_tables b) (\<lambda>_. True) l"
proof -
  have lay: "layers b = [4194320, 4196352, 3145856, 2, 1050624]" "b < 71"
    using assms(2) by (auto simp: layers_def)
  have p: "runs (payload m b 0) (\<lambda>raw. length raw = 4194320)" "runs (payload m b 1) (\<lambda>raw. length raw = 4196352)"
    "runs (payload m b 2) (\<lambda>raw. length raw = 3145856)" "runs (payload m b 4) (\<lambda>raw. length raw = 1050624)"
    by (rule run_payload [OF assms(1) lay(2)]; simp add: lay(1))+
  then have p0: "runs (payload m b 0) (\<lambda>raw. length raw = 4194320 \<and>
      (z \<longrightarrow> list_all (\<lambda>x. x = 0) (drop 4194304 raw)))"
    using assms(3) by (cases "bt_get m (record_name b 0)") (auto simp: payload_def padding_zero_def runs_def)
  have contract: "gives (rbind (payload m b 1) (\<lambda>r. vit_residual r 4096)) 4195328"
    using p(2) run_vit_residual [of 4096] by (auto elim!: runs_mono)
  have qkv: "gives (rbind (payload m b 2) qkv_table) 3145760"
    using p(3) run_qkv by (auto elim!: runs_mono)
  have projection: "gives (rbind (payload m b 4) (\<lambda>r. vit_residual r 1024)) 1049600"
    using p(4) run_vit_residual [of 1024] by (auto elim!: runs_mono)
  have expand: "gives (part_of (\<lambda>r. vit_matrix r 1024 4096) raw 0 4194304) 4194304" if "length raw = 4194320" for raw
    using run_vit_matrix [of _ 1024 4096] that by (intro run_part) simp_all
  have pad: "wp (elift (rbind (from_on raw 4194304) (\<lambda>r. check (list_all (\<lambda>b. b = 0) r)))) Q (\<lambda>e _. refused z e) s"
    if "length raw = 4194320 \<and> (z \<longrightarrow> list_all (\<lambda>x. x = 0) (drop 4194304 raw))" "Q () s" for raw Q s
    using that by (auto simp: wp_elift from_on_ok check_def require_def refused_def)
  show ?thesis
    unfolding emit_vit_def wp_ebind wp_eseq
    apply (rule wp_runs [OF p0])
    apply (rule pad, assumption)
    apply (rule wp_runs [OF expand], rule conjunct1, assumption)
    apply (unfold wp_log)
    apply (rule wp_runs [OF contract])
    apply (rule wp_runs [OF qkv])
    apply (rule wp_runs [OF projection])
    apply (simp add: vit_tables_def)
    done
qed

lemma upsampled:
  assumes "x \<in> set [(48, 256), (56, 128), (62, 64), (66, 32)]" "length raw = single_size (fst x)"
  shows "runs (upsample raw (snd x)) (\<lambda>(weights, body).
    length weights = 2 * snd x * snd x + snd x \<and> length body = need (fst x))"
  using assms run_upsample [of 256 689232 raw] run_upsample [of 128 197184 raw] run_upsample [of 64 61760 raw]
    run_upsample_32 [of raw]
  by (auto simp: single_size_def need_def width_def)

lemma emits_upsample:
  assumes "records data = Inr m" "x \<in> set [(48, 256), (56, 128), (62, 64), (66, 32)]" "bodies_ok bodies"
  shows "emits z (emit_upsample log_table m x bodies) (upsample_tables x) bodies_ok l"
proof -
  obtain b ch where x: "x = (b, ch)" by (cases x)
  have "runs (rbind (payload m b 0) (\<lambda>raw. upsample raw ch)) (\<lambda>(weights, body).
      length weights = 2 * ch * ch + ch \<and> length body = need b)"
    using upsampled [OF assms(2)] assms(2)
    by (intro run_bind run_payload [OF assms(1)]) (auto simp: x layers_def)
  then show ?thesis
    unfolding emit_upsample_def x prod.case wp_ebind
    by (rule wp_runs) (use assms(3) in \<open>auto simp: wp_simps upsample_tables_def bodies_ok_def bt_get_put split: if_splits\<close>)
qed

lemma emits_upsamples:
  assumes "records data = Inr m" "bodies_ok bodies"
  shows "emits z (efor (emit_upsample log_table m) [(48, 256), (56, 128), (62, 64), (66, 32)] bodies)
    (concat (map upsample_tables [(48, 256), (56, 128), (62, 64), (66, 32)])) bodies_ok l"
proof -
  let ?xs = "[(48, 256), (56, 128), (62, 64), (66, 32)]"
  have "wp (efor (emit_upsample log_table m) ?xs bodies)
      ((\<lambda>ys zs a l'. tables_of l' = tables_of l @ concat (map upsample_tables ys) \<and> bodies_ok a) ?xs [])
      (\<lambda>e _. refused z e) l"
  proof (rule wp_efor_step)
    fix ys x zs a s
    assume x: "?xs = ys @ x # zs" and i: "tables_of s = tables_of l @ concat (map upsample_tables ys) \<and> bodies_ok a"
    have "x \<in> set ?xs"
      unfolding x by simp
    with i show "wp (emit_upsample log_table m x a)
        (\<lambda>a l'. tables_of l' = tables_of l @ concat (map upsample_tables (ys @ [x])) \<and> bodies_ok a) (\<lambda>e _. refused z e) s"
      by (intro wp_mono [OF emits_upsample [OF assms(1)]]) auto
  qed (simp add: assms(2))
  then show ?thesis by simp
qed

lemma run_head:
  assumes "records data = Inr m"
  shows "gives (rbind (payload m 30 4) head_matrix) 524288"
proof -
  have "layout_ok [3, 6, 7, 8, 9, 10, 11, 12, 13, 14] [1, 0, 4, 5, 2, 15, 16, 17, 18]"
    by code_simp
  then show ?thesis
    unfolding head_matrix_def
    by (intro run_bind run_payload [OF assms] run_part run_matrix) (simp_all add: layers_def)
qed

lemma run_decoder:
  assumes "records data = Inr m"
  shows "gives (rbind (payload m 39 0) decoder_weights) 524800"
proof -
  have "layout_ok [3, 6, 7, 8, 9, 10, 11, 12, 13] [1, 0, 4, 5, 2, 14, 15, 16, 17, 18]"
    by code_simp
  then show ?thesis
    unfolding decoder_weights_def
    by (intro run_bind run_payload [OF assms] run_extend run_from run_skip run_part run_matrix run_done)
      (simp_all add: layers_def single_size_def)
qed

definition decode_tables :: "(string \<times> nat) list" where
  "decode_tables =
     [(''block0-mix.audit.f32'', 512), (''post70-head.f32'', 96), (''post70-scales.f32'', 64)] @
     concat (map upsample_tables [(48, 256), (56, 128), (62, 64), (66, 32)]) @
     concat (map multi_tables ([5..<23] @ [48..<66])) @
     concat (map narrow_tables ([0..<5] @ [66..<71])) @
     concat (map downsample_tables [(4, 32), (8, 64), (14, 128), (22, 256)]) @
     concat (map split_tables ([23..<31] @ [40..<48])) @
     [(''head-matrix.f32'', 524288)] @ concat (map vit_tables [31..<39]) @
     [(''decoder39-weights.f32'', 524800)]"

text \<open>Emissions compose like the program does.\<close>

lemma emits_bind:
  assumes "emits z m ts P l" "\<And>a l'. P a \<Longrightarrow> emits z (f a) us Q l'"
  shows "emits z (ebind m f) (ts @ us) Q l"
  unfolding wp_ebind by (rule wp_mono [OF assms(1)]) (auto intro: wp_mono [OF assms(2)])

lemma emits_seq:
  assumes "emits z m ts P l" "\<And>l'. emits z n us Q l'"
  shows "emits z (eseq m n) (ts @ us) Q l"
  unfolding eseq_def using assms by (rule emits_bind)

lemma emits_lift:
  assumes "runs r P" "\<And>v. P v \<Longrightarrow> emits z (f v) us Q l"
  shows "emits z (ebind (elift r) f) us Q l"
  unfolding wp_ebind using assms by (rule wp_runs)

lemma emits_log: "length v = n \<Longrightarrow> emits z (log_table name v) [(name, n)] (\<lambda>_. True) l"
  by (simp add: wp_simps)

lemma decode_emits:
  assumes "records data = Inr m"
  shows "emits (unpadded m) (decode log_table m) decode_tables (\<lambda>_. True) l"
proof -
  have pre: "runs (rbind (payload m 0 0) pre) (\<lambda>(mix, body). length mix = 512 \<and> length body = 20672)"
    by (intro run_bind run_payload [OF assms] run_pre) (simp_all add: layers_def single_size_def)
  have post: "runs (rbind (payload m 70 0) post)
      (\<lambda>(body, scales, head). length body = 20672 \<and> length scales = 64 \<and> length head = 96)"
    by (intro run_bind run_payload [OF assms] run_post) (simp_all add: layers_def single_size_def)
  have start: "bodies_ok (bt_of_list [(0, body), (70, body')])"
    if "length body = 20672" "length body' = 20672" for body body'
    using that by (auto simp: bodies_ok_def bt_of_list_def bt_get_def need_def)
  note matrix = emits_lift [OF run_head [OF assms] emits_log] emits_lift [OF run_decoder [OF assms] emits_log]
  have tables: "decode_tables = [(''block0-mix.audit.f32'', 512)] @ [(''post70-head.f32'', 96)] @
     [(''post70-scales.f32'', 64)] @
     concat (map upsample_tables [(48, 256), (56, 128), (62, 64), (66, 32)]) @
     concat (map multi_tables ([5..<23] @ [48..<66])) @
     concat (map narrow_tables ([0..<5] @ [66..<71])) @
     concat (map downsample_tables [(4, 32), (8, 64), (14, 128), (22, 256)]) @
     concat (map split_tables ([23..<31] @ [40..<48])) @
     [(''head-matrix.f32'', 524288)] @ concat (map vit_tables [31..<39]) @
     [(''decoder39-weights.f32'', 524800)]"
    by (simp only: decode_tables_def append_Cons append_Nil)
  show ?thesis
    unfolding decode_def tables
    apply (rule emits_lift [OF pre], clarify, rule emits_seq, rule emits_log, assumption)
    apply (rule emits_lift [OF post], clarify)
    apply (rule emits_seq, rule emits_log, assumption)
    apply (rule emits_seq, rule emits_log, assumption)
    apply (rule emits_bind, rule emits_upsamples [OF assms start], assumption, assumption)
    apply (rule emits_seq, rule emits_loop, rule emits_multi [OF assms], assumption, assumption)
    apply (rule emits_seq, rule emits_loop, rule emits_narrow [OF assms], assumption, assumption, assumption)
    apply (rule emits_seq, rule emits_loop, rule emits_downsample [OF assms], assumption)
    apply (rule emits_seq, rule emits_loop, rule emits_split [OF assms], assumption)
    apply (rule emits_seq, rule matrix(1), assumption)
    apply (rule emits_seq, rule emits_loop, rule emits_vit [OF assms], assumption, simp only: unpadded_def list_all_iff)
    apply (rule matrix(2), assumption)
    done
qed

text \<open>Conversely, a conversion that ends well has read the padding of every transformer record.\<close>

abbreviation reaches :: "('s, 'e, 'a) eff \<Rightarrow> bool \<Rightarrow> 's \<Rightarrow> bool" where
  "reaches m c s \<equiv> wp m (\<lambda>_ _. c) (\<lambda>_ _. True) s"

lemma reaches_later: "(\<And>a t. reaches (f a) c t) \<Longrightarrow> reaches (ebind m f) c s"
  unfolding wp_ebind by (simp add: wp_def split: prod.split sum.split)

lemma reaches_then: "(\<And>t. reaches n c t) \<Longrightarrow> reaches (eseq m n) c s"
  unfolding eseq_def by (rule reaches_later)

lemma reaches_first: "reaches m c s \<Longrightarrow> reaches (eseq m n) c s"
  by (auto simp: wp_def eseq_def ebind_def split: prod.splits sum.splits)

lemma vit_padding: "reaches (emit_vit emit m b u) (padding_zero m b) s"
  by (cases "bt_get m (record_name b 0)"; cases "length (the (bt_get m (record_name b 0))) < 4194304")
    (auto simp: emit_vit_def wp_simps payload_def padding_zero_def check_def require_def from_on_def range_def
      wp_def [where Q = "\<lambda>_ _. True"] split: prod.splits sum.splits)

lemma vits_padding: "reaches (efor (emit_vit emit m) bs ()) (list_all (padding_zero m) bs) s"
proof -
  have "wp (efor (emit_vit emit m) bs ()) ((\<lambda>ys zs _ _. list_all (padding_zero m) ys) bs []) (\<lambda>_ _. True) s"
  proof (rule wp_efor_step)
    fix ys x zs a t
    assume "list_all (padding_zero m) ys"
    then show "wp (emit_vit emit m x a) (\<lambda>_ _. list_all (padding_zero m) (ys @ [x])) (\<lambda>_ _. True) t"
      using vit_padding [of emit m x a t] by simp
  qed simp
  then show ?thesis by simp
qed

lemma decode_padding: "reaches (decode emit m) (unpadded m) s"
  unfolding decode_def unpadded_def
  apply (rule reaches_later, split prod.split, intro allI impI, rule reaches_then)
  apply (rule reaches_later, split prod.split, intro allI impI, split prod.split, intro allI impI)
  apply (rule reaches_then, rule reaches_then, rule reaches_later)
  apply (rule reaches_then, rule reaches_then, rule reaches_then, rule reaches_then, rule reaches_then)
  apply (rule reaches_first, rule vits_padding)
  done

section \<open>The tables of the engine\<close>

text \<open>The contract's entries by block and ending; block 100 stands for the prefix \<^verbatim>\<open>post70\<close>, block 101 for
  the names of no block.\<close>

definition entries :: "(nat \<times> string \<times> nat) list" where
  "entries =
     [(0, ''-mix.audit.f32'', 512), (100, ''-head.f32'', 96), (100, ''-scales.f32'', 64),
      (101, ''head-matrix.f32'', 524288), (101, ''decoder39-weights.f32'', 524800)] @
     concat (map (\<lambda>b. let ch = width b in
       [(b, ''-ffn.f32'', 9 * ch * ch + ch),
        (b, ''-attention-components.audit.f32'', 4 * ch * ch + ch div 32 * 4096 + ch div 32),
        (b, ''-attention.f32'', 4 * ch * ch + ch div 32 * 4096 + ch div 32 + ch)]) ([5..<23] @ [48..<66])) @
     map (\<lambda>(b, ch). (b, ''-ds.f32'', 2 * ch * ch)) [(8, 64), (14, 128), (22, 256)] @
     concat (map (\<lambda>b. [(b, ''-ffwd.f32'', 524288), (b, ''-ffwd-projection.f32'', 262656),
        (b, ''-attention.f32'', 1114640)]) ([23..<31] @ [40..<48])) @
     concat (map (\<lambda>b. [(b, ''-expand.f32'', 4194304), (b, ''-contract.f32'', 4195328), (b, ''-qkv.f32'', 3145760),
        (b, ''-projection.f32'', 1049600)]) [31..<39]) @
     map (\<lambda>(b, ch). (b, ''-weights.f32'', 2 * ch * ch + ch)) [(48, 256), (56, 128), (62, 64), (66, 32)] @
     concat (map (\<lambda>b. [(if b = 70 then 100 else b, ''-ffn.f32'', 8736), (if b = 70 then 100 else b, ''-attention.f32'', 8225)])
       ([0..<5] @ [66..<71])) @
     [(4, ''-ds.f32'', 2048), (101, ''hwc-to-vit.i32'', 655360), (101, ''vit-to-hwc.i32'', 655360)]"

definition name_of :: "nat \<Rightarrow> string \<Rightarrow> string" where
  "name_of b e = (if b < 71 then block_name b e else if b = 100 then ''post70'' @ e else e)"

definition entry_ok :: "nat \<times> string \<times> nat \<Rightarrow> bool" where
  "entry_ok x = (case x of (b, e, _) \<Rightarrow> (b < 71 \<or> b = 100 \<or> b = 101) \<and> e \<noteq> [] \<and>
     (if b = 101 then hd e \<noteq> CHR ''b'' \<and> hd e \<noteq> CHR ''p'' else hd e = CHR ''-''))"

lemma entries_ok: "list_all entry_ok entries"
  by code_simp

text \<open>The size an entry has is determined by its block and ending.\<close>

definition size_of :: "nat \<Rightarrow> string \<Rightarrow> nat" where
  "size_of b e =
     (let ch = (if b = 66 then 32 else width b); narrow = (b = 100 \<or> \<not> (5 \<le> b \<and> b < 66));
          heads = 4 * ch * ch + ch div 32 * 4096 + ch div 32
      in if e = ''-ffn.f32'' then if narrow then 8736 else 9 * ch * ch + ch
         else if e = ''-attention.f32'' then
           if narrow then 8225 else if 23 \<le> b \<and> b < 48 then 1114640 else heads + ch
         else if e = ''-attention-components.audit.f32'' then heads
         else if e = ''-ds.f32'' then if b = 4 then 2048 else 2 * ch * ch
         else if e = ''-weights.f32'' then 2 * ch * ch + ch
         else case map_of [(''-ffwd.f32'', 524288), (''-ffwd-projection.f32'', 262656), (''-expand.f32'', 4194304),
           (''-contract.f32'', 4195328), (''-qkv.f32'', 3145760), (''-projection.f32'', 1049600),
           (''-mix.audit.f32'', 512), (''-head.f32'', 96), (''-scales.f32'', 64), (''head-matrix.f32'', 524288),
           (''decoder39-weights.f32'', 524800)] e of Some s \<Rightarrow> s | None \<Rightarrow> 655360)"

lemma entries_sizes: "list_all (\<lambda>(b, e, s). s = size_of b e) entries"
  by code_simp

lemma name_of_inject:
  assumes "entry_ok (b, e, s)" "entry_ok (b', e', s')" "name_of b e = name_of b' e'"
  shows "b = b' \<and> e = e'"
proof -
  have d: "\<not> is_digit CHR ''-''"
    by code_simp
  obtain c f c' f' where e: "e = c # f" "e' = c' # f'"
    using assms(1,2) by (cases e; cases e') (auto simp: entry_ok_def)
  have "hd (block_name a x) = CHR ''b''" for a x
    by (simp add: block_name_def)
  then have h: "hd (name_of a x) = (if a < 71 then CHR ''b'' else if a = 100 then CHR ''p'' else hd x)" for a x
    by (simp add: name_of_def)
  have "hd (name_of b e) = hd (name_of b' e')"
    by (simp add: assms(3))
  then have "(b < 71 \<longleftrightarrow> b' < 71) \<and> (b = 100 \<longleftrightarrow> b' = 100)"
    using assms(1,2) unfolding h by (auto simp: entry_ok_def split: if_splits)
  then show ?thesis
    using assms d by (auto simp: entry_ok_def name_of_def e block_name_eq split: if_splits)
qed

lemma digit_names: "show_nat 0 = ''0''" "show_nat 4 = ''4''"
  by code_simp+

lemma concat_map_eq:
  "(\<And>b. b \<in> set bs \<Longrightarrow> f b = map h (g b)) \<Longrightarrow> concat (map f bs) = map h (concat (map g bs))"
  by (induction bs) auto

lemma concat_map_eq2:
  assumes "\<And>b. b \<in> set (bs @ cs) \<Longrightarrow> f b = map h (g b)"
  shows "concat (map f bs @ map f cs) = map h (concat (map g bs @ map g cs))"
  unfolding map_append [symmetric] using assms by (rule concat_map_eq)

lemma block_names: "b < 71 \<Longrightarrow> name_of b e = block_name b e"
  "prefix_of b @ e = name_of (if b = 70 then 100 else b) e \<or> 71 \<le> b"
  by (auto simp: name_of_def prefix_of_def block_name_def)

lemma table_list_entries: "table_list = map (\<lambda>(b, e, s). (name_of b e, s)) entries"
  unfolding table_list_def entries_def map_append
proof (intro arg_cong2 [of _ _ _ _ append] concat_map_eq concat_map_eq2)
  fix b :: nat assume "b \<in> set ([0..<5] @ [66..<71])"
  then have "b < 71" by auto
  then show "[(prefix_of b @ ''-ffn.f32'', 8736 :: nat), (prefix_of b @ ''-attention.f32'', 8225)] =
      map (\<lambda>(b, e, s). (name_of b e, s))
        [(if b = 70 then 100 else b, ''-ffn.f32'', 8736), (if b = 70 then 100 else b, ''-attention.f32'', 8225)]"
    using block_names(2) [of b "''-ffn.f32''"] block_names(2) [of b "''-attention.f32''"] by simp
next
  fix b :: nat assume "b \<in> set [31..<39]"
  then have "b < 71" by auto
  then show "map (\<lambda>(ending, n). (block_name b (''-'' @ ending @ ''.f32''), n))
       [(''expand'', 4194304 :: nat), (''contract'', 4195328), (''qkv'', 3145760), (''projection'', 1049600)] =
      map (\<lambda>(b, e, s). (name_of b e, s)) [(b, ''-expand.f32'', 4194304), (b, ''-contract.f32'', 4195328),
        (b, ''-qkv.f32'', 3145760), (b, ''-projection.f32'', 1049600)]"
    by (simp add: block_names(1))
qed (auto simp: Let_def name_of_def block_name_def digit_names MAPS_def simp del: upt_rec_numeral)

lemma table_sizes_get:
  assumes "(n, s) \<in> set table_list"
  shows "bt_get table_sizes n = Some s"
  unfolding table_sizes_def
proof (rule bt_of_list_get [OF assms])
  fix w assume "(n, w) \<in> set table_list"
  then obtain b e b' e' where x: "(b, e, s) \<in> set entries" "n = name_of b e"
    and y: "(b', e', w) \<in> set entries" "n = name_of b' e'"
    using assms by (auto simp: table_list_entries)
  have ok: "entry_ok (b, e, s)" "entry_ok (b', e', w)"
    using entries_ok x(1) y(1) by (auto simp only: list_all_iff)
  then have same: "b = b'" "e = e'"
    using name_of_inject [OF ok] x(2) y(2) by auto
  have "s = size_of b e" "w = size_of b' e'"
    using entries_sizes x(1) y(1) by (auto simp only: list_all_iff)
  then show "w = s"
    by (simp add: same)
qed

lemma table_list_parts: "table_list =
    [(''block0-mix.audit.f32'', 512), (''post70-head.f32'', 96), (''post70-scales.f32'', 64),
     (''head-matrix.f32'', 524288), (''decoder39-weights.f32'', 524800)] @
    concat (map multi_tables ([5..<23] @ [48..<66])) @
    concat (map downsample_tables [(8, 64), (14, 128), (22, 256)]) @
    concat (map split_tables ([23..<31] @ [40..<48])) @ concat (map vit_tables [31..<39]) @
    concat (map upsample_tables [(48, 256), (56, 128), (62, 64), (66, 32)]) @
    concat (map narrow_tables ([0..<5] @ [66..<71])) @
    downsample_tables (4, 32) @ map (\<lambda>name. (name, 655360)) MAPS"
proof -
  have d: "downsample_tables (4, 32) = [(''block4-ds.f32'', 2048)]"
    by (simp add: downsample_tables_def block_name_def digit_names)
  have v: "vit_tables = (\<lambda>b. map (\<lambda>(ending, n). (block_name b (''-'' @ ending @ ''.f32''), n))
       [(''expand'', 4194304), (''contract'', 4195328), (''qkv'', 3145760), (''projection'', 1049600)])"
    by (simp add: fun_eq_iff vit_tables_def)
  have c: "concat (map downsample_tables [(8, 64), (14, 128), (22, 256)]) =
      map (\<lambda>(b, ch). (block_name b ''-ds.f32'', 2 * ch * ch)) [(8, 64), (14, 128), (22, 256)]"
    "concat (map upsample_tables [(48, 256), (56, 128), (62, 64), (66, 32)]) =
      map (\<lambda>(b, ch). (block_name b ''-weights.f32'', 2 * ch * ch + ch)) [(48, 256), (56, 128), (62, 64), (66, 32)]"
    by (simp_all add: downsample_tables_def upsample_tables_def)
  show ?thesis
    unfolding table_list_def c d v multi_tables_def [abs_def] split_tables_def [abs_def] narrow_tables_def [abs_def] ..
qed

lemma decode_table_set: "set decode_tables \<union> set (map (\<lambda>n. (n, 655360)) MAPS) = set table_list"
proof -
  have "set (concat (map downsample_tables [(4, 32), (8, 64), (14, 128), (22, 256)])) =
      set (downsample_tables (4, 32)) \<union> set (concat (map downsample_tables [(8, 64), (14, 128), (22, 256)]))"
    by simp
  then show ?thesis
    unfolding decode_tables_def table_list_parts set_append by (simp only: list.set Un_insert_left Un_insert_right Un_ac insert_commute)
qed

end
