(* ===== verification/NeuralRecords.thy ===== *)
theory NeuralRecords
  imports NeuralConversion
begin

text \<open>
  The properties of the archive reader and of the conversion in \<^verbatim>\<open>native/neural_decode.rs\<close>: every
  archive of the pinned records, in any order, is read back; and what is accepted converts, unless its
  padding is not zero, to the tables of \<^verbatim>\<open>native/neural_assets.rs\<close> without a panic.
\<close>

section \<open>Writing an archive\<close>

definition entry :: "string \<times> u8 list \<Rightarrow> u8 list" where
  "entry x = (case x of (name, body) \<Rightarrow>
     le64 (word_of_nat (length name)) @ bytes_of name @ le64 (word_of_nat (length body + 40)) @
     le64 (word_of_nat (length body + 40)) @ le64 (word_of_nat (length body)) @ le32 1 @ body @
     trailer (length body))"

definition archive :: "(string \<times> u8 list) list \<Rightarrow> u8 list" where
  "archive es = (let body = concat (map entry es) in le64 (word_of_nat (8 + length body)) @ body)"

lemma slice_at:
  "data = a @ b @ c \<Longrightarrow> offset = length a \<Longrightarrow> n = length b \<Longrightarrow> length data \<le> usize_max \<Longrightarrow> slice data offset n = Inr b"
  by (simp add: slice_def)

lemma u64_at_le64:
  assumes "data = a @ le64 (word_of_nat n) @ c" "offset = length a" "length data \<le> usize_max" "n \<le> usize_max"
  shows "u64_at data offset = Inr n"
  using slice_at [OF assms(1,2) _ assms(3), of 8] assms(4) by (simp add: u64_at_def unat_of_nat)

lemma length_entry: "length (entry (name, body)) = length name + length body + 56"
  by (simp add: entry_def trailer_def)

lemma read_entry:
  assumes data: "data = front @ entry (name, body) @ rest" "length data \<le> usize_max"
    and name: "1 \<le> length name" "length name \<le> 4096" "\<forall>c \<in> set name. ord c < 128"
    and fresh: "bt_get sizes name = Some (length body)" "\<not> bt_has m name"
  shows "read_record sizes data (length front) m = Inr (length front + length (entry (name, body)), bt_put name body m)"
proof -
  let ?n = "length name" and ?s = "length body"
  let ?head = "front @ le64 (word_of_nat ?n)"
  obtain inner where i: "inner = le64 (word_of_nat (?s + 40)) @ le64 (word_of_nat ?s) @ le32 1 @ body @ trailer ?s"
    by blast
  have len: "?n \<le> usize_max" "?s + 40 \<le> usize_max"
    using data by (simp_all add: entry_def trailer_def)
  have 1: "u64_at data (length front) = Inr ?n"
    using data len by (intro u64_at_le64 [where a = front]) (simp_all add: entry_def)
  have 2: "slice data (length front + 8) ?n = Inr (bytes_of name)"
    using data by (intro slice_at [where a = ?head]) (simp_all add: entry_def)
  have 3: "u64_at data (length front + 8 + ?n) = Inr (?s + 40)"
    using data len by (intro u64_at_le64 [where a = "?head @ bytes_of name"]) (simp_all add: entry_def)
  have 4: "slice data (length front + 16 + ?n) (?s + 40) = Inr inner"
    unfolding i using data by (intro slice_at [where a = "?head @ bytes_of name @ le64 (word_of_nat (?s + 40))"])
      (simp_all add: entry_def trailer_def)
  have inner: "length inner \<le> usize_max"
    using len by (simp add: i trailer_def)
  have 5: "u64_at inner 0 = Inr (?s + 40)" "u64_at inner 8 = Inr ?s" "slice inner 16 4 = Inr (le32 1)"
    "slice inner (20 + ?s) 20 = Inr (trailer ?s)" "slice inner 20 ?s = Inr body"
    using inner len unfolding i
    by (intro u64_at_le64 [where a = "[]"], simp_all, intro u64_at_le64 [where a = "le64 (word_of_nat (?s + 40))"], simp_all)
      (simp_all add: slice_def trailer_def)
  have ascii: "list_all (\<lambda>c. c < 128) (bytes_of name)" "from_utf8 (bytes_of name) = Some name"
    using name(3) from_utf8_bytes_of [OF is_string_ascii [OF name(3)]]
    by (auto simp: list_all_iff word_less_nat_alt unat_of_nat bytes_of_def)
  show ?thesis
    using name(1,2) fresh by (simp add: read_record_def 1 2 3 4 5 ascii require_def Let_def length_entry)
qed

definition wf_entry :: "string \<times> u8 list \<Rightarrow> bool" where
  "wf_entry x \<longleftrightarrow> 1 \<le> length (fst x) \<and> length (fst x) \<le> 4096 \<and> (\<forall>c \<in> set (fst x). ord c < 128)"

lemma read_entries:
  assumes "data = front @ concat (map entry es)" "length data \<le> usize_max" "\<forall>x \<in> set es. wf_entry x"
    and "\<forall>x \<in> set es. bt_get sizes (fst x) = Some (length (snd x)) \<and> \<not> bt_has m (fst x)" "distinct (map fst es)"
  shows "read_records sizes data (length front) m = Inr (fold (\<lambda>(k, v). bt_put k v) es m)"
  using assms
proof (induction es arbitrary: front m)
  case (Cons x es)
  obtain name body where x: "x = (name, body)" by (cases x)
  have step: "read_record sizes data (length front) m =
      Inr (length front + length (entry (name, body)), bt_put name body m)"
    by (rule read_entry [where rest = "concat (map entry es)"]) (use Cons.prems in \<open>simp_all add: x wf_entry_def\<close>)
  have "read_records sizes data (length (front @ entry (name, body))) (bt_put name body m) =
      Inr (fold (\<lambda>(k, v). bt_put k v) es (bt_put name body m))"
    by (rule Cons.IH) (use Cons.prems in \<open>auto simp: x bt_has_def bt_get_put image_iff\<close>)
  moreover have "length front < length data"
    using Cons.prems(1) by (simp add: x length_entry)
  ultimately show ?case
    by (simp add: read_records.simps [of sizes data "length front"] step x)
qed (simp add: read_records.simps)

lemma ascii_show: "c \<in> set (show_nat n) \<Longrightarrow> ord c < 128"
  using show_nat_digits [of n] by (auto simp: list_all_iff is_digit_def)

lemma length_show: "n < 100 \<Longrightarrow> length (show_nat n) \<le> 2"
proof -
  assume "n < 100"
  then have "n div 10 < 10" by simp
  then show "length (show_nat n) \<le> 2"
    by (simp add: show_nat.simps [of n] show_nat.simps [of "n div 10"])
qed

lemma record_list_wf: "(n, len) \<in> set record_list \<Longrightarrow> wf_entry (n, body)"
proof -
  have "wf_entry (record_name b layer, body)" if "b < 71" "layer < 100" for b layer
    using that length_show [of b] length_show [of layer] ascii_show [of _ b] ascii_show [of _ layer]
    by (auto simp: wf_entry_def record_name_def)
  moreover have "layer < 100" if "layer < length (layers b)" for b layer
    using that by (simp add: layers_def split: if_splits)
  moreover have "wf_entry (''block70.layer0.blend_scale'', body)"
    by (simp add: wf_entry_def)
  ultimately show "(n, len) \<in> set record_list \<Longrightarrow> wf_entry (n, body)"
    by (auto simp: record_list_in)
qed

lemma record_list_functional: "(n, a) \<in> set record_list \<Longrightarrow> (n, b) \<in> set record_list \<Longrightarrow> a = b"
  by (auto simp: record_list_in record_name_eq blend_name blend_name [symmetric])

lemma pinned_sizes:
  assumes "distinct (map fst es)" "set (map (\<lambda>(n, body). (n, length body)) es) = set record_list"
  shows "\<forall>x \<in> set es. bt_get record_sizes (fst x) = Some (length (snd x))" "length record_sizes = length es"
proof -
  let ?ls = "map (\<lambda>(n, body). (n, length body)) es"
  have get: "bt_get (bt_of_list kvs) k = Some v \<longleftrightarrow> (k, v) \<in> set record_list" if "set kvs = set record_list" for kvs k v
    using that record_list_functional by (auto dest: bt_of_list_in intro: bt_of_list_get)
  have "bt_get record_sizes k = bt_get (bt_of_list ?ls) k" for k
    using get [of record_list k] get [of ?ls k] assms(2) unfolding record_sizes_def
    by (metis option.exhaust)
  then have "record_sizes = bt_of_list ?ls"
    by (intro bt_eqI) (auto simp: record_sizes_def bt_ok_of_list)
  moreover have "distinct (map fst ?ls)"
    using assms(1) by (simp add: comp_def case_prod_unfold)
  ultimately show "length record_sizes = length es"
    using length_bt_of_list [of ?ls] by simp
  show "\<forall>x \<in> set es. bt_get record_sizes (fst x) = Some (length (snd x))"
    using get [OF refl] assms(2) by (force simp: record_sizes_def)
qed

lemma archive_read:
  assumes "distinct (map fst es)" "set (map (\<lambda>(n, body). (n, length body)) es) = set record_list"
    and "length (archive es) \<le> usize_max"
  shows "records (archive es) = Inr (bt_of_list es)"
proof -
  let ?front = "le64 (word_of_nat (8 + length (concat (map entry es))))"
  have data: "archive es = ?front @ concat (map entry es)"
    by (simp add: archive_def Let_def)
  have wf: "\<forall>x \<in> set es. wf_entry x"
  proof
    fix x assume "x \<in> set es"
    then have "(fst x, length (snd x)) \<in> set record_list"
      unfolding assms(2) [symmetric] by force
    then show "wf_entry x"
      using record_list_wf [of "fst x" _ "snd x"] by simp
  qed
  have "u64_at (archive es) 0 = Inr (length (archive es))"
    by (rule u64_at_le64 [where a = "[]" and c = "concat (map entry es)"]) (use assms(3) in \<open>simp_all add: data\<close>)
  moreover have "read_records record_sizes (archive es) 8 [] = Inr (bt_of_list es)"
    using read_entries [OF data assms(3) wf, of record_sizes "[]"] pinned_sizes(1) [OF assms(1,2)] assms(1)
    by (simp add: bt_has_def bt_get_def bt_of_list_def)
  ultimately show ?thesis
    using pinned_sizes(2) [OF assms(1,2)] length_bt_of_list [OF assms(1)]
    by (simp add: records_def require_def)
qed

section \<open>Properties\<close>

text \<open>C22. Every archive made of the pinned records, in whatever order, is accepted, and reading it gives
  back each record's bytes under its name.\<close>

theorem archive_roundtrip:
  assumes "distinct (map fst es)" "set (map (\<lambda>(n, body). (n, length body)) es) = set record_list"
    and "length (archive es) \<le> usize_max"
  shows "records (archive es) = Inr (bt_of_list es) \<and> set (bt_of_list es) = set es"
  using archive_read [OF assms] set_bt_of_list [OF assms(1)] by (rule conjI)

text \<open>C23. Converting an accepted archive never panics. It refuses exactly when the padding of one of the
  eight transformer records is not zero, and otherwise emits tables of exactly the lengths the engine's
  contract lists, and every table of the contract but the two maps between pixel orders, which are not
  made from the archive.\<close>

theorem decode_contract:
  assumes "records data = Inr m"
  shows "case decode log_table m [] of
      (Inl e, l) \<Rightarrow> e = Fail (Invalid INVALID) \<and> \<not> unpadded m
    | (Inr _, l) \<Rightarrow> unpadded m \<and> (\<forall>n v. (n, v) \<in> set l \<longrightarrow> bt_get table_sizes n = Some (length v)) \<and>
        (\<forall>n len. bt_get table_sizes n = Some len \<longrightarrow> n \<in> set MAPS \<or> (\<exists>v. (n, v) \<in> set l \<and> length v = len))"
proof -
  have ok: "(\<forall>n v. (n, v) \<in> set l \<longrightarrow> bt_get table_sizes n = Some (length v)) \<and>
      (\<forall>n len. bt_get table_sizes n = Some len \<longrightarrow> n \<in> set MAPS \<or> (\<exists>v. (n, v) \<in> set l \<and> length v = len))"
    if "tables_of l = decode_tables" for l
  proof -
    have t: "set (tables_of l) \<union> set (map (\<lambda>n. (n, 655360)) MAPS) = set table_list"
      using decode_table_set by (simp only: that)
    have "bt_get table_sizes n = Some (length v)" if "(n, v) \<in> set l" for n v
      by (rule table_sizes_get) (use that t in \<open>force simp: tables_of_def\<close>)
    moreover have "n \<in> set MAPS \<or> (\<exists>v. (n, v) \<in> set l \<and> length v = len)" if "bt_get table_sizes n = Some len" for n len
    proof -
      have "(n, len) \<in> set table_list"
        using that unfolding table_sizes_def by (rule bt_of_list_in)
      then show ?thesis
        unfolding t [symmetric] by (auto simp: tables_of_def)
    qed
    ultimately show ?thesis by blast
  qed
  have "wp (decode log_table m) (\<lambda>_ l. tables_of l = decode_tables) (\<lambda>e _. refused (unpadded m) e) []"
    using decode_emits [OF assms, of "[]"] by simp
  then show ?thesis
    using ok decode_padding [of log_table m "[]"] by (auto simp: wp_def refused_def split: prod.splits sum.splits)
qed

section \<open>Witnesses\<close>

text \<open>The archive whose coefficients are all zero.\<close>

definition zero_records :: "(string \<times> u8 list) list" where
  "zero_records = map (\<lambda>(n, len). (n, replicate len 0)) record_sizes"

lemma record_sizes_set: "set record_sizes = set record_list"
proof -
  have ok: "bt_ok record_sizes"
    by (simp add: record_sizes_def bt_ok_of_list)
  have "(k, v) \<in> set record_sizes \<longleftrightarrow> (k, v) \<in> set record_list" for k v
    unfolding bt_get_iff [OF ok] unfolding record_sizes_def
    using record_list_functional by (auto dest: bt_of_list_in intro: bt_of_list_get)
  then show ?thesis by auto
qed

lemma zero_distinct: "distinct (map fst zero_records)"
  using bt_ok_distinct [OF bt_ok_of_list [of record_list]]
  by (simp add: zero_records_def record_sizes_def comp_def case_prod_unfold)

lemma zero_sizes: "set (map (\<lambda>(n, body). (n, length body)) zero_records) = set record_list"
proof -
  have "map (\<lambda>(n, body). (n, length body)) zero_records = record_sizes"
    by (simp add: zero_records_def comp_def case_prod_unfold)
  then show ?thesis by (simp only: record_sizes_set)
qed

lemma length_bt_put: "length (bt_put k v m) \<le> Suc (length m)"
  by (induction k v m rule: bt_put.induct) auto

lemma length_bt_of_list_le: "length (bt_of_list kvs) \<le> length kvs"
proof -
  have "length (fold (\<lambda>(k, v). bt_put k v) kvs m) \<le> length kvs + length m" for m
  proof (induction kvs arbitrary: m)
    case (Cons x kvs)
    obtain k v where x: "x = (k, v)" by (cases x)
    show ?case
      using Cons [of "bt_put k v m"] length_bt_put [of k v m] by (simp add: x)
  qed simp
  from this [of "[]"] show ?thesis by (simp add: bt_of_list_def)
qed

lemma zero_length: "length (archive zero_records) \<le> usize_max"
proof -
  have one: "length (entry x) \<le> 5000000" if z: "x \<in> set zero_records" for x
  proof -
    obtain n len where x: "x = (n, replicate len 0)" and r: "(n, len) \<in> set record_list"
      using z by (auto simp: zero_records_def record_sizes_set)
    have "s \<in> set (layers b) \<Longrightarrow> s \<le> 4196352" for s b
      by (auto simp: layers_def single_size_def split: if_splits)
    then have "len \<le> 4196352"
      using r nth_mem by (fastforce simp: record_list_in)
    moreover have "length n \<le> 4096"
      using record_list_wf [OF r] by (simp add: wf_entry_def)
    ultimately show ?thesis
      by (simp add: x length_entry)
  qed
  have sum: "length (concat (map f xs)) \<le> length xs * k" if "\<forall>x \<in> set xs. length (f x) \<le> k"
    for f :: "'x \<Rightarrow> 'y list" and xs k
    using that by (induction xs) auto
  have "length (concat (map (\<lambda>b. map (\<lambda>(layer, len). (record_name b layer, len)) (enumerate 0 (layers b))) [0..<71]))
      \<le> length [0..<71] * 5"
    by (rule sum) (simp add: layers_def)
  then have "length record_list \<le> 1000"
    unfolding record_list_def length_append by (simp del: length_concat upt_rec_numeral)
  then have l: "length zero_records \<le> 1000"
    using length_bt_of_list_le [of record_list] by (simp add: zero_records_def record_sizes_def)
  have "length (concat (map entry zero_records)) \<le> length zero_records * 5000000"
    by (rule sum) (use one in blast)
  also have "\<dots> \<le> 5000000000"
    using l by simp
  finally show ?thesis
    by (simp add: archive_def Let_def)
qed

theorem archive_roundtrip_witness:
  "records (archive zero_records) = Inr (bt_of_list zero_records)"
  using archive_roundtrip [OF zero_distinct zero_sizes zero_length] by blast

lemma zero_unpadded: "unpadded (bt_of_list zero_records)"
proof -
  have "padding_zero (bt_of_list zero_records) b" if b: "b \<in> set [31..<39]" for b
  proof -
    have l: "b < 71" "0 < length (layers b)"
      using b by (auto simp: layers_def)
    then have "bt_get record_sizes (record_name b 0) = Some (layers b ! 0)"
      by (rule record_sizes_get)
    moreover have "bt_ok record_sizes"
      by (simp add: record_sizes_def bt_ok_of_list)
    ultimately have "(record_name b 0, layers b ! 0) \<in> set record_sizes"
      by (simp only: bt_get_iff)
    then have z: "(record_name b 0, replicate (layers b ! 0) 0) \<in> set zero_records"
      unfolding zero_records_def by force
    then have "bt_get (bt_of_list zero_records) (record_name b 0) = Some (replicate (layers b ! 0) 0)"
      by (rule bt_of_list_get) (erule eq_key_imp_eq_value [OF zero_distinct _ z])
    then show ?thesis
      by (simp add: padding_zero_def list_all_iff)
  qed
  then show ?thesis
    unfolding unpadded_def list_all_iff by blast
qed

theorem decode_contract_witness:
  "fst (decode log_table (bt_of_list zero_records) []) = Inr () \<and>
   (\<exists>v. (''head-matrix.f32'', v) \<in> set (snd (decode log_table (bt_of_list zero_records) [])) \<and> length v = 524288)"
proof -
  have "(''head-matrix.f32'', 524288) \<in> set table_list"
    by (simp add: table_list_def)
  then have t: "bt_get table_sizes ''head-matrix.f32'' = Some 524288" "''head-matrix.f32'' \<notin> set MAPS"
    by (auto simp: table_sizes_get MAPS_def)
  show ?thesis
    using decode_contract [OF archive_read [OF zero_distinct zero_sizes zero_length]] t zero_unpadded
    by (cases "decode log_table (bt_of_list zero_records) []") (auto split: sum.splits)
qed

end
