(* ===== verification/NeuralBridge.thy ===== *)
theory NeuralBridge
  imports NeuralArchive
begin

text \<open>
  \<^verbatim>\<open>bridge\<close> of \<^verbatim>\<open>native/neural_decode.rs\<close>: the two index maps between the pixel orders of the
  convolutional and the transformer blocks are inverse permutations of the 640 by 1024 grid.
\<close>

lemma mask_bits:
  "bit (2 :: int) n \<longleftrightarrow> n = 1" "bit (4 :: int) n \<longleftrightarrow> n = 2" "bit (8 :: int) n \<longleftrightarrow> n = 3"
  "bit (16 :: int) n \<longleftrightarrow> n = 4" "bit (7 :: int) n \<longleftrightarrow> n < 3" "bit (12 :: int) n \<longleftrightarrow> n = 2 \<or> n = 3"
  "bit (14 :: int) n \<longleftrightarrow> n = 1 \<or> n = 2 \<or> n = 3" "bit (24 :: int) n \<longleftrightarrow> n = 3 \<or> n = 4"
  "bit (15 :: int) n \<longleftrightarrow> n < 4" "bit (31 :: int) n \<longleftrightarrow> n < 5"
  by (simp_all add: bit_numeral_rec bit_1_iff split: nat.split)

lemma not_mask_bits: "bit (- 16 :: int) n \<longleftrightarrow> 4 \<le> n" "bit (- 32 :: int) n \<longleftrightarrow> 5 \<le> n"
  using bit_not_iff [of "15 :: int" n] bit_not_iff [of "31 :: int" n] by (simp_all add: mask_bits not_less)

lemma bit_twice: "bit (w * 2 :: u32) n \<longleftrightarrow> 0 < n \<and> n < 32 \<and> bit w (n - 1)"
  using bit_push_bit_iff [of 1 w n] by (auto simp: push_bit_eq_mult)

lemma bit_masked: "n < 32 \<Longrightarrow> bit (w AND 1 :: u32) n \<longleftrightarrow> n = 0 \<and> bit w 0"
  by (auto simp: bit_and_iff bit_1_iff)

lemma bit_row:
  assumes "n < 32"
  shows "bit (bridge_row False w) n \<longleftrightarrow> (if n < 3 then bit w (n + 1) else if n = 3 then bit w 0 else bit w n)"
    and "bit (bridge_row True w) n \<longleftrightarrow> (if n = 0 then bit w 3 else if n < 4 then bit w (n - 1) else bit w n)"
  using assms by (auto simp: bridge_row_def bit_or_iff bit_and_iff bit_push_bit_iff bit_drop_bit_eq mask_bits
      not_mask_bits bit_twice bit_1_iff)

lemma bit_col:
  assumes "n < 32"
  shows "bit (bridge_col False c) n \<longleftrightarrow> (if n = 0 then bit c 1 else if n = 1 then bit c 0
      else if n = 4 then bit c 2 else if n = 2 \<or> n = 3 then bit c (n + 1) else bit c n)"
    and "bit (bridge_col True c) n \<longleftrightarrow> (if n = 0 then bit c 1 else if n = 1 then bit c 0
      else if n = 2 then bit c 4 else if n = 3 \<or> n = 4 then bit c (n - 1) else bit c n)"
  using assms by (auto simp: bridge_col_def bit_or_iff bit_and_iff bit_push_bit_iff bit_drop_bit_eq mask_bits
      not_mask_bits bit_twice bit_1_iff)

lemma bit_beyond: "\<not> n < 32 \<Longrightarrow> \<not> bit (w :: u32) n"
  using bit_imp_le_length [of w n] by auto

lemma bridge_inverse:
  "bridge_row (\<not> inverted) (bridge_row inverted w) = w" "bridge_col (\<not> inverted) (bridge_col inverted w) = w"
proof -
  have b: "bit (bridge_row True (bridge_row False w)) n = bit w n" "bit (bridge_row False (bridge_row True w)) n = bit w n"
    "bit (bridge_col True (bridge_col False w)) n = bit w n" "bit (bridge_col False (bridge_col True w)) n = bit w n"
    if "n < 32" for n
    using that by (auto simp: bit_row bit_col less_Suc_eq numeral_eq_Suc)
  have "bridge_row True (bridge_row False w) = w" "bridge_row False (bridge_row True w) = w"
    "bridge_col True (bridge_col False w) = w" "bridge_col False (bridge_col True w) = w"
    by (rule bit_word_eqI, rule b, simp)+
  then show "bridge_row (\<not> inverted) (bridge_row inverted w) = w" "bridge_col (\<not> inverted) (bridge_col inverted w) = w"
    by (cases inverted; simp)+
qed

lemma bridge_high: "unat (bridge_row inverted w) div 16 = unat w div 16" "unat (bridge_col inverted w) div 32 = unat w div 32"
proof -
  have "bit (drop_bit 4 (bridge_row inverted w)) n = bit (drop_bit 4 w) n" for n
    by (cases "4 + n < 32"; cases inverted) (simp_all add: bit_drop_bit_eq bit_row bit_beyond)
  moreover have "bit (drop_bit 5 (bridge_col inverted w)) n = bit (drop_bit 5 w) n" for n
    by (cases "5 + n < 32"; cases inverted) (simp_all add: bit_drop_bit_eq bit_col bit_beyond)
  ultimately have "drop_bit 4 (bridge_row inverted w) = drop_bit 4 w" "drop_bit 5 (bridge_col inverted w) = drop_bit 5 w"
    by (simp_all add: bit_word_eqI)
  then show "unat (bridge_row inverted w) div 16 = unat w div 16" "unat (bridge_col inverted w) div 32 = unat w div 32"
    using unat_drop [of 4 "bridge_row inverted w"] unat_drop [of 4 w] unat_drop [of 5 "bridge_col inverted w"] unat_drop [of 5 w]
    by simp_all
qed

definition bridge_index :: "bool \<Rightarrow> nat \<Rightarrow> nat" where
  "bridge_index inverted i = unat (bridge_row inverted (word_of_nat (i div 1024)) * 1024 +
     bridge_col inverted (word_of_nat (i mod 1024)))"

lemma bridge_bounds:
  "t < 640 \<Longrightarrow> unat (bridge_row inverted (word_of_nat t)) < 640"
  "c < 1024 \<Longrightarrow> unat (bridge_col inverted (word_of_nat c)) < 1024"
proof -
  assume "t < 640"
  then have "unat (bridge_row inverted (word_of_nat t)) div 16 < 40"
    by (simp add: bridge_high unat_word32_of_nat less_mult_imp_div_less)
  then show "unat (bridge_row inverted (word_of_nat t)) < 640" by simp
next
  assume "c < 1024"
  then have "unat (bridge_col inverted (word_of_nat c)) div 32 < 32"
    by (simp add: bridge_high unat_word32_of_nat less_mult_imp_div_less)
  then show "unat (bridge_col inverted (word_of_nat c)) < 1024" by simp
qed

lemma bridge_index_split:
  assumes "i < 655360"
  shows "bridge_index inverted i = unat (bridge_row inverted (word_of_nat (i div 1024))) * 1024 +
    unat (bridge_col inverted (word_of_nat (i mod 1024)))"
proof -
  let ?r = "bridge_row inverted (word_of_nat (i div 1024))" and ?c = "bridge_col inverted (word_of_nat (i mod 1024))"
  have b: "unat ?r < 640" "unat ?c < 1024"
    using assms by (auto intro: bridge_bounds)
  have "unat (?r * 1024) = unat ?r * 1024"
    using b by (subst unat_mult_lem [THEN iffD1]) auto
  then show ?thesis
    using b unfolding bridge_index_def by (subst unat_add_lem [THEN iffD1]) auto
qed

lemma bridge_index_ok:
  assumes "i < 655360"
  shows "bridge_index inverted i < 655360" "bridge_index (\<not> inverted) (bridge_index inverted i) = i"
proof -
  let ?r = "bridge_row inverted (word_of_nat (i div 1024))" and ?c = "bridge_col inverted (word_of_nat (i mod 1024))"
  have b: "unat ?r < 640" "unat ?c < 1024" and l: "i div 1024 < 640" "i mod 1024 < 1024"
    using assms by (auto intro: bridge_bounds)
  note s = bridge_index_split [OF assms, of inverted]
  show i: "bridge_index inverted i < 655360"
    using b by (simp add: s)
  have "bridge_index inverted i div 1024 = unat ?r" "bridge_index inverted i mod 1024 = unat ?c"
    using b by (simp_all add: s)
  then show "bridge_index (\<not> inverted) (bridge_index inverted i) = i"
    using l by (simp add: bridge_index_split [OF i] bridge_inverse unat_word32_of_nat)
qed

lemma concat_concat_grid: "concat (map (\<lambda>r. concat (map (F r) [0..<k])) [0..<m]) =
    concat (map (\<lambda>i. F (i div k) (i mod k)) [0..<m * k])"
proof -
  have "concat (map (\<lambda>r. concat (map (F r) [0..<k])) [0..<m]) = concat (concat (map (\<lambda>r. map (F r) [0..<k]) [0..<m]))"
    by (induction m) auto
  then show ?thesis
    by (simp only: concat_grid)
qed

lemma bridge_indices: "bridge inverted = concat (map (\<lambda>i. le32 (word_of_nat (bridge_index inverted i))) [0..<655360])"
  unfolding bridge_def concat_concat_grid bridge_index_def by simp

text \<open>The two bridges written beside the tables are inverse permutations: entry \<open>i\<close> of a bridge is
  an index of the grid, and the other bridge takes it back to \<open>i\<close>.\<close>

theorem bridges_invert:
  assumes "i < 655360"
  shows "bridge inverted = concat (map (\<lambda>k. le32 (word_of_nat (bridge_index inverted k))) [0..<655360]) \<and>
    bridge_index inverted i < 655360 \<and> bridge_index (\<not> inverted) (bridge_index inverted i) = i"
  using bridge_indices bridge_index_ok [OF assms] by blast

theorem bridges_invert_witness:
  "bridge_index True (bridge_index False 17) = 17 \<and> bridge_index False (bridge_index True 655359) = 655359"
  using bridges_invert [of 17 False] bridges_invert [of 655359 True] by simp

end
