(* ===== verification/ProtonExchange.thy ===== *)
theory ProtonExchange
  imports Errors Effects "HOL-Library.Multiset"
begin

text \<open>
  \<^verbatim>\<open>native/proton_exchange.rs\<close> over \<^verbatim>\<open>publish\<close> and \<^verbatim>\<open>exchange\<close> of \<^verbatim>\<open>native/transaction.rs\<close>: the
  restartable exchange of the game's Wine prefix with a prepared one. The three directories are
  entries of a small tree, and a script says how each rename ends: done, refused, or done but not
  confirmed because syncing the parent failed. A crash between two steps is a script whose next
  rename is refused, since nothing is done after either.
\<close>

section \<open>Directories\<close>

datatype place = Prefix | Backup | Holding

text \<open>An entry is a directory with its identity (device and inode) or something else.\<close>

datatype 'i node = Dir 'i | Other

datatype outcome = Done | Refused "int option" | Unsynced "int option"

record 'i tree =
  entry_at :: "place \<Rightarrow> 'i node option"
  script :: "outcome list"

type_synonym ('i, 'a) act = "('i tree, error, 'a) eff"

definition exists :: "place \<Rightarrow> 'i tree \<Rightarrow> bool" where
  "exists p t \<longleftrightarrow> entry_at t p \<noteq> None"

definition next_outcome :: "('i, outcome) act" where
  "next_outcome t = (Inr (case script t of [] \<Rightarrow> Done | x # _ \<Rightarrow> x), t\<lparr>script := tl (script t)\<rparr>)"

definition settle :: "outcome \<Rightarrow> ('i, unit) act" where
  "settle x = (case x of Done \<Rightarrow> eret () | Refused n \<Rightarrow> efail (Io n) | Unsynced n \<Rightarrow> efail (Io n))"

text \<open>\<^verbatim>\<open>transaction::publish\<close>, a rename that never replaces, and \<^verbatim>\<open>transaction::exchange\<close>.\<close>

definition publish :: "place \<Rightarrow> place \<Rightarrow> ('i, unit) act" where
  "publish source destination =
     ebind next_outcome (\<lambda>x.
     case x of Refused n \<Rightarrow> efail (Io n)
     | _ \<Rightarrow>
       ebind (eget (exists source)) (\<lambda>there.
       if \<not> there then efail (Io (Some 2)) else
       ebind (eget (exists destination)) (\<lambda>taken.
       if taken then efail (Io (Some 17)) else
       eseq (emod (\<lambda>t. t\<lparr>entry_at := (entry_at t)(destination := entry_at t source, source := None)\<rparr>))
       (settle x))))"

definition swap :: "place \<Rightarrow> place \<Rightarrow> ('i, unit) act" where
  "swap a b =
     ebind next_outcome (\<lambda>x.
     case x of Refused n \<Rightarrow> efail (Io n)
     | _ \<Rightarrow>
       ebind (eget (\<lambda>t. exists a t \<and> exists b t)) (\<lambda>there.
       if \<not> there then efail (Io (Some 2)) else
       eseq (emod (\<lambda>t. t\<lparr>entry_at := (entry_at t)(a := entry_at t b, b := entry_at t a)\<rparr>))
       (settle x)))"

section \<open>The exchange\<close>

definition CHANGED :: string where
  "CHANGED = ''Proton prefix identity changed.''"

definition identity :: "place \<Rightarrow> ('i, 'i option) act" where
  "identity p =
     ebind (eget (\<lambda>t. entry_at t p)) (\<lambda>e.
     case e of None \<Rightarrow> eret None | Some (Dir i) \<Rightarrow> eret (Some i) | Some Other \<Rightarrow> efail (Io (Some 20)))"

text \<open>\<open>vet p present\<close> stands for the checks of one path: \<^verbatim>\<open>proton::managed\<close> of its parent and, when it
  exists, \<^verbatim>\<open>proton::managed\<close> and \<^verbatim>\<open>wine_processes::idle\<close> of the path.\<close>

definition vet_all :: "(place \<Rightarrow> bool \<Rightarrow> error + unit) \<Rightarrow> ('i, unit) act" where
  "vet_all vet = efor (\<lambda>p _. ebind (eget (exists p)) (\<lambda>present. elift (vet p present))) [Prefix, Backup, Holding] ()"

definition fallback :: "error \<Rightarrow> bool" where
  "fallback e \<longleftrightarrow> (case e of Io (Some n) \<Rightarrow> n = 22 \<or> n = 38 \<or> n = 95 | _ \<Rightarrow> False)"

definition check :: "bool \<Rightarrow> ('i, unit) act" where
  "check c = elift (require c CHANGED)"

definition identities :: "('i, 'i option \<times> 'i option \<times> 'i option) act" where
  "identities = ebind (identity Prefix) (\<lambda>p. ebind (identity Backup) (\<lambda>b. ebind (identity Holding) (\<lambda>h.
     eret (p, b, h))))"

text \<open>The two steps after the prefix has been put aside, each run when its target is missing, and the
  final check.\<close>

definition restore :: "place \<Rightarrow> place \<Rightarrow> place \<Rightarrow> 'i \<Rightarrow> 'i \<Rightarrow> ('i, unit) act" where
  "restore missing from_place known before after =
     ebind (eget (exists missing)) (\<lambda>there.
     if there then eret ()
     else ebind (identity known) (\<lambda>k. ebind (identity Holding) (\<lambda>h.
       eseq (check (k = Some after \<and> h = Some before)) (publish from_place missing))))"

definition finish_exchange :: "'i \<Rightarrow> 'i \<Rightarrow> ('i, unit) act" where
  "finish_exchange before after =
     eseq (restore Prefix Backup Backup before after)
     (eseq (restore Backup Holding Prefix before after)
     (ebind (identity Prefix) (\<lambda>p. ebind (identity Backup) (\<lambda>b.
       check (p = Some after \<and> b = Some before)))))"

definition exchange_with ::
  "(place \<Rightarrow> bool \<Rightarrow> error + unit) \<Rightarrow> (place \<Rightarrow> place \<Rightarrow> ('i, unit) act) \<Rightarrow> 'i \<Rightarrow> 'i \<Rightarrow> ('i, unit) act" where
  "exchange_with vet atomic before after =
     eseq (vet_all vet)
     (eseq (check (before \<noteq> after))
     (ebind identities (\<lambda>state.
     let original = (Some before, Some after, None); first = (None, Some after, Some before);
         second = (Some after, None, Some before); complete = (Some after, Some before, None) in
     eseq (check (state \<in> {original, first, second, complete}))
     (if state = complete then eret ()
      else if state = original then
        ebind (etry (atomic Prefix Backup)) (\<lambda>r.
        case r of Inr _ \<Rightarrow> eret ()
        | Inl e \<Rightarrow>
            if fallback e then eseq (publish Prefix Holding) (finish_exchange before after) else efail e)
      else finish_exchange before after))))"

definition exchange :: "(place \<Rightarrow> bool \<Rightarrow> error + unit) \<Rightarrow> 'i \<Rightarrow> 'i \<Rightarrow> ('i, unit) act" where
  "exchange vet = exchange_with vet swap"

section \<open>States of an exchange\<close>

datatype stage = Original | First | Second | Complete

definition holds :: "'i \<Rightarrow> 'i \<Rightarrow> stage \<Rightarrow> 'i tree \<Rightarrow> bool" where
  "holds before after g t \<longleftrightarrow>
     (entry_at t Prefix, entry_at t Backup, entry_at t Holding) =
     (case g of Original \<Rightarrow> (Some (Dir before), Some (Dir after), None)
      | First \<Rightarrow> (None, Some (Dir after), Some (Dir before))
      | Second \<Rightarrow> (Some (Dir after), None, Some (Dir before))
      | Complete \<Rightarrow> (Some (Dir after), Some (Dir before), None))"

definition staged :: "'i \<Rightarrow> 'i \<Rightarrow> 'i tree \<Rightarrow> bool" where
  "staged before after t \<longleftrightarrow> (\<exists>g. holds before after g t)"

text \<open>No rename was done and then reported as unsupported; the finding below shows why it matters.\<close>

definition honest :: "'i tree \<Rightarrow> bool" where
  "honest t \<longleftrightarrow> (\<forall>n. Unsynced n \<in> set (script t) \<longrightarrow> \<not> fallback (Io n))"

lemma holds_sel:
  "holds b a Original t \<longleftrightarrow> entry_at t Prefix = Some (Dir b) \<and> entry_at t Backup = Some (Dir a) \<and> entry_at t Holding = None"
  "holds b a First t \<longleftrightarrow> entry_at t Prefix = None \<and> entry_at t Backup = Some (Dir a) \<and> entry_at t Holding = Some (Dir b)"
  "holds b a Second t \<longleftrightarrow> entry_at t Prefix = Some (Dir a) \<and> entry_at t Backup = None \<and> entry_at t Holding = Some (Dir b)"
  "holds b a Complete t \<longleftrightarrow> entry_at t Prefix = Some (Dir a) \<and> entry_at t Backup = Some (Dir b) \<and> entry_at t Holding = None"
  by (simp_all add: holds_def)

lemma holds_script [simp]: "holds b a g (t\<lparr>script := x\<rparr>) = holds b a g t"
  by (simp add: holds_def)

lemma wp_identity [wp_simps]: "wp (identity p) Q E t = (case entry_at t p of None \<Rightarrow> Q None t
    | Some (Dir i) \<Rightarrow> Q (Some i) t | Some Other \<Rightarrow> E (Io (Some 20)) t)"
  by (simp add: identity_def wp_simps split: option.split node.split)

lemma wp_check [wp_simps]: "wp (check c) Q E t = (if c then Q () t else E (Invalid CHANGED) t)"
  by (simp add: check_def wp_simps require_def)

lemma wp_vet: "(\<And>u. Q u t) \<Longrightarrow> (\<And>e. E e t) \<Longrightarrow> wp (vet_all vet) Q E t"
  by (simp add: vet_all_def wp_simps split: sum.split)

text \<open>One rename moves an exchange on by one stage or leaves it; it succeeds only with the move, and a
  script that is all done succeeds.\<close>

definition calm :: "'i tree \<Rightarrow> bool" where
  "calm t \<longleftrightarrow> set (script t) \<subseteq> {Done}"

definition moves :: "stage \<Rightarrow> place \<times> place \<Rightarrow> stage option" where
  "moves g r = (if g = Original \<and> r = (Prefix, Holding) then Some First
     else if g = First \<and> r = (Backup, Prefix) then Some Second
     else if g = Second \<and> r = (Holding, Backup) then Some Complete else None)"

lemma next_script: "honest t \<Longrightarrow> honest (t\<lparr>script := tl (script t)\<rparr>)"
  "calm t \<Longrightarrow> calm (t\<lparr>script := tl (script t)\<rparr>)"
  by (cases "script t"; simp add: honest_def calm_def)+

lemma wp_next [wp_simps]:
  "wp next_outcome Q E t = Q (case script t of [] \<Rightarrow> Done | x # _ \<Rightarrow> x) (t\<lparr>script := tl (script t)\<rparr>)"
  by (simp add: wp_def next_outcome_def)

lemma wp_settle [wp_simps]:
  "wp (settle x) Q E t = (case x of Done \<Rightarrow> Q () t | Refused n \<Rightarrow> E (Io n) t | Unsynced n \<Rightarrow> E (Io n) t)"
  by (simp add: settle_def wp_simps split: outcome.split)

text \<open>What a rename has to prove: its outcome is done, refused with the tree as it was, or unsynced.\<close>

lemma wp_outcome:
  assumes "Q Done" "\<And>n. \<not> calm t \<Longrightarrow> Q (Refused n)" "\<And>n. \<not> calm t \<Longrightarrow> Unsynced n \<in> set (script t) \<Longrightarrow> Q (Unsynced n)"
  shows "Q (case script t of [] \<Rightarrow> Done | x # _ \<Rightarrow> x)"
proof (cases "script t")
  case (Cons x xs)
  then show ?thesis using assms by (cases x) (auto simp: calm_def)
qed (use assms in simp)

lemma wp_publish:
  assumes "holds b a g t" "moves g (p, q) = Some g'" "honest t"
    and moved: "\<And>u. holds b a g' u \<Longrightarrow> honest u \<Longrightarrow> (calm t \<Longrightarrow> calm u) \<Longrightarrow> Q () u"
    and failed: "\<And>e u k. holds b a k u \<Longrightarrow> honest u \<Longrightarrow> \<not> calm t \<Longrightarrow> E e u"
  shows "wp (publish p q) Q E t"
proof -
  let ?t = "t\<lparr>script := tl (script t)\<rparr>"
  let ?u = "?t\<lparr>entry_at := (entry_at ?t)(q := entry_at ?t p, p := None)\<rparr>"
  have m: "exists p ?t" "\<not> exists q ?t" "holds b a g' ?u" "holds b a g ?t"
    using assms(1,2) by (auto simp: moves_def holds_sel exists_def split: if_splits)
  have h: "honest ?t" "honest ?u" "calm t \<Longrightarrow> calm ?u"
    using next_script [of t] assms(3) by (auto simp: honest_def calm_def)
  show ?thesis
    unfolding publish_def wp_ebind wp_next
    by (rule wp_outcome [where t = t])
      (use m(1,2) moved [OF m(3) h(2,3)] failed [OF m(3) h(2)] failed [OF m(4) h(1)] in \<open>simp_all add: wp_simps\<close>)
qed

text \<open>The interface of the one-step exchange, which the code takes as an argument: it exchanges the two
  profiles, or fails; when it fails with a number that means it is not supported, nothing has moved.\<close>

locale atomic_exchange =
  fixes atomic :: "place \<Rightarrow> place \<Rightarrow> ('i, unit) act"
  assumes law: "holds b a Original t \<Longrightarrow> honest t \<Longrightarrow>
    wp (atomic Prefix Backup) (\<lambda>_ u. holds b a Complete u \<and> honest u \<and> (calm t \<longrightarrow> calm u))
      (\<lambda>e u. honest u \<and> (if fallback e then holds b a Original u \<and> (calm t \<longrightarrow> calm u) else \<not> calm t \<and> staged b a u)) t"

definition unsupported :: "place \<Rightarrow> place \<Rightarrow> ('i, unit) act" where
  "unsupported a b = efail (Io (Some 22))"

interpretation missing: atomic_exchange unsupported
  by unfold_locales (simp add: unsupported_def wp_simps fallback_def)

lemma wp_swap:
  assumes "holds b a Original t" "honest t"
  shows "wp (swap Prefix Backup) (\<lambda>_ u. holds b a Complete u \<and> honest u \<and> (calm t \<longrightarrow> calm u))
    (\<lambda>e u. honest u \<and> (if fallback e then holds b a Original u \<and> (calm t \<longrightarrow> calm u) else \<not> calm t \<and> staged b a u)) t"
proof -
  let ?t = "t\<lparr>script := tl (script t)\<rparr>"
  let ?u = "?t\<lparr>entry_at := (entry_at ?t)(Prefix := entry_at ?t Backup, Backup := entry_at ?t Prefix)\<rparr>"
  have m: "exists Prefix ?t" "exists Backup ?t" "holds b a Complete ?u" "holds b a Original ?t" "staged b a ?u" "staged b a ?t"
    using assms(1) by (auto simp: holds_sel exists_def staged_def intro: exI [of _ Complete] exI [of _ Original])
  have h: "honest ?t" "honest ?u" "calm t \<Longrightarrow> calm ?u"
    using next_script [of t] assms(2) by (auto simp: honest_def calm_def)
  have quiet: "Unsynced n \<in> set (script t) \<Longrightarrow> \<not> fallback (Io n)" for n
    using assms(2) by (simp add: honest_def)
  show ?thesis
    unfolding swap_def wp_ebind wp_next
    by (rule wp_outcome [where t = t]) (use m h quiet in \<open>simp_all add: wp_simps\<close>)
qed

interpretation renames: atomic_exchange swap
  by unfold_locales (rule wp_swap)

lemma wp_restore_move:
  assumes "holds b a g t" "honest t" "moves g (q, p) = Some g'" "g = First \<and> k = Backup \<or> g = Second \<and> k = Prefix"
    and "\<And>u. holds b a g' u \<Longrightarrow> honest u \<Longrightarrow> (calm t \<Longrightarrow> calm u) \<Longrightarrow> Q () u"
    and "\<And>e u k. holds b a k u \<Longrightarrow> honest u \<Longrightarrow> \<not> calm t \<Longrightarrow> E e u"
  shows "wp (restore p q k b a) Q E t"
proof -
  have "wp (publish q p) Q E t" by (rule wp_publish [OF assms(1,3,2)]) (fact assms(5), fact assms(6))
  then show ?thesis
    using assms(1,3,4) by (auto simp: restore_def wp_simps exists_def holds_sel moves_def split: if_splits)
qed

lemma wp_restore_skip: "exists p t \<Longrightarrow> Q () t \<Longrightarrow> wp (restore p q k b a) Q E t"
  by (simp add: restore_def wp_simps)

lemma wp_finish:
  assumes "holds b a g t" "honest t" "g \<noteq> Original"
    and ok: "\<And>u. holds b a Complete u \<Longrightarrow> honest u \<Longrightarrow> (calm t \<Longrightarrow> calm u) \<Longrightarrow> Q () u"
    and failed: "\<And>e u k. holds b a k u \<Longrightarrow> honest u \<Longrightarrow> \<not> calm t \<Longrightarrow> E e u"
  shows "wp (finish_exchange b a) Q E t"
proof -
  let ?last = "ebind (identity Prefix) (\<lambda>p. ebind (identity Backup) (\<lambda>k. check (p = Some a \<and> k = Some b)))"
  have last: "wp ?last Q E u" if "holds b a Complete u" "honest u" "calm t \<Longrightarrow> calm u" for u
    using that ok [of u] by (simp add: wp_simps holds_sel)
  have second: "wp (eseq (restore Backup Holding Prefix b a) ?last) Q E u"
    if "holds b a Second u" "honest u" "calm t \<Longrightarrow> calm u" for u
    unfolding wp_eseq
    by (rule wp_restore_move [OF that(1,2)]) (use last failed that(3) in \<open>auto simp: moves_def\<close>)
  show ?thesis
  proof (cases g)
    case First
    show ?thesis
      unfolding finish_exchange_def wp_eseq [of "restore Prefix Backup Backup b a"]
      by (rule wp_restore_move [OF assms(1,2)]) (use First second failed in \<open>auto simp: moves_def\<close>)
  next
    case Second
    then show ?thesis
      unfolding finish_exchange_def wp_eseq [of "restore Prefix Backup Backup b a"]
      by (intro wp_restore_skip second) (use assms(1,2) in \<open>auto simp: holds_sel exists_def\<close>)
  next
    case Complete
    then show ?thesis
      using assms(1) last [of t] assms(2)
      unfolding finish_exchange_def wp_eseq
      by (intro wp_restore_skip) (auto simp: holds_sel exists_def)
  qed (use assms(3) in simp)
qed

section \<open>Any exchange\<close>

definition passes :: "(place \<Rightarrow> bool \<Rightarrow> error + unit) \<Rightarrow> 'i tree \<Rightarrow> bool" where
  "passes vet t \<longleftrightarrow> (\<forall>p \<in> {Prefix, Backup, Holding}. vet p (exists p t) = Inr ())"

lemma wp_vet_passes: "Q () t \<Longrightarrow> (\<And>e. \<not> passes vet t \<Longrightarrow> E e t) \<Longrightarrow> wp (vet_all vet) Q E t"
  by (auto simp: vet_all_def wp_simps passes_def split: sum.split)

lemma wp_identities:
  "holds b a g t \<Longrightarrow> wp identities Q E t = Q (case g of Original \<Rightarrow> (Some b, Some a, None)
      | First \<Rightarrow> (None, Some a, Some b) | Second \<Rightarrow> (Some a, None, Some b) | Complete \<Rightarrow> (Some a, Some b, None)) t"
  by (cases g) (simp_all add: identities_def wp_simps holds_sel)

lemma identities_other:
  "\<not> staged b a t \<Longrightarrow> wp identities (\<lambda>x u. u = t \<and> x \<notin> {(Some b, Some a, None), (None, Some a, Some b),
      (Some a, None, Some b), (Some a, Some b, None)}) (\<lambda>_ u. u = t) t"
  by (auto simp: staged_def holds_def identities_def wp_simps split: option.splits node.splits)
    (metis stage.simps(13) stage.simps(14) stage.simps(15) stage.simps(16))+

lemma refused_exchange:
  assumes "\<not> staged b a t"
  shows "wp (exchange_with vet atomic b a) (\<lambda>_ _. False) (\<lambda>_ u. u = t) t"
proof -
  have "wp (ebind identities (\<lambda>state. eseq (check (state \<in> {(Some b, Some a, None), (None, Some a, Some b),
      (Some a, None, Some b), (Some a, Some b, None)})) (n state))) (\<lambda>_ _. False) (\<lambda>_ u. u = t) t" for n
    unfolding wp_ebind by (rule wp_mono [OF identities_other [OF assms]]) (auto simp: wp_simps)
  then show ?thesis
    unfolding exchange_with_def Let_def wp_eseq [of "vet_all vet"] wp_eseq [of "check (b \<noteq> a)"]
    by (intro wp_vet) (auto simp: wp_check)
qed

context atomic_exchange
begin

lemma wp_exchange:
  assumes "holds b a g t" "honest t"
    and ok: "\<And>u. holds b a Complete u \<Longrightarrow> honest u \<Longrightarrow> Q () u"
    and failed: "\<And>e u k. holds b a k u \<Longrightarrow> honest u \<Longrightarrow> \<not> (calm t \<and> passes vet t \<and> b \<noteq> a) \<Longrightarrow> E e u"
  shows "wp (exchange_with vet atomic b a) Q E t"
proof -
  have finish: "wp (finish_exchange b a) Q E u"
    if "holds b a k u" "honest u" "k \<noteq> Original" "calm t \<Longrightarrow> calm u" for k u
    by (rule wp_finish [OF that(1-3)]) (use ok failed that(4) in blast)+
  have step: "wp (eseq (publish Prefix Holding) (finish_exchange b a)) Q E u"
    if "holds b a Original u" "honest u" "calm t \<Longrightarrow> calm u" for u
    unfolding wp_eseq
  proof (rule wp_publish [OF that(1) _ that(2), of _ _ First])
    show "E e v" if "holds b a k v" "honest v" "\<not> calm u" for e v k
      using failed [OF that(1,2)] that(3) \<open>calm t \<Longrightarrow> calm u\<close> by blast
  qed (use finish that(3) in \<open>auto simp: moves_def\<close>)
  have one: "wp (ebind (etry (atomic Prefix Backup)) (\<lambda>r. case r of Inr _ \<Rightarrow> eret ()
      | Inl e \<Rightarrow> if fallback e then eseq (publish Prefix Holding) (finish_exchange b a) else efail e)) Q E t"
    if "g = Original"
    unfolding wp_ebind wp_etry
    by (rule wp_mono [OF law [of b a t]])
      (use that assms(1,2) ok step failed in \<open>auto simp: wp_simps staged_def split: if_splits\<close>)
  have tail: "wp (ebind identities (\<lambda>state.
      let original = (Some b, Some a, None); first = (None, Some a, Some b);
         second = (Some a, None, Some b); complete = (Some a, Some b, None) in
     eseq (check (state \<in> {original, first, second, complete}))
     (if state = complete then eret ()
      else if state = original then
        ebind (etry (atomic Prefix Backup)) (\<lambda>r.
        case r of Inr _ \<Rightarrow> eret ()
        | Inl e \<Rightarrow>
            if fallback e then eseq (publish Prefix Holding) (finish_exchange b a) else efail e)
      else finish_exchange b a))) Q E t" if "b \<noteq> a"
    unfolding wp_ebind wp_identities [OF assms(1)] Let_def
    using that one finish [OF assms(1,2)] ok assms(1,2)
    by (cases g) (simp_all add: wp_eseq wp_check wp_eret wp_ebind del: unit_abs_eta_conv)
  show ?thesis
    unfolding exchange_with_def wp_eseq
    by (rule wp_vet_passes) (use tail failed assms(1,2) in \<open>auto simp: wp_check\<close>)
qed

text \<open>Attempts: each may be stopped anywhere, and finds its own outcomes.\<close>

lemma attempt_staged:
  assumes "staged b a t" "honest t" "exchange_with vet atomic b a t = (r, u)"
  shows "staged b a u \<and> honest u \<and> (r = Inr () \<longrightarrow> holds b a Complete u)"
proof -
  obtain g where "holds b a g t" using assms(1) unfolding staged_def ..
  from wp_exchange [OF this assms(2), of "\<lambda>_ u. holds b a Complete u \<and> honest u" vet "\<lambda>_ u. staged b a u \<and> honest u"]
  have "wp (exchange_with vet atomic b a) (\<lambda>_ u. holds b a Complete u \<and> honest u) (\<lambda>_ u. staged b a u \<and> honest u) t"
    by (auto simp: staged_def)
  then show ?thesis
    using assms(3) by (cases r) (auto simp: wp_def staged_def)
qed

lemma attempt_calm:
  assumes "staged b a t" "calm t" "passes vet t" "b \<noteq> a"
  shows "\<exists>u. exchange_with vet atomic b a t = (Inr (), u) \<and> holds b a Complete u"
proof -
  obtain g where "holds b a g t" using assms(1) unfolding staged_def ..
  moreover have "honest t" using assms(2) by (auto simp: calm_def honest_def)
  ultimately have "wp (exchange_with vet atomic b a) (\<lambda>_ u. holds b a Complete u) (\<lambda>_ _. False) t"
    by (rule wp_exchange) (use assms in auto)
  then show ?thesis by (auto simp: wp_def split: prod.splits sum.splits)
qed

end

section \<open>Properties\<close>

text \<open>One attempt of the exchange, with the outcomes its renames meet.\<close>

definition attempt ::
  "(place \<Rightarrow> bool \<Rightarrow> error + unit) \<Rightarrow> 'i \<Rightarrow> 'i \<Rightarrow> outcome list \<Rightarrow> 'i tree \<Rightarrow> (error + unit) \<times> 'i tree" where
  "attempt vet before after outcomes t = exchange vet before after (t\<lparr>script := outcomes\<rparr>)"

inductive interrupted :: "'i \<Rightarrow> 'i \<Rightarrow> 'i tree \<Rightarrow> 'i tree \<Rightarrow> bool" for before after where
  none: "interrupted before after t t"
| more: "interrupted before after t u \<Longrightarrow> honest (u\<lparr>script := outcomes\<rparr>) \<Longrightarrow>
    attempt vet before after outcomes u = (r, v) \<Longrightarrow> interrupted before after t v"

lemma interrupted_staged: "interrupted b a t u \<Longrightarrow> staged b a t \<Longrightarrow> staged b a u"
proof (induction rule: interrupted.induct)
  case (more t u outcomes vet r v)
  have "staged b a (u\<lparr>script := outcomes\<rparr>)"
    using more.IH [OF more.prems] by (simp add: staged_def)
  from renames.attempt_staged [OF this more.hyps(2) more.hyps(3) [unfolded attempt_def exchange_def]]
  show ?case by simp
qed

lemma refused_result: "\<not> staged b a t \<Longrightarrow> exchange vet b a t = (r, u) \<Longrightarrow> r \<noteq> Inr () \<and> u = t"
  using refused_exchange [of b a t vet swap] by (cases r) (simp_all add: wp_def exchange_def)

section \<open>No profile is lost\<close>

text \<open>What lies in the three places, wherever.\<close>

definition profiles :: "'i tree \<Rightarrow> 'i node option multiset" where
  "profiles t = {#entry_at t Prefix, entry_at t Backup, entry_at t Holding#}"

lemma profiles_script [simp]: "profiles (t\<lparr>script := x\<rparr>) = profiles t"
  "profiles (t\<lparr>script := x, entry_at := f\<rparr>) = profiles (t\<lparr>entry_at := f\<rparr>)" "exists p (t\<lparr>script := x\<rparr>) = exists p t"
  by (simp_all add: profiles_def exists_def)

lemma profiles_next [keeps_intros]: "keeps profiles next_outcome"
  by (simp add: keeps_def next_outcome_def)

lemma profiles_settle [keeps_intros]: "keeps profiles (settle x)"
  unfolding settle_def by (cases x) (simp_all add: keeps_eret keeps_efail)

lemma profiles_moved:
  "exists p t \<Longrightarrow> \<not> exists q t \<Longrightarrow> profiles (t\<lparr>entry_at := (entry_at t)(q := entry_at t p, p := None)\<rparr>) = profiles t"
  "exists p t \<Longrightarrow> exists q t \<Longrightarrow> profiles (t\<lparr>entry_at := (entry_at t)(p := entry_at t q, q := entry_at t p)\<rparr>) = profiles t"
  by (cases p; cases q; auto simp: profiles_def exists_def)+

lemma profiles_publish [keeps_intros]: "keeps profiles (publish p q)"
  by (rule keepsI) (auto simp: publish_def settle_def wp_simps profiles_moved split: outcome.split)

lemma profiles_swap [keeps_intros]: "keeps profiles (swap p q)"
  by (rule keepsI) (auto simp: swap_def settle_def wp_simps profiles_moved split: outcome.split)

lemma profiles_identity [keeps_intros]: "keeps profiles (identity p)"
  by (rule keepsI) (simp add: wp_identity split: option.split node.split)

lemma profiles_check [keeps_intros]: "keeps profiles (check c)"
  unfolding check_def by (rule keeps_elift)

lemma profiles_exchange: "keeps profiles (exchange vet before after)"
  unfolding exchange_def exchange_with_def vet_all_def identities_def finish_exchange_def restore_def Let_def
  by (intro keeps_intros)

text \<open>C24. Whatever an attempt meets - a failed check, a refused or unsynced rename, an interruption
  between two steps - it loses and duplicates nothing: the same entries lie in the three places. If
  no rename was done and then reported as unsupported (errno 22, 38 or 95 from flushing a parent), it
  also leaves the two profiles in one of the four arrangements and reports success only when the
  prepared one is in place; and from any other arrangement it fails and moves nothing.\<close>

theorem exchange_keeps_profiles:
  assumes "exchange vet before after t = (r, u)"
  shows "profiles u = profiles t \<and>
    (honest t \<longrightarrow> (if staged before after t
       then staged before after u \<and> (r = Inr () \<longrightarrow> holds before after Complete u)
       else r \<noteq> Inr () \<and> u = t))"
proof (intro conjI impI)
  show "profiles u = profiles t" by (rule keepsD [OF profiles_exchange assms])
next
  assume h: "honest t"
  show "if staged before after t then staged before after u \<and> (r = Inr () \<longrightarrow> holds before after Complete u)
      else r \<noteq> Inr () \<and> u = t"
  proof (cases "staged before after t")
    case True
    then show ?thesis using renames.attempt_staged [OF _ h assms [unfolded exchange_def]] by simp
  next
    case False
    then show ?thesis using refused_result [OF _ assms] by simp
  qed
qed

text \<open>C25. After any number of interrupted attempts, in none of which a rename was done and then reported
  as unsupported (errno 22, 38 or 95 from flushing a parent), an attempt whose checks pass and whose
  renames work succeeds: the exchange can be finished.\<close>

theorem exchange_finishes:
  "staged before after t \<Longrightarrow> interrupted before after t u \<Longrightarrow> before \<noteq> after \<Longrightarrow> passes vet u \<Longrightarrow>
    \<exists>v. attempt vet before after [] u = (Inr (), v) \<and> holds before after Complete v"
proof -
  assume a: "staged before after t" "interrupted before after t u" "before \<noteq> after" "passes vet u"
  let ?u = "u\<lparr>script := []\<rparr>"
  have "staged before after ?u" using interrupted_staged [OF a(2,1)] by (simp add: staged_def)
  moreover have "calm ?u" "passes vet ?u" using a(4) by (simp_all add: calm_def passes_def exists_def)
  ultimately show ?thesis
    unfolding attempt_def exchange_def using a(3) by (rule renames.attempt_calm)
qed

section \<open>Examples\<close>

definition two_profiles :: "outcome list \<Rightarrow> nat tree" where
  "two_profiles outcomes = \<lparr>entry_at = (\<lambda>p. case p of Prefix \<Rightarrow> Some (Dir 1) | Backup \<Rightarrow> Some (Dir 2) | Holding \<Rightarrow> None),
     script = outcomes\<rparr>"

abbreviation pass :: "place \<Rightarrow> bool \<Rightarrow> error + unit" where
  "pass \<equiv> \<lambda>_ _. Inr ()"

lemmas exchange_simps = exchange_def exchange_with_def vet_all_def check_def identities_def identity_def
  finish_exchange_def restore_def publish_def swap_def next_outcome_def settle_def exists_def fallback_def
  require_def ebind_def eseq_def eret_def efail_def elift_def eget_def emod_def etry_def

lemma two_profiles: "staged 1 2 (two_profiles s)" "entry_at (two_profiles s) Prefix = Some (Dir 1)"
  "entry_at (two_profiles s) Backup = Some (Dir 2)" "entry_at (two_profiles s) Holding = None" "script (two_profiles s) = s"
  by (auto simp: staged_def holds_sel two_profiles_def intro: exI [of _ Original])

text \<open>The exchange is not supported, then the second rename is refused.\<close>

definition half_way :: "nat tree" where
  "half_way = snd (exchange pass 1 2 (two_profiles [Refused (Some 22), Done, Refused (Some 5)]))"

lemma half_way: "exchange pass 1 2 (two_profiles [Refused (Some 22), Done, Refused (Some 5)]) = (Inl (Io (Some 5)), half_way)"
  "holds 1 2 First half_way"
  by (simp_all add: half_way_def exchange_simps two_profiles holds_sel)

lemma exchange_keeps_profiles_witness: "staged 1 2 half_way \<and> \<not> holds 1 2 Complete half_way"
  using exchange_keeps_profiles [OF half_way(1)] half_way(2) two_profiles(1)
  by (simp add: honest_def two_profiles(5) holds_sel)

lemma half_way_interrupted: "interrupted 1 2 (two_profiles []) half_way"
  by (rule interrupted.more [OF interrupted.none, where outcomes = "[Refused (Some 22), Done, Refused (Some 5)]" and vet = pass])
    (use half_way(1) in \<open>auto simp: attempt_def two_profiles_def honest_def\<close>)

lemma exchange_finishes_witness:
  "\<exists>v. attempt pass 1 2 [] half_way = (Inr (), v) \<and> holds 1 2 Complete v"
  by (rule exchange_finishes [OF two_profiles(1) half_way_interrupted]) (simp_all add: passes_def)

text \<open>An exchange that was done and whose \<^verbatim>\<open>sync_all\<close> is then reported as unsupported takes the fallback:
  the new profile is moved away, and every later attempt refuses the arrangement.\<close>

definition misplaced :: "nat tree" where
  "misplaced = snd (exchange pass 1 2 (two_profiles [Unsynced (Some 22)]))"

lemma unsynced_exchange_is_stuck:
  "entry_at misplaced Holding = Some (Dir 2) \<and> (\<forall>vet outcomes. fst (attempt vet 1 2 outcomes misplaced) \<noteq> Inr ())"
proof -
  have m: "entry_at misplaced Holding = Some (Dir 2)"
    by (simp add: misplaced_def exchange_simps two_profiles)
  have "\<not> staged 1 2 (misplaced\<lparr>script := outcomes\<rparr>)" for outcomes
    using m by (auto simp: staged_def holds_def split: stage.splits)
  then have "fst (attempt vet 1 2 outcomes misplaced) \<noteq> Inr ()" for vet outcomes
    unfolding attempt_def by (rule conjunct1 [OF refused_result [OF _ prod.collapse [symmetric]]])
  with m show ?thesis by blast
qed

end
