(* ===== verification/CloudStore.thy ===== *)
theory CloudStore
  imports CloudPolicy CloudWrite
begin

text \<open>
  \<^verbatim>\<open>native/cloud_fs.rs\<close> and the \<^verbatim>\<open>Local\<close> of \<^verbatim>\<open>native/cloud_import.rs\<close>: the private storage of one
  runtime as the cloud code sees it. A script decides how each system call ends, so every check of
  a folder, lock or lease that can fail does fail on some script. Files that hold JSON are their
  values, or garbage: \<^verbatim>\<open>serde_json\<close> reads back what it writes. Temporary names are not kept, for
  nothing reads them again.
\<close>

section \<open>Files\<close>

datatype 'a json_file = Parsed 'a | Garbage

datatype io_outcome = Fine | Refused failure | Unsynced failure

record backup_metadata =
  bm_schema :: nat
  bm_binding :: string
  bm_namespace :: string
  bm_existed :: bool
  bm_state_sha :: "string option"
  bm_generation :: u64
  bm_replacement_sha :: string
  bm_snapshot_sha :: "string option"

record backup_folder =
  manifest_file :: "backup_metadata json_file option"
  original_file :: "u8 list option"
  imported_file :: "u8 list option"
  stray_names :: "string list"

record pointer =
  pt_schema :: nat
  pt_binding :: string
  pt_namespace :: string
  pt_receipt :: string
  pt_sha :: string

record common_receipt =
  cr_schema :: nat
  cr_kind :: string
  cr_binding :: string
  cr_namespace :: string
  cr_backup :: string
  cr_imported_sha :: string
  cr_content :: string

record saved_blob =
  sb_name :: string
  sb_atom :: string
  sb_file :: string
  sb_size :: nat
  sb_sha :: string

record saved_container =
  sv_name :: string
  sv_display :: string
  sv_etag :: string
  sv_time :: u64
  sv_size :: nat
  sv_blobs :: "saved_blob list"

record manifest =
  mf_schema :: nat
  mf_binding :: string
  mf_consistency :: string
  mf_containers :: "saved_container list"

record snapshot_folder =
  manifest_bytes :: "u8 list option"
  blob_files :: "(string, u8 list) btree option"
  other_names :: "string list"

text \<open>The storage of one namespace. \<open>id_supply\<close> yields the random identifiers, \<open>drawn\<close> counts them.\<close>

record 'j store =
  enabled :: bool
  has_folder :: bool
  state_file :: "u8 list option"
  baseline_file :: "pointer json_file option"
  backups :: "(string, backup_folder) btree"
  receipts :: "(string, common_receipt json_file) btree"
  snapshots :: "(string, snapshot_folder) btree"
  journal :: "'j json_file option"
  id_supply :: "nat \<Rightarrow> string"
  drawn :: nat
  io_script :: "io_outcome list"

type_synonym ('j, 'a) act = "('j store, failure, 'a) eff"

text \<open>What the code takes from elsewhere: SHA-256, the reader of a manifest and of a UUID, and the
  digest of a receipt as it is written.\<close>

record kit =
  sha :: "u8 list \<Rightarrow> u8 list"
  manifest_of :: "u8 list \<Rightarrow> manifest option"
  receipt_sha :: "common_receipt json_file \<Rightarrow> string"
  uuid_of :: "string \<Rightarrow> string option"

definition local_failure :: failure where
  "local_failure = Failure ''local_storage''"

section \<open>System calls\<close>

definition next_io :: "('j, io_outcome) act" where
  "next_io s = (Inr (case io_script s of [] \<Rightarrow> Fine | x # _ \<Rightarrow> x), s\<lparr>io_script := tl (io_script s)\<rparr>)"

definition io :: "('j, unit) act" where
  "io = ebind next_io (\<lambda>x. case x of Fine \<Rightarrow> eret () | Refused f \<Rightarrow> efail f | Unsynced f \<Rightarrow> efail f)"

text \<open>A rename or link and the flush of its folder: a failed flush comes after the change.\<close>

definition landing :: "('j store \<Rightarrow> 'j store) \<Rightarrow> ('j, unit) act" where
  "landing change = ebind next_io (\<lambda>x. case x of Refused f \<Rightarrow> efail f
     | Fine \<Rightarrow> emod change | Unsynced f \<Rightarrow> eseq (emod change) (efail f))"

definition io_as :: "string \<Rightarrow> ('j, unit) act" where
  "io_as c = ebind (etry io) (\<lambda>r. case r of Inl _ \<Rightarrow> efail (Failure c) | Inr _ \<Rightarrow> eret ())"

definition check_lease :: "('j, unit) act" where
  "check_lease = io_as ''invalid_lock''"

definition check_cancel :: "('j, unit) act" where
  "check_cancel = io_as ''cancelled''"

definition new_id :: "string \<Rightarrow> ('j, string) act" where
  "new_id p s = (Inr (p @ id_supply s (drawn s)), s\<lparr>drawn := drawn s + 1\<rparr>)"

definition need :: "bool \<Rightarrow> string \<Rightarrow> ('j, unit) act" where
  "need c m = elift (cloud_require c m)"

definition some_file :: "'a option \<Rightarrow> ('j, 'a) act" where
  "some_file f = eseq io (elift (ok_or f local_failure))"

definition bounded_file :: "nat \<Rightarrow> u8 list option \<Rightarrow> ('j, u8 list) act" where
  "bounded_file maximum f =
     ebind (some_file f) (\<lambda>b. eseq (need (length b \<le> maximum) ''unsupported'') (eret b))"

definition parsed :: "'a json_file \<Rightarrow> ('j, 'a) act" where
  "parsed f = elift (case f of Parsed x \<Rightarrow> Inr x | Garbage \<Rightarrow> Inl (Failure ''invalid_response''))"

section \<open>The local save\<close>

definition MAX_STATE :: nat where
  "MAX_STATE = QUOTA + METADATA_LIMIT + 32"

definition no_state :: state where
  "no_state = \<lparr>generation = 0, containers = []\<rparr>"

definition import_encode :: "kit \<Rightarrow> state \<Rightarrow> failure + u8 list" where
  "import_encode K st = map_err (\<lambda>_. Failure ''unsupported'') (encode (sha K) st)"

definition import_decode :: "kit \<Rightarrow> u8 list \<Rightarrow> failure + state" where
  "import_decode K raw = map_err (\<lambda>_. Failure ''unsupported'') (decode (sha K) raw)"

definition decode_or_default :: "kit \<Rightarrow> u8 list option \<Rightarrow> failure + state" where
  "decode_or_default K raw = (case raw of None \<Rightarrow> Inr no_state | Some b \<Rightarrow> import_decode K b)"

definition raw_digest :: "kit \<Rightarrow> u8 list option \<Rightarrow> string" where
  "raw_digest K raw = (case raw of None \<Rightarrow> ''missing'' | Some b \<Rightarrow> sha256_hex (sha K) b)"

definition recheck :: "bool \<Rightarrow> ('j, unit) act" where
  "recheck leased = eseq (if leased then check_lease else eret ()) io"

text \<open>A folder that is created is empty.\<close>

definition add_folder :: "'j store \<Rightarrow> 'j store" where
  "add_folder s = (if has_folder s then s else s\<lparr>has_folder := True, state_file := None, baseline_file := None\<rparr>)"

text \<open>\<^verbatim>\<open>Local::open\<close>. Only one is open in the process at a time; another is one of the failures.\<close>

definition open_local :: "bool \<Rightarrow> bool \<Rightarrow> string \<Rightarrow> ('j, unit) act" where
  "open_local leased create namespace =
     eseq (need (hex_digest namespace) ''invalid_scope'')
     (eseq io
     (ebind (eget enabled) (\<lambda>on. eseq (need on ''unsupported'')
     (eseq (if leased then check_lease else need (\<not> create) ''invalid_lock'')
     (eseq io
     (ebind (eget has_folder) (\<lambda>there.
     if \<not> create \<and> \<not> there then eret ()
     else eseq io (eseq (emod add_folder) (eseq io (recheck leased))))))))))"

definition stored_state :: "'j store \<Rightarrow> u8 list option" where
  "stored_state s = (if has_folder s then state_file s else None)"

definition local_state :: "kit \<Rightarrow> ('j, u8 list option \<times> state) act" where
  "local_state K =
     ebind (eget has_folder) (\<lambda>there.
     ebind (eget stored_state) (\<lambda>raw.
     eseq (if \<not> there then eret () else if raw = None then io else eseq (bounded_file MAX_STATE raw) (eret ()))
     (ebind (elift (decode_or_default K raw)) (\<lambda>st. eret (raw, st)))))"

definition commit_local :: "kit \<Rightarrow> bool \<Rightarrow> string \<Rightarrow> u8 list \<Rightarrow> ('j, bool) act" where
  "commit_local K leased previous encoded =
     ebind (eget has_folder) (\<lambda>there. eseq (need there ''local_storage'')
     (eseq io
     (eseq check_cancel
     (ebind (local_state K) (\<lambda>(fresh, _).
     eseq (need (raw_digest K fresh = previous) ''changed'')
     (eseq (need leased ''invalid_lock'')
     (eseq (recheck leased)
     (ebind next_io (\<lambda>x. case x of Refused f \<Rightarrow> efail f
       | _ \<Rightarrow> eseq (emod (\<lambda>s. s\<lparr>state_file := Some encoded\<rparr>)) (eret (x = Fine)))))))))))"

end
