(* ===== verification/CloudSnapshot.thy ===== *)
theory CloudSnapshot
  imports CloudStore
begin

text \<open>
  \<^verbatim>\<open>snapshot\<close> of \<^verbatim>\<open>native/cloud_import.rs\<close>: a downloaded copy of the cloud saves is read back and
  checked entry by entry before anything is taken from it.
\<close>

record snapshot =
  sn_path :: "string list"
  sn_binding :: string
  sn_containers :: nat
  sn_blobs :: nat
  sn_bytes :: nat
  sn_consistency :: string

record cached_container =
  cc_metadata :: cloud_container
  cc_blobs :: "(atom \<times> u8 list) list"

record cache =
  ca_binding :: string
  ca_containers :: "(string, cached_container) btree"

record validated =
  v_state :: state
  v_digest :: string
  v_cache :: cache

definition snapshot_consistency :: string where
  "snapshot_consistency = ''rechecked-unlocked''"

text \<open>\<^verbatim>\<open>format!("{count:08x}.bin")\<close>; the count stays below 2 ^ 32.\<close>

definition blob_file_name :: "nat \<Rightarrow> string" where
  "blob_file_name n = hex_encode (be32 (word_of_nat n)) @ ''.bin''"

definition saved_metadata :: "saved_container \<Rightarrow> cloud_container" where
  "saved_metadata r = \<lparr>name = sv_name r, display = sv_display r, etag = sv_etag r,
     client_file_time = unat (sv_time r), csize = sv_size r\<rparr>"

definition snapshot_require :: "bool \<Rightarrow> failure + unit" where
  "snapshot_require c = cloud_require c ''invalid_snapshot''"

record reading =
  rd_count :: nat
  rd_total :: nat
  rd_size :: nat
  rd_entry :: "(string, u8 list) btree"
  rd_atoms :: "string list"
  rd_cached :: "(atom \<times> u8 list) list"

definition snapshot_blob ::
  "kit \<Rightarrow> (string, u8 list) btree \<Rightarrow> saved_blob \<Rightarrow> reading \<Rightarrow> failure + reading" where
  "snapshot_blob K files b g =
     rbind (snapshot_require (sb_size b \<le> 67108864 \<and> hex_digest (sb_sha b) \<and>
       sb_file b = ''blobs/'' @ blob_file_name (rd_count g) \<and> guid (sb_atom b))) (\<lambda>_.
     rbind (map_err (\<lambda>_. Failure ''invalid_snapshot'') (save_name (sb_name b) False)) (\<lambda>_.
     rbind (snapshot_require (\<not> bt_has (rd_entry g) (sb_name b) \<and> ascii_lower (sb_atom b) \<notin> set (rd_atoms g))) (\<lambda>_.
     rbind (ok_or (bt_get files (blob_file_name (rd_count g))) local_failure) (\<lambda>payload.
     rbind (cloud_require (length payload \<le> sb_size b) ''unsupported'') (\<lambda>_.
     rbind (snapshot_require (length payload = sb_size b \<and> sha256_hex (sha K) payload = sb_sha b)) (\<lambda>_.
     rbind (cloud_require (rd_count g + 1 \<le> BLOB_LIMIT \<and> rd_total g + length payload \<le> QUOTA) ''unsupported'') (\<lambda>_.
     Inr \<lparr>rd_count = rd_count g + 1, rd_total = rd_total g + length payload,
       rd_size = rd_size g + length payload, rd_entry = bt_put (sb_name b) payload (rd_entry g),
       rd_atoms = ascii_lower (sb_atom b) # rd_atoms g,
       rd_cached = rd_cached g @
         [(\<lparr>atom_id = sb_atom b, atom_name = sb_name b, atom_size = Some (sb_size b)\<rparr>, payload)]\<rparr>)))))))"

type_synonym assembled = "(string, container) btree \<times> (string, cached_container) btree \<times> nat \<times> nat"

definition snapshot_row ::
  "kit \<Rightarrow> (string, u8 list) btree \<Rightarrow> saved_container \<Rightarrow> assembled \<Rightarrow> failure + assembled" where
  "snapshot_row K files r = (\<lambda>(cs, cached, count, tot).
     rbind (ok_or (strip_suffix '',savedgame'' (sv_name r)) (Failure ''invalid_snapshot'')) (\<lambda>n.
     rbind (map_err (\<lambda>_. Failure ''invalid_snapshot'') (save_name n True)) (\<lambda>_.
     rbind (snapshot_require (\<not> bt_has cs n \<and> sv_etag r \<noteq> [] \<and> length (sv_etag r) \<le> 1024 \<and>
       sv_size r \<le> QUOTA \<and> length (sv_blobs r) \<le> BLOB_LIMIT - count)) (\<lambda>_.
     rbind (cloud_require (11644473600 \<le> unat (sv_time r) div 10000000) ''unsupported'') (\<lambda>_.
     rbind (rfold (snapshot_blob K files) (sv_blobs r)
       \<lparr>rd_count = count, rd_total = tot, rd_size = 0, rd_entry = [], rd_atoms = [], rd_cached = []\<rparr>) (\<lambda>g.
     rbind (snapshot_require (rd_size g = sv_size r)) (\<lambda>_.
     Inr (bt_put n \<lparr>display_name = sv_display r, modified = sv_time r div 10000000 - 11644473600,
            blobs = rd_entry g\<rparr> cs,
          bt_put (sv_name r) \<lparr>cc_metadata = saved_metadata r,
            cc_blobs = sort_key (\<lambda>a. atom_name (fst a)) (rd_cached g)\<rparr> cached,
          rd_count g, rd_total g))))))))"

definition folder_names :: "snapshot_folder \<Rightarrow> string list" where
  "folder_names f = sorted_set ((if manifest_bytes f = None then [] else [''manifest.json'']) @
     (if blob_files f = None then [] else [''blobs'']) @ other_names f)"

definition verify_snapshot :: "kit \<Rightarrow> string \<Rightarrow> snapshot \<Rightarrow> snapshot_folder \<Rightarrow> failure + validated" where
  "verify_snapshot K b sn f =
     rbind (ok_or (manifest_bytes f) local_failure) (\<lambda>raw.
     rbind (cloud_require (length raw \<le> METADATA_LIMIT) ''unsupported'') (\<lambda>_.
     rbind (ok_or (manifest_of K raw) (Failure ''invalid_response'')) (\<lambda>m.
     rbind (snapshot_require (mf_schema m = 1 \<and> mf_binding m = b \<and> mf_consistency m = snapshot_consistency \<and>
       length (mf_containers m) \<le> CONTAINER_LIMIT)) (\<lambda>_.
     rbind (ok_or (blob_files f) local_failure) (\<lambda>files.
     rbind (rfold (snapshot_row K files) (mf_containers m) ([], [], 0, 0)) (\<lambda>(cs, cached, count, tot).
     rbind (snapshot_require (sn_containers sn = length cs \<and> sn_blobs sn = count \<and> sn_bytes sn = tot \<and>
       folder_names f = sorted_set [''manifest.json'', ''blobs''] \<and>
       sorted_set (bt_keys files) = sorted_set (map blob_file_name [0..<count]))) (\<lambda>_.
     let st = \<lparr>generation = 0, containers = cs\<rparr> in
     rbind (import_encode K st) (\<lambda>_.
     Inr \<lparr>v_state = st, v_digest = sha256_hex (sha K) raw,
       v_cache = \<lparr>ca_binding = b, ca_containers = cached\<rparr>\<rparr>))))))))"

definition snapshot_failure :: "failure \<Rightarrow> failure" where
  "snapshot_failure e = (if code e = ''invalid_scope'' \<or> code e = ''unsupported'' then e else Failure ''invalid_snapshot'')"

definition read_snapshot :: "kit \<Rightarrow> string list \<Rightarrow> string \<Rightarrow> snapshot \<Rightarrow> ('j, validated) act" where
  "read_snapshot K runtime b sn =
     ebind (etry (
       eseq (need (sn_binding sn = b \<and> sn_consistency sn = snapshot_consistency) ''invalid_scope'')
       (eseq (need (sn_path sn \<noteq> [] \<and> butlast (sn_path sn) = runtime @ [''private'', ''cloud-saves''] \<and>
          cloud_identifier (last (sn_path sn)) ''snapshot-'') ''invalid_snapshot'')
       (eseq io
       (ebind (eget (\<lambda>s. bt_get (snapshots s) (last (sn_path sn)))) (\<lambda>f.
       ebind (elift (ok_or f local_failure)) (\<lambda>f.
       ebind (elift (verify_snapshot K b sn f)) (\<lambda>v.
       eseq io (eret v))))))))) (\<lambda>r.
     case r of Inr v \<Rightarrow> eret v | Inl e \<Rightarrow> efail (snapshot_failure e))"

end
