(* ===== verification/CloudImport.thy ===== *)
theory CloudImport
  imports CloudSnapshot
begin

text \<open>
  \<^verbatim>\<open>native/cloud_import.rs\<close>: comparing the local save with a snapshot, choosing what to keep, and
  writing the choice after a backup of what it replaces; restoring a backup; the common baseline
  that both sides agreed on last, with its receipts.
\<close>

section \<open>Plans\<close>

definition containers_of :: "kit \<Rightarrow> state \<Rightarrow> failure + (string, string) btree" where
  "containers_of K st = rfold (\<lambda>(n, c) m.
     rbind (import_digest (sha K) \<lparr>generation = 0, containers = [(n, c)]\<rparr>) (\<lambda>d. Inr (bt_put n d m)))
     (containers st) []"

record baseline =
  bl_binding :: string
  bl_containers :: "(string, string) btree"

definition baseline_of :: "kit \<Rightarrow> string \<Rightarrow> state \<Rightarrow> failure + baseline" where
  "baseline_of K b st = rbind (containers_of K st) (\<lambda>m. Inr \<lparr>bl_binding = b, bl_containers = m\<rparr>)"

definition baseline_save_set :: "baseline \<Rightarrow> failure + save_set" where
  "baseline_save_set bl = map_err failure_of_error (save_set_new (bl_binding bl) (bl_containers bl))"

record choice_row =
  cw_name :: string
  cw_action :: string
  cw_local :: bool
  cw_remote :: bool

record plan =
  pl_binding :: string
  pl_namespace :: string
  pl_local_digest :: string
  pl_remote_digest :: string
  pl_snapshot_digest :: string
  pl_generation :: u64
  pl_decisions :: "choice_row list"
  pl_runtime :: "string list"
  pl_snapshot :: snapshot
  pl_baseline :: "baseline option"
  pl_counts :: "nat \<times> nat \<times> nat \<times> nat"

definition choice_row :: "(string, string) btree \<Rightarrow> (string, string) btree \<Rightarrow>
    (string, string) btree option \<Rightarrow> string \<Rightarrow> choice_row" where
  "choice_row left right old n =
     (let a = bt_get left n; b = bt_get right n;
          previous = (case old of None \<Rightarrow> None | Some v \<Rightarrow> bt_get v n);
          act = (if a = b then ''unchanged''
            else if (old \<noteq> None \<and> a = previous) \<or> (old = None \<and> a = None) then ''cloud''
            else if old \<noteq> None \<and> b = previous then ''local''
            else ''conflict'')
      in \<lparr>cw_name = n, cw_action = act, cw_local = (a \<noteq> None), cw_remote = (b \<noteq> None)\<rparr>)"

definition choice_rows :: "(string, string) btree \<Rightarrow> (string, string) btree \<Rightarrow>
    (string, string) btree option \<Rightarrow> choice_row list" where
  "choice_rows left right old = map (choice_row left right old)
     (sorted_set (bt_keys left @ bt_keys right @ (case old of None \<Rightarrow> [] | Some v \<Rightarrow> bt_keys v)))"

definition plan_summary :: "plan \<Rightarrow> json" where
  "plan_summary p =
     (let n = (\<lambda>f. jnum (length (filter f (pl_decisions p)))) in
      case pl_counts p of (c, b, t, l) \<Rightarrow>
      JObj [(''local_exists'', JBool (pl_local_digest p \<noteq> ''missing'')), (''container_count'', jnum c),
        (''blob_count'', jnum b), (''total_bytes'', jnum t), (''local_container_count'', jnum l),
        (''add_count'', n (\<lambda>d. \<not> cw_local d \<and> cw_remote d)),
        (''replace_count'', n (\<lambda>d. cw_action d \<noteq> ''unchanged'' \<and> cw_local d \<and> cw_remote d)),
        (''delete_count'', n (\<lambda>d. cw_local d \<and> \<not> cw_remote d)),
        (''unchanged_count'', n (\<lambda>d. cw_action d = ''unchanged'')),
        (''conflict_count'', n (\<lambda>d. cw_action d = ''conflict''))])"

text \<open>Scope and namespace of a call: the runtime, the binding and the namespace key.\<close>

definition prepare :: "kit \<Rightarrow> string list \<Rightarrow> scope \<Rightarrow> snapshot \<Rightarrow> baseline option \<Rightarrow> ('j, plan) act" where
  "prepare K runtime sc sn bl =
     (let b = scope_binding (sha K) sc in
     ebind (elift (scope_namespace (sha K) (uuid_of K) sc)) (\<lambda>ns.
     eseq (need (case bl of None \<Rightarrow> True | Some v \<Rightarrow> bl_binding v = b) ''invalid_scope'')
     (ebind (read_snapshot K runtime b sn) (\<lambda>cloud.
     eseq (open_local False False ns)
     (ebind (local_state K) (\<lambda>(raw, st).
     ebind (elift (containers_of K st)) (\<lambda>left.
     ebind (elift (containers_of K (v_state cloud))) (\<lambda>right.
     ebind (elift (import_digest (sha K) (v_state cloud))) (\<lambda>rd.
     eret \<lparr>pl_binding = b, pl_namespace = ns, pl_local_digest = raw_digest K raw, pl_remote_digest = rd,
       pl_snapshot_digest = v_digest cloud, pl_generation = generation st,
       pl_decisions = choice_rows left right (map_option bl_containers bl), pl_runtime = runtime,
       pl_snapshot = sn, pl_baseline = bl,
       pl_counts = (sn_containers sn, sn_blobs sn, sn_bytes sn, length (containers st))\<rparr>)))))))))"

section \<open>Choosing\<close>

datatype choice = Automatic | ChooseCloud | ChooseLocal | Conflicts "(string, bool) btree"

definition pick :: "state \<Rightarrow> state \<Rightarrow> (string, bool) btree \<Rightarrow> choice_row \<Rightarrow>
    (string, container) btree \<Rightarrow> (string, container) btree" where
  "pick local cloud choices d m =
     (let from_cloud = (case bt_get choices (cw_name d) of Some c \<Rightarrow> c | None \<Rightarrow> cw_action d = ''cloud'') in
      case bt_get (containers (if from_cloud then cloud else local)) (cw_name d) of
        Some e \<Rightarrow> bt_put (cw_name d) e m | None \<Rightarrow> m)"

definition select :: "state \<Rightarrow> state \<Rightarrow> choice_row list \<Rightarrow> choice \<Rightarrow> failure + state" where
  "select local cloud rows ch = (case ch of
      ChooseCloud \<Rightarrow> Inr \<lparr>generation = generation local, containers = containers cloud\<rparr>
    | ChooseLocal \<Rightarrow> Inr local
    | _ \<Rightarrow>
      (let choices = (case ch of Conflicts c \<Rightarrow> c | _ \<Rightarrow> []);
           disputed = map cw_name (filter (\<lambda>d. cw_action d = ''conflict'') rows)
       in rbind (cloud_require (sorted_set (bt_keys choices) = sorted_set disputed) ''conflict'') (\<lambda>_.
          Inr \<lparr>generation = generation local, containers = fold (pick local cloud choices) rows []\<rparr>)))"

section \<open>Backups\<close>

text \<open>A backup is written under a temporary name and published whole.\<close>

definition backup :: "kit \<Rightarrow> string \<Rightarrow> string \<Rightarrow> u8 list option \<Rightarrow> u8 list \<Rightarrow> string option \<Rightarrow> ('j, string) act" where
  "backup K b ns raw replacement snap =
     eseq io
     (ebind (new_id ''backup-'') (\<lambda>n.
     ebind (new_id ''.backup-'') (\<lambda>temp.
     eseq io
     (ebind (elift (decode_or_default K raw)) (\<lambda>st.
     let meta = \<lparr>bm_schema = 1, bm_binding = b, bm_namespace = ns, bm_existed = (raw \<noteq> None),
           bm_state_sha = map_option (sha256_hex (sha K)) raw, bm_generation = generation st,
           bm_replacement_sha = sha256_hex (sha K) replacement, bm_snapshot_sha = snap\<rparr>;
         files = \<lparr>manifest_file = Some (Parsed meta), original_file = raw, imported_file = Some replacement,
           stray_names = []\<rparr> in
     eseq io
     (ebind (eget (\<lambda>s. bt_has (backups s) n)) (\<lambda>taken.
     if taken then efail local_failure
     else eseq (landing (\<lambda>s. s\<lparr>backups := bt_put n files (backups s)\<rparr>)) (eret n))))))))"

record backup_data =
  bd_metadata :: backup_metadata
  bd_original :: "u8 list option"
  bd_imported :: "u8 list"

definition backup_names :: "backup_folder \<Rightarrow> string list" where
  "backup_names f = sorted_set ((if manifest_file f = None then [] else [''manifest.json'']) @
     (if original_file f = None then [] else [''state.bin'']) @
     (if imported_file f = None then [] else [''imported.bin'']) @ stray_names f)"

definition backup_data :: "kit \<Rightarrow> string \<Rightarrow> string \<Rightarrow> string \<Rightarrow> ('j, backup_data) act" where
  "backup_data K b ns n =
     eseq (need (cloud_identifier n ''backup-'') ''invalid_plan'')
     (eseq io
     (ebind (eget (\<lambda>s. bt_get (backups s) n)) (\<lambda>f.
     ebind (elift (ok_or f local_failure)) (\<lambda>f.
     ebind (some_file (manifest_file f)) (\<lambda>file.
     ebind (parsed file) (\<lambda>meta.
     eseq (need (bm_schema meta = 1 \<and> bm_binding meta = b \<and> bm_namespace meta = ns \<and>
        hex_digest (bm_replacement_sha meta) \<and>
        (case bm_snapshot_sha meta of None \<Rightarrow> True | Some h \<Rightarrow> hex_digest h)) ''invalid_plan'')
     (eseq (need (backup_names f = sorted_set ([''manifest.json'', ''imported.bin''] @
        (if bm_existed meta then [''state.bin''] else []))) ''invalid_plan'')
     (ebind (if bm_existed meta then ebind (bounded_file MAX_STATE (original_file f)) (\<lambda>x. eret (Some x))
        else eret None) (\<lambda>original.
     ebind (bounded_file MAX_STATE (imported_file f)) (\<lambda>imported.
     eseq (need (map_option (sha256_hex (sha K)) original = bm_state_sha meta \<and>
        sha256_hex (sha K) imported = bm_replacement_sha meta) ''invalid_plan'')
     (ebind (elift (decode_or_default K original)) (\<lambda>before.
     eseq (need (generation before = bm_generation meta) ''invalid_plan'')
     (eseq (ebind (elift (import_decode K imported)) (\<lambda>_. eret ()))
     (eret \<lparr>bd_metadata = meta, bd_original = original, bd_imported = imported\<rparr>))))))))))))))"

section \<open>The common baseline\<close>

definition publish_common :: "kit \<Rightarrow> string \<Rightarrow> string \<Rightarrow> string \<Rightarrow> u8 list \<Rightarrow> string \<Rightarrow> ('j, unit) act" where
  "publish_common K b ns n encoded kind =
     eseq io
     (ebind (elift (import_decode K encoded)) (\<lambda>st.
     ebind (elift (import_digest (sha K) st)) (\<lambda>d.
     let file = Parsed \<lparr>cr_schema = 1, cr_kind = kind, cr_binding = b, cr_namespace = ns, cr_backup = n,
           cr_imported_sha = sha256_hex (sha K) encoded, cr_content = d\<rparr>;
         receipt_name = n @ ''.json'' in
     eseq io
     (ebind (eget (\<lambda>s. bt_has (receipts s) receipt_name)) (\<lambda>taken.
     if taken then efail local_failure
     else
       eseq (landing (\<lambda>s. s\<lparr>receipts := bt_put receipt_name file (receipts s)\<rparr>))
       (eseq io
       (landing (\<lambda>s. s\<lparr>baseline_file := Some (Parsed \<lparr>pt_schema = 1, pt_binding = b, pt_namespace = ns,
          pt_receipt = receipt_name, pt_sha = receipt_sha K file\<rparr>)\<rparr>))))))))"

definition common_baseline :: "kit \<Rightarrow> string \<Rightarrow> string \<Rightarrow> ('j, baseline option) act" where
  "common_baseline K b ns =
     eseq (open_local False False ns)
     (ebind (eget has_folder) (\<lambda>there.
     if \<not> there then eret None
     else eseq io (ebind (eget baseline_file) (\<lambda>file.
       case file of None \<Rightarrow> eret None
       | Some f \<Rightarrow>
         ebind (parsed f) (\<lambda>p.
         eseq (need (pt_schema p = 1 \<and> pt_binding p = b \<and> pt_namespace p = ns \<and>
           (case strip_suffix ''.json'' (pt_receipt p) of None \<Rightarrow> False
            | Some v \<Rightarrow> cloud_identifier v ''backup-'')) ''invalid_plan'')
         (ebind (eget (\<lambda>s. bt_get (receipts s) (pt_receipt p))) (\<lambda>r.
         ebind (some_file r) (\<lambda>encoded.
         eseq (need (receipt_sha K encoded = pt_sha p) ''invalid_plan'')
         (ebind (parsed encoded) (\<lambda>r.
         eseq (need (cr_schema r = 1 \<and> cr_kind r \<in> {''import'', ''sync''} \<and> cr_binding r = b \<and>
           cr_namespace r = ns \<and> cr_backup r @ ''.json'' = pt_receipt p) ''invalid_plan'')
         (ebind (backup_data K b ns (cr_backup r)) (\<lambda>bd.
         ebind (elift (import_decode K (bd_imported bd))) (\<lambda>st.
         ebind (elift (import_digest (sha K) st)) (\<lambda>d.
         eseq (need (cr_imported_sha r = bm_replacement_sha (bd_metadata bd) \<and> cr_content r = d) ''invalid_plan'')
         (ebind (elift (baseline_of K b st)) (\<lambda>bl.
         eret (Some bl)))))))))))))))))"

definition load_baseline :: "kit \<Rightarrow> scope \<Rightarrow> ('j, baseline option) act" where
  "load_baseline K sc =
     ebind (etry (
       ebind (elift (scope_namespace (sha K) (uuid_of K) sc)) (\<lambda>ns.
       common_baseline K (scope_binding (sha K) sc) ns))) (\<lambda>r.
     case r of Inr v \<Rightarrow> eret v | Inl _ \<Rightarrow> efail (Failure ''invalid_plan''))"

section \<open>Importing and restoring\<close>

record import_result =
  ir_imported :: bool
  ir_backup :: "string option"
  ir_generation :: u64
  ir_containers :: nat
  ir_blobs :: nat
  ir_bytes :: nat
  ir_durable :: bool
  ir_baseline :: "baseline option"

definition result_summary :: "import_result \<Rightarrow> json" where
  "result_summary r = JObj [(''imported'', JBool (ir_imported r)),
     (''backup_id'', jopt JStr (ir_backup r)),
     (''generation'', jnum (unat (ir_generation r))), (''container_count'', jnum (ir_containers r)),
     (''blob_count'', jnum (ir_blobs r)), (''total_bytes'', jnum (ir_bytes r)),
     (''durability_confirmed'', JBool (ir_durable r))]"

definition next_generation :: "u64 \<Rightarrow> failure + u64" where
  "next_generation g = (if g = - 1 then Inl (Failure ''unsupported'') else Inr (g + 1))"

text \<open>What follows a committed import: the baseline moves when the choice is what the cloud has.\<close>

definition settle_import :: "kit \<Rightarrow> string \<Rightarrow> string \<Rightarrow> plan \<Rightarrow> state \<Rightarrow> u8 list \<Rightarrow> string \<Rightarrow> bool \<Rightarrow> ('j, import_result) act" where
  "settle_import K b ns p selected encoded n durable =
     (let (c, bl, t) = counts selected;
          result = \<lparr>ir_imported = True, ir_backup = Some n, ir_generation = generation selected,
            ir_containers = c, ir_blobs = bl, ir_bytes = t, ir_durable = durable, ir_baseline = None\<rparr> in
     ebind (elift (import_digest (sha K) selected)) (\<lambda>d.
     ebind (eget has_folder) (\<lambda>there.
     if d = pl_remote_digest p \<and> there then
       ebind (etry (publish_common K b ns n encoded ''import'')) (\<lambda>r.
       case r of
         Inr _ \<Rightarrow> ebind (elift (baseline_of K b selected)) (\<lambda>v. eret (result\<lparr>ir_baseline := Some v\<rparr>))
       | Inl _ \<Rightarrow> eret (result\<lparr>ir_durable := False\<rparr>))
     else eret result)))"

definition import_selected :: "kit \<Rightarrow> string \<Rightarrow> string \<Rightarrow> plan \<Rightarrow> u8 list option \<Rightarrow> state \<Rightarrow> state \<Rightarrow> ('j, import_result) act" where
  "import_selected K b ns p raw st selected =
     ebind (elift (next_generation (generation st))) (\<lambda>g.
     let selected = selected\<lparr>generation := g\<rparr> in
     ebind (elift (import_encode K selected)) (\<lambda>encoded.
     eseq check_cancel
     (ebind (backup K b ns raw encoded (Some (pl_snapshot_digest p))) (\<lambda>n.
     ebind (commit_local K True (pl_local_digest p) encoded) (\<lambda>durable.
     settle_import K b ns p selected encoded n durable)))))"

definition apply_plan :: "kit \<Rightarrow> string list \<Rightarrow> scope \<Rightarrow> plan \<Rightarrow> choice \<Rightarrow> ('j, import_result) act" where
  "apply_plan K runtime sc p ch =
     (let b = scope_binding (sha K) sc in
     ebind (elift (scope_namespace (sha K) (uuid_of K) sc)) (\<lambda>ns.
     eseq (need (pl_runtime p = runtime \<and> pl_binding p = b \<and> pl_namespace p = ns) ''invalid_scope'')
     (eseq check_cancel
     (ebind (read_snapshot K runtime b (pl_snapshot p)) (\<lambda>cloud.
     ebind (elift (import_digest (sha K) (v_state cloud))) (\<lambda>rd.
     eseq (need (v_digest cloud = pl_snapshot_digest p \<and> rd = pl_remote_digest p) ''changed'')
     (eseq (open_local True True ns)
     (ebind (local_state K) (\<lambda>(raw, st).
     eseq (need (raw_digest K raw = pl_local_digest p \<and> generation st = pl_generation p) ''changed'')
     (ebind (elift (select st (v_state cloud) (pl_decisions p) ch)) (\<lambda>selected.
     ebind (elift (import_digest (sha K) selected)) (\<lambda>d.
     ebind (elift (import_digest (sha K) st)) (\<lambda>d'.
     if d = d' then
       (let (c, bl, t) = counts selected in
        eret \<lparr>ir_imported = False, ir_backup = None, ir_generation = generation st, ir_containers = c,
          ir_blobs = bl, ir_bytes = t, ir_durable = True, ir_baseline = pl_baseline p\<rparr>)
     else import_selected K b ns p raw st selected)))))))))))))"

definition restore_backup :: "kit \<Rightarrow> scope \<Rightarrow> string \<Rightarrow> ('j, import_result) act" where
  "restore_backup K sc n =
     (let b = scope_binding (sha K) sc in
     ebind (elift (scope_namespace (sha K) (uuid_of K) sc)) (\<lambda>ns.
     eseq check_cancel
     (eseq (open_local True True ns)
     (ebind (backup_data K b ns n) (\<lambda>old.
     ebind (local_state K) (\<lambda>(raw, st).
     eseq (need (raw \<noteq> None \<and> raw_digest K raw = bm_replacement_sha (bd_metadata old)) ''changed'')
     (ebind (elift (decode_or_default K (bd_original old))) (\<lambda>original.
     ebind (elift (next_generation (generation st))) (\<lambda>g.
     let restored = original\<lparr>generation := g\<rparr> in
     ebind (elift (import_encode K restored)) (\<lambda>encoded.
     ebind (backup K b ns raw encoded None) (\<lambda>n'.
     ebind (commit_local K True (raw_digest K raw) encoded) (\<lambda>durable.
     let (c, bl, t) = counts restored in
     eret \<lparr>ir_imported = True, ir_backup = Some n', ir_generation = g, ir_containers = c,
       ir_blobs = bl, ir_bytes = t, ir_durable = durable, ir_baseline = None\<rparr>))))))))))))"

section \<open>Exporting\<close>

record local_export =
  ex_runtime :: "string list"
  ex_binding :: string
  ex_namespace :: string
  ex_raw_digest :: string
  ex_content :: string
  ex_generation :: u64
  ex_encoded :: "u8 list"

definition export_local :: "kit \<Rightarrow> string list \<Rightarrow> scope \<Rightarrow> ('j, local_export) act" where
  "export_local K runtime sc =
     eseq check_cancel
     (ebind (elift (scope_namespace (sha K) (uuid_of K) sc)) (\<lambda>ns.
     eseq (open_local True True ns)
     (ebind (local_state K) (\<lambda>(raw, st).
     ebind (elift (import_digest (sha K) st)) (\<lambda>d.
     ebind (elift (case raw of Some r \<Rightarrow> Inr r | None \<Rightarrow> import_encode K st)) (\<lambda>encoded.
     eret \<lparr>ex_runtime = runtime, ex_binding = scope_binding (sha K) sc, ex_namespace = ns, ex_raw_digest = raw_digest K raw,
       ex_content = d, ex_generation = generation st, ex_encoded = encoded\<rparr>))))))"

definition assert_unchanged :: "kit \<Rightarrow> local_export \<Rightarrow> ('j, unit) act" where
  "assert_unchanged K e =
     eseq (recheck True)
     (ebind (local_state K) (\<lambda>(raw, _).
     need (raw_digest K raw = ex_raw_digest e) ''changed''))"

definition record_common :: "kit \<Rightarrow> local_export \<Rightarrow> receipt \<Rightarrow> ('j, baseline) act" where
  "record_common K e r =
     eseq (assert_unchanged K e)
     (eseq (need (receipt_verifies r (ex_binding e) (ex_content e)) ''invalid_plan'')
     (ebind (local_state K) (\<lambda>(raw, st).
     ebind (backup K (ex_binding e) (ex_namespace e) raw (ex_encoded e) None) (\<lambda>n.
     eseq (assert_unchanged K e)
     (ebind (eget has_folder) (\<lambda>there.
     eseq (need there ''local_storage'')
     (eseq (publish_common K (ex_binding e) (ex_namespace e) n (ex_encoded e) ''sync'')
     (elift (baseline_of K (ex_binding e) st)))))))))"

end
