(* ===== verification/ImportPolicy.thy ===== *)
theory ImportPolicy
  imports CloudImport
begin

text \<open>
  An import does what the policy decided: \<^verbatim>\<open>before\<close> of \<^verbatim>\<open>native/cloud_flow.rs\<close> asks \<^verbatim>\<open>decide\<close> what
  should become of the two sides and then imports with a choice over the rows of \<^verbatim>\<open>prepare\<close>. Both
  are computed from the container digests, by different code.
\<close>

section \<open>Digests of the containers\<close>

definition container_sha :: "kit \<Rightarrow> string \<Rightarrow> container \<Rightarrow> error + string" where
  "container_sha K n c = content_digest (sha K) \<lparr>generation = 0, containers = [(n, c)]\<rparr>"

text \<open>\<open>digests_of K cs m\<close>: the map \<open>m\<close> holds the digest of every container.\<close>

definition sha_at :: "kit \<Rightarrow> (string, container) btree \<Rightarrow> string \<Rightarrow> error + string option" where
  "sha_at K cs n = (case bt_get cs n of None \<Rightarrow> Inr None | Some c \<Rightarrow> rbind (container_sha K n c) (\<lambda>d. Inr (Some d)))"

definition digests_of :: "kit \<Rightarrow> (string, container) btree \<Rightarrow> (string, string) btree \<Rightarrow> bool" where
  "digests_of K cs m \<longleftrightarrow> bt_ok m \<and> (\<forall>n. sha_at K cs n = Inr (bt_get m n))"

lemma digests_of_unique: "digests_of K cs m \<Longrightarrow> digests_of K cs m' \<Longrightarrow> m = m'"
  by (rule bt_eqI) (auto simp: digests_of_def)

lemma rfold_digests:
  assumes "distinct (map fst cs)" "rfold (container_digest (sha K)) cs m = Inr m'" "bt_ok m"
    "\<forall>n \<in> set (map fst cs). bt_get m n = None"
  shows "bt_ok m' \<and> (\<forall>n. if bt_get cs n = None then bt_get m' n = bt_get m n else sha_at K cs n = Inr (bt_get m' n))"
  using assms
proof (induction cs arbitrary: m)
  case (Cons e cs)
  obtain k c where e: "e = (k, c)" by (cases e)
  with Cons.prems(2) obtain d where d: "container_sha K k c = Inr d"
      "rfold (container_digest (sha K)) cs (bt_put k d m) = Inr m'"
    by (auto simp: container_digest_def container_sha_def result_simps)
  have fresh: "bt_get cs k = None" "\<forall>n \<in> set (map fst cs). bt_get (bt_put k d m) n = None"
    using Cons.prems(1,4) e by (auto simp: bt_get_def map_of_eq_None_iff bt_get_put [unfolded bt_get_def])
  have "bt_ok m' \<and> (\<forall>n. if bt_get cs n = None then bt_get m' n = bt_get (bt_put k d m) n
      else sha_at K cs n = Inr (bt_get m' n))"
    using Cons.prems(1,3) fresh(2) by (intro Cons.IH [OF _ d(2)]) (auto simp: bt_ok_put e)
  moreover from this have tl: "bt_get m' n = bt_get (bt_put k d m) n" if "bt_get cs n = None" for n
    using that by (auto dest: spec [of _ n])
  moreover have "bt_get (e # cs) n = (if n = k then Some c else bt_get cs n)" for n
    by (simp add: bt_get_def e)
  moreover have "sha_at K (e # cs) n = (if n = k then Inr (Some d) else sha_at K cs n)" for n
    using d(1) by (simp add: sha_at_def bt_get_def e)
  ultimately show ?case
    using tl fresh(1) by (auto simp: bt_get_put)
qed (simp add: bt_get_def)

lemma rfold_digests_ok:
  assumes "\<forall>(n, c) \<in> set cs. \<exists>d. container_sha K n c = Inr d"
  shows "\<exists>m'. rfold (container_digest (sha K)) cs m = Inr m'"
  using assms
proof (induction cs arbitrary: m)
  case (Cons e cs)
  then obtain k c d where "e = (k, c)" "container_sha K k c = Inr d"
    by (cases e) auto
  with Cons show ?case
    by (auto simp: container_digest_def container_sha_def)
qed simp

lemma rfold_digests_of:
  assumes "bt_ok cs" "rfold (container_digest (sha K)) cs [] = Inr m"
  shows "digests_of K cs m"
proof -
  have "bt_ok m \<and> (\<forall>n. if bt_get cs n = None then bt_get m n = bt_get [] n else sha_at K cs n = Inr (bt_get m n))"
    using assms by (intro rfold_digests) (auto simp: bt_ok_distinct bt_get_def)
  then have "sha_at K cs n = Inr (bt_get m n)" for n
    by (cases "bt_get cs n") (auto simp: sha_at_def bt_get_def dest!: spec [of _ n])
  then show ?thesis
    using \<open>bt_ok m \<and> _\<close> by (simp add: digests_of_def)
qed

lemma containers_of_eq:
  "containers_of K st = map_err (\<lambda>_. Failure ''unsupported'') (rfold (container_digest (sha K)) (containers st) [])"
proof -
  have "rfold (\<lambda>(n, c) m. rbind (import_digest (sha K) \<lparr>generation = 0, containers = [(n, c)]\<rparr>) (\<lambda>d. Inr (bt_put n d m))) cs m
    = map_err (\<lambda>_. Failure ''unsupported'') (rfold (container_digest (sha K)) cs m)" for cs m
  proof (induction cs arbitrary: m)
    case (Cons e cs)
    then show ?case
      by (cases e) (simp add: container_digest_def import_digest_def map_err_def rbind_def split: sum.splits)
  qed (simp add: map_err_def)
  then show ?thesis by (simp add: containers_of_def)
qed

lemma containers_of_digests:
  "bt_ok (containers st) \<Longrightarrow> containers_of K st = Inr m \<Longrightarrow> digests_of K (containers st) m"
  by (rule rfold_digests_of) (auto simp: containers_of_eq map_err_def split: sum.splits)

lemma save_set_digests:
  assumes "bt_ok (containers st)" "save_set_from_state (sha K) b st = Inr v"
  shows "digests_of K (containers st) (digests v) \<and> binding v = b \<and> is_save_set v"
proof -
  obtain m where m: "rfold (container_digest (sha K)) (containers st) [] = Inr m" "save_set_new b m = Inr v"
    using assms(2) by (auto simp: save_set_from_state_def result_simps)
  from rfold_digests_of [OF assms(1) m(1)] have "digests_of K (containers st) m" .
  then show ?thesis
    using m(2) unfolding save_set_new_iff by (auto simp: is_save_set_def digests_of_def save_set_new_iff)
qed

text \<open>Conversely, a state that can be written and has these digests makes this save set.\<close>

lemma save_set_of_digests:
  assumes "bt_ok (containers st)" "digests_of K (containers st) (digests v)" "is_save_set v" "is_ok (encode (sha K) st)"
  shows "save_set_from_state (sha K) (binding v) st = Inr v"
proof -
  have "\<exists>d. container_sha K n c = Inr d" if "(n, c) \<in> set (containers st)" for n c
  proof -
    have "sha_at K (containers st) n = Inr (bt_get (digests v) n)"
      using assms(2) by (simp add: digests_of_def)
    then show ?thesis
      using that bt_get_iff [OF assms(1), of n c] by (auto simp: sha_at_def result_simps)
  qed
  then obtain m where m: "rfold (container_digest (sha K)) (containers st) [] = Inr m"
    using rfold_digests_ok [of "containers st" K "[]"] by auto
  then have "m = digests v"
    by (rule digests_of_unique [OF rfold_digests_of [OF assms(1)] assms(2)])
  then show ?thesis
    using m assms(3,4) by (auto simp: save_set_from_state_def is_ok_def is_save_set_def split: sum.splits)
qed

section \<open>The rows of a plan\<close>

lemma fold_pick:
  assumes "distinct (map cw_name rows)" "bt_ok m" "\<forall>n \<in> set (map cw_name rows). bt_get m n = None"
  shows "bt_ok (fold (pick local cloud ch) rows m) \<and>
    (\<forall>d \<in> set rows. bt_get (fold (pick local cloud ch) rows m) (cw_name d) =
      bt_get (containers (if (case bt_get ch (cw_name d) of Some c \<Rightarrow> c | None \<Rightarrow> cw_action d = ''cloud'')
        then cloud else local)) (cw_name d)) \<and>
    (\<forall>n. n \<notin> set (map cw_name rows) \<longrightarrow> bt_get (fold (pick local cloud ch) rows m) n = bt_get m n)"
  using assms
proof (induction rows arbitrary: m)
  case (Cons d rows)
  let ?m = "pick local cloud ch d m"
  have m: "bt_ok ?m" "\<forall>n. n \<noteq> cw_name d \<longrightarrow> bt_get ?m n = bt_get m n"
    "bt_get ?m (cw_name d) = bt_get (containers (if (case bt_get ch (cw_name d) of Some c \<Rightarrow> c
      | None \<Rightarrow> cw_action d = ''cloud'') then cloud else local)) (cw_name d)"
    using Cons.prems(2,3) by (auto simp: pick_def Let_def bt_get_put bt_ok_put split: option.split)
  have "\<forall>n \<in> set (map cw_name rows). bt_get ?m n = None"
    using Cons.prems(1,3) m(2) by (metis distinct.simps(2) list.simps(9) list.set_intros(2))
  note ih = Cons.IH [OF _ m(1) this]
  show ?case
    using ih Cons.prems(1) m by auto
qed simp

lemma choice_rows_names:
  "map cw_name (choice_rows left right old) =
    sorted_set (bt_keys left @ bt_keys right @ (case old of None \<Rightarrow> [] | Some v \<Rightarrow> bt_keys v))"
  by (simp add: choice_rows_def choice_row_def Let_def comp_def)

lemma choice_rows_iff: "d \<in> set (choice_rows left right old) \<longleftrightarrow>
    d = choice_row left right old (cw_name d) \<and> cw_name d \<in> set (map cw_name (choice_rows left right old))"
proof -
  have "cw_name (choice_row left right old n) = n" for n
    by (simp add: choice_row_def Let_def)
  then show ?thesis
    by (auto simp: choice_rows_def)
qed

text \<open>What an automatic choice takes: from the cloud where only the cloud changed.\<close>

lemma select_automatic:
  assumes "select local cloud (choice_rows left right old) Automatic = Inr st"
  shows "bt_ok (containers st) \<and>
    (\<forall>n. bt_get (containers st) n =
      (if n \<notin> set (map cw_name (choice_rows left right old)) then None
       else if cw_action (choice_row left right old n) = ''cloud'' then bt_get (containers cloud) n
       else bt_get (containers local) n)) \<and>
    (\<forall>n \<in> set (map cw_name (choice_rows left right old)). cw_action (choice_row left right old n) \<noteq> ''conflict'')"
proof -
  let ?rows = "choice_rows left right old"
  have names: "distinct (map cw_name ?rows)" by (simp add: choice_rows_names)
  have st: "containers st = fold (pick local cloud []) ?rows []"
      "sorted_set [] = sorted_set (map cw_name (filter (\<lambda>d. cw_action d = ''conflict'') ?rows))"
    using assms by (auto simp: select_def Let_def result_simps bt_keys_def)
  have none: "set (map cw_name (filter (\<lambda>d. cw_action d = ''conflict'') ?rows)) = {}"
    by (metis st(2) set_sorted_set empty_set)
  have f: "bt_ok (containers st)" "\<forall>d \<in> set ?rows. bt_get (containers st) (cw_name d) =
      bt_get (containers (if cw_action d = ''cloud'' then cloud else local)) (cw_name d)"
      "\<forall>n. n \<notin> set (map cw_name ?rows) \<longrightarrow> bt_get (containers st) n = None"
    using fold_pick [OF names bt_ok_Nil, of local cloud "[]"] unfolding st(1) by (auto simp: bt_get_def)
  have row: "choice_row left right old n \<in> set ?rows" "cw_name (choice_row left right old n) = n"
    if "n \<in> set (map cw_name ?rows)" for n
    using that by (auto simp: choice_rows_def choice_row_def Let_def)
  have noc: "\<forall>n \<in> set (map cw_name ?rows). cw_action (choice_row left right old n) \<noteq> ''conflict''"
  proof
    fix n assume "n \<in> set (map cw_name ?rows)"
    from row(1) [OF this] none show "cw_action (choice_row left right old n) \<noteq> ''conflict''" by auto
  qed
  have "bt_get (containers st) n =
      (if n \<notin> set (map cw_name ?rows) then None
       else if cw_action (choice_row left right old n) = ''cloud'' then bt_get (containers cloud) n
       else bt_get (containers local) n)" for n
  proof (cases "n \<in> set (map cw_name ?rows)")
    case True
    then show ?thesis using bspec [OF f(2) row(1) [OF True]] row(2) [OF True] by simp
  qed (use f(3) in simp)
  with f(1) noc show ?thesis by blast
qed

section \<open>Rows and decisions agree\<close>

lemma diverged_row: "diverged left right old n \<longleftrightarrow> cw_action (choice_row left right (Some old) n) = ''conflict''"
  by (auto simp: diverged_def merge3_def choice_row_def Let_def)

lemma merged_row: "cw_action (choice_row left right (Some old) n) \<noteq> ''conflict'' \<Longrightarrow>
    merged left right old n = (if cw_action (choice_row left right (Some old) n) = ''cloud'' then bt_get right n else bt_get left n)"
  by (auto simp: merged_def merge3_def choice_row_def Let_def split: if_splits)

lemma sha_at_cong: "bt_get cs n = bt_get cs' n \<Longrightarrow> sha_at K cs n = sha_at K cs' n"
  by (simp add: sha_at_def)

lemma merged_select:
  assumes "digests_of K (containers local) left" "digests_of K (containers cloud) right"
    and "select local cloud (choice_rows left right (Some old)) Automatic = Inr st"
    and "bt_ok tgt" "\<And>n. bt_get tgt n = merged left right old n"
  shows "digests_of K (containers st) tgt"
proof -
  note sel = select_automatic [OF assms(3)]
  have names: "set (map cw_name (choice_rows left right (Some old))) = set (set_names left right old)"
    by (simp add: choice_rows_names set_names_def)
  have "sha_at K (containers st) n = Inr (merged left right old n)" for n
  proof (cases "n \<in> set (set_names left right old)")
    case True
    with names have "n \<in> set (map cw_name (choice_rows left right (Some old)))" by simp
    with sel True have row: "cw_action (choice_row left right (Some old) n) \<noteq> ''conflict''"
      "bt_get (containers st) n = bt_get (containers (if cw_action (choice_row left right (Some old) n) = ''cloud''
        then cloud else local)) n"
      by (blast, simp add: names)
    show ?thesis
      unfolding merged_row [OF row(1)] sha_at_cong [OF row(2)]
      using assms(1,2) by (simp add: digests_of_def)
  next
    case False
    then have "bt_get (containers st) n = None" using sel names by simp
    then show ?thesis using merged_outside [OF False] by (simp add: sha_at_def)
  qed
  then show ?thesis
    using assms(4,5) by (simp add: digests_of_def)
qed

lemma select_conflict:
  assumes "cw_action (choice_row left right old n) = ''conflict''" "n \<in> set (map cw_name (choice_rows left right old))"
  shows "select local cloud (choice_rows left right old) Automatic = Inl (Failure ''conflict'')"
proof (rule ccontr)
  assume a: "\<not> ?thesis"
  then obtain st where "select local cloud (choice_rows left right old) Automatic = Inr st"
    by (auto simp: select_def Let_def cloud_require_def split: if_splits)
  from select_automatic [OF this] assms show False by blast
qed

lemma select_settles:
  assumes "\<And>n. n \<in> set (map cw_name (choice_rows left right old)) \<Longrightarrow> cw_action (choice_row left right old n) \<noteq> ''conflict''"
  shows "\<exists>st. select local cloud (choice_rows left right old) Automatic = Inr st"
proof -
  have "filter (\<lambda>d. cw_action d = ''conflict'') (choice_rows left right old) = []"
  proof -
    have "cw_action d \<noteq> ''conflict''" if "d \<in> set (choice_rows left right old)" for d
      using that assms [of "cw_name d"] unfolding choice_rows_iff [of d] by metis
    then show ?thesis by (simp add: filter_empty_conv)
  qed
  then show ?thesis
    by (simp add: select_def Let_def bt_keys_def)
qed

text \<open>What the choice of \<^verbatim>\<open>before\<close> for a decision selects.\<close>

definition choice_for :: "action \<Rightarrow> choice" where
  "choice_for a = (if a = ImportCloud then ChooseCloud else Automatic)"

lemma changed_rows:
  assumes "digests_of K (containers local) left" "digests_of K (containers cloud) right"
    and "bt_ok (containers cloud)" "bt_ok tgt" "\<And>n. bt_get tgt n = merged left right old n"
    and "changed_outcome b left right old sels tgt = Inr d"
  shows "(select local cloud (choice_rows left right (Some old)) Automatic = Inl (Failure ''conflict'') \<longleftrightarrow> action d = Conflict) \<and>
    (action d \<in> {ImportCloud, Merge} \<longrightarrow>
      (\<exists>st. select local cloud (choice_rows left right (Some old)) (choice_for (action d)) = Inr st \<and>
        bt_ok (containers st) \<and> digests_of K (containers st) tgt \<and> target d = Some \<lparr>binding = b, digests = tgt\<rparr>))"
  (is "?conflict \<and> ?import")
proof (cases "filter (diverged left right old) (set_names left right old) = []")
  case False
  then obtain n where "n \<in> set (set_names left right old)" "diverged left right old n"
    by (auto simp: filter_empty_conv)
  then have "select local cloud (choice_rows left right (Some old)) Automatic = Inl (Failure ''conflict'')"
    by (intro select_conflict [of left right "Some old" n]) (simp_all add: diverged_row choice_rows_names set_names_def)
  moreover have "action d = Conflict"
    using assms(6) False by (auto simp: changed_outcome_def Let_def decision_new_def)
  ultimately show ?thesis by simp
next
  case True
  have "cw_action (choice_row left right (Some old) n) \<noteq> ''conflict''"
    if "n \<in> set (map cw_name (choice_rows left right (Some old)))" for n
    using that True by (simp add: choice_rows_names set_names_def [symmetric] filter_empty_conv diverged_row)
  from select_settles [OF this] obtain st where
    st: "select local cloud (choice_rows left right (Some old)) Automatic = Inr st" by blast
  note m = merged_select [OF assms(1,2) st assms(4,5)]
  have d: "action d \<noteq> Conflict" "action d = ImportCloud \<Longrightarrow> tgt = right"
      "action d \<in> {ImportCloud, Merge} \<Longrightarrow> target d = Some \<lparr>binding = b, digests = tgt\<rparr>"
    using assms(6) True by (auto simp: changed_outcome_def Let_def decision_new_def split: if_splits)
  show ?thesis
  proof (cases "action d = ImportCloud")
    case True
    have "select local cloud (choice_rows left right (Some old)) ChooseCloud =
        Inr \<lparr>generation = generation local, containers = containers cloud\<rparr>"
      by (simp add: select_def)
    then show ?thesis
      using True d st assms(2,3) by (auto simp: choice_for_def digests_of_def)
  next
    case False
    then show ?thesis
      using d st m select_automatic [OF st] by (auto simp: choice_for_def)
  qed
qed

lemma equal_sides: "\<exists>st. select local cloud (choice_rows left left old) Automatic = Inr st"
  by (rule select_settles) (auto simp: choice_row_def Let_def split: option.split)

text \<open>C26. When the policy decides to import or to merge, the choice \<^verbatim>\<open>before\<close> makes over the rows of the
  plan (the cloud's side for an import, the automatic choice for a merge) is accepted and selects a save
  whose digests are exactly the policy's target. With a baseline the automatic choice is refused exactly
  when the policy sees a conflict. Without one the policy never sees a conflict, while the automatic
  choice may be refused.\<close>

theorem import_follows_policy:
  assumes "bt_ok (containers local)" "bt_ok (containers cloud)"
    and "save_set_from_state (sha K) b local = Inr l" "save_set_from_state (sha K) b cloud = Inr r"
    and "case old of None \<Rightarrow> True | Some v \<Rightarrow> is_save_set v \<and> binding v = b"
    and "decide b (Some l) (Some r) old = Inr d"
    and "containers_of K local = Inr left" "containers_of K cloud = Inr right"
    and "rows = choice_rows left right (map_option digests old)"
  shows "(action d = Conflict \<longrightarrow> select local cloud rows Automatic = Inl (Failure ''conflict'')) \<and>
    (old \<noteq> None \<longrightarrow> (select local cloud rows Automatic = Inl (Failure ''conflict'') \<longleftrightarrow> action d = Conflict)) \<and>
    (old = None \<longrightarrow> action d \<noteq> Conflict) \<and>
    (action d \<in> {ImportCloud, Merge} \<longrightarrow>
      (\<exists>st t. select local cloud rows (choice_for (action d)) = Inr st \<and> target d = Some t \<and>
        (is_ok (encode (sha K) st) \<longrightarrow> save_set_from_state (sha K) b st = Inr t)))"
proof -
  note l = save_set_digests [OF assms(1,3)] and r = save_set_digests [OF assms(2,4)]
  have sides: "left = digests l" "right = digests r"
    using digests_of_unique l r containers_of_digests assms(1,2,7,8) by blast+
  have b: "hex_digest b"
    using l by (auto simp: is_save_set_def save_set_new_iff)
  show ?thesis
  proof (cases "digests l = digests r")
    case True
    then have "action d = Noop"
      using assms(5,6) l r b by (auto simp: decide_def Let_def decision_new_def split: option.splits)
    moreover have "left = right"
      using True by (simp add: sides)
    then obtain st where "select local cloud rows Automatic = Inr st"
      using equal_sides unfolding assms(9) by metis
    ultimately show ?thesis by simp
  next
    case False
    show ?thesis
    proof (cases old)
      case None
      have d: "action d \<noteq> Conflict" "action d \<noteq> Merge" "action d = ImportCloud \<Longrightarrow> target d = Some r"
        using assms(6) None False l r b
        by (auto simp: decide_def Let_def decision_new_def split: if_splits)
      have "save_set_from_state (sha K) b \<lparr>generation = generation local, containers = containers cloud\<rparr> = Inr r"
        if "is_ok (encode (sha K) \<lparr>generation = generation local, containers = containers cloud\<rparr>)"
        using that r assms(2) save_set_of_digests [of "\<lparr>generation = generation local, containers = containers cloud\<rparr>" K r]
        by simp
      moreover have "select local cloud rows ChooseCloud = Inr \<lparr>generation = generation local, containers = containers cloud\<rparr>"
        by (simp add: select_def)
      ultimately show ?thesis
        using d None by (auto simp: choice_for_def)
    next
      case (Some v)
      have scope: "same_scope b l r v"
        using assms(5) Some l r b by (simp add: same_scope_def)
      obtain sels tgt where dec: "changed_outcome b left right (digests v) sels tgt = Inr d"
        and tgt: "bt_ok tgt" "\<And>n. bt_get tgt n = merged left right (digests v) n"
        using decide_changed [OF scope False] assms(6) Some unfolding sides by metis
      have rows: "rows = choice_rows left right (Some (digests v))"
        using assms(9) Some by simp
      have ch: "(select local cloud rows Automatic = Inl (Failure ''conflict'') \<longleftrightarrow> action d = Conflict) \<and>
        (action d \<in> {ImportCloud, Merge} \<longrightarrow>
          (\<exists>st. select local cloud rows (choice_for (action d)) = Inr st \<and>
            bt_ok (containers st) \<and> digests_of K (containers st) tgt \<and> target d = Some \<lparr>binding = b, digests = tgt\<rparr>))"
        unfolding rows
        by (rule changed_rows [OF _ _ assms(2) tgt dec]) (use l r sides in auto)
      have "is_save_set \<lparr>binding = b, digests = tgt\<rparr>" if "target d = Some \<lparr>binding = b, digests = tgt\<rparr>"
      proof -
        have "length tgt \<le> CONTAINER_LIMIT"
          using dec that by (auto simp: changed_outcome_def Let_def decision_new_def split: if_splits)
        then have "save_set_new b tgt = Inr \<lparr>binding = b, digests = tgt\<rparr>"
          using scope tgt(2) by (intro merged_save_set [of l r tgt "digests v"] tgt(1))
            (simp_all add: same_scope_def sides)
        then show ?thesis using tgt(1) by (simp add: is_save_set_def)
      qed
      then have "save_set_from_state (sha K) b st = Inr \<lparr>binding = b, digests = tgt\<rparr>"
        if "bt_ok (containers st)" "digests_of K (containers st) tgt" "is_ok (encode (sha K) st)"
          "target d = Some \<lparr>binding = b, digests = tgt\<rparr>" for st
        using that save_set_of_digests [of st K "\<lparr>binding = b, digests = tgt\<rparr>"] by simp
      then show ?thesis
        using ch Some by auto
    qed
  qed
qed

section \<open>Example\<close>

text \<open>Each side has added a container since nothing was common: the two additions are merged.\<close>

definition w_kit :: kit where
  "w_kit = \<lparr>sha = zero_hash, manifest_of = (\<lambda>_. None), receipt_sha = (\<lambda>_. []), uuid_of = Some\<rparr>"

definition w_entry :: container where
  "w_entry = \<lparr>display_name = [], modified = 0, blobs = []\<rparr>"

definition w_save :: "string list \<Rightarrow> state" where
  "w_save ns = \<lparr>generation = 0, containers = map (\<lambda>n. (n, w_entry)) ns\<rparr>"

abbreviation w_bind :: string where "w_bind \<equiv> hex64 (CHR ''0'')"

lemma w_encode: "set ns \<subseteq> {''a'', ''b''} \<Longrightarrow> length ns \<le> 2 \<Longrightarrow> is_ok (encode H (w_save ns))"
proof -
  assume a: "set ns \<subseteq> {''a'', ''b''}" "length ns \<le> 2"
  have "save_name ''a'' True = Inr ()" "save_name ''b'' True = Inr ()" by code_simp+
  then have "list_all enc_ok (raws (w_save ns))"
    using a(1) by (auto simp: list_all_iff raws_def raw_of_def w_save_def w_entry_def enc_ok_def)
  then show ?thesis
    using a by (cases ns; cases "tl ns")
      (auto simp: is_ok_iff encode_iff raws_def raw_of_def w_save_def w_entry_def size_defs wire_body_def
        wire_simps wire_container_def wire_text_def)
qed

lemma w_digest: "n \<in> {''a'', ''b''} \<Longrightarrow> content_digest zero_hash \<lparr>generation = 0, containers = [(n, w_entry)]\<rparr> = Inr (hex64 (CHR ''0''))"
proof -
  assume "n \<in> {''a'', ''b''}"
  then have "is_ok (encode zero_hash (w_save [n]))" by (intro w_encode) auto
  moreover have "canonical (w_save [n]) = w_save [n]"
    by (simp add: canonical_def w_save_def w_entry_def clear_time_def)
  moreover have "hex_encode (replicate 32 0) = hex64 (CHR ''0'')"
    by code_simp
  ultimately show ?thesis
    unfolding content_digest_def is_ok_iff by (auto simp: w_save_def sha256_hex_def zero_hash_def)
qed

definition w_set :: "string list \<Rightarrow> save_set" where
  "w_set ns = \<lparr>binding = w_bind, digests = map (\<lambda>n. (n, hex64 (CHR ''0''))) ns\<rparr>"

lemma w_from_state: "n \<in> {''a'', ''b''} \<Longrightarrow> save_set_from_state zero_hash w_bind (w_save [n]) = Inr (w_set [n])"
proof -
  assume n: "n \<in> {''a'', ''b''}"
  have "save_set_new w_bind [(''a'', hex64 (CHR ''0''))] = Inr (w_set [''a''])"
    "save_set_new w_bind [(''b'', hex64 (CHR ''0''))] = Inr (w_set [''b''])"
    by code_simp+
  then show ?thesis
    using n w_encode [of "[n]" zero_hash] w_digest [OF n]
    by (auto simp: save_set_from_state_def is_ok_iff w_save_def container_digest_def)
qed

definition w_decision :: decision where
  "w_decision = (case decide w_bind (Some (w_set [''a''])) (Some (w_set [''b''])) (Some (w_set [])) of
     Inr d \<Rightarrow> d | Inl _ \<Rightarrow> decision_new Noop [])"

lemma w_merges: "decide w_bind (Some (w_set [''a''])) (Some (w_set [''b''])) (Some (w_set [])) = Inr w_decision"
  "action w_decision = Merge" "is_save_set (w_set [])"
  by code_simp+

lemma import_follows_policy_witness:
  "\<exists>st t. select (w_save [''a'']) (w_save [''b''])
      (choice_rows (digests (w_set [''a''])) (digests (w_set [''b''])) (Some [])) Automatic = Inr st \<and>
     target w_decision = Some t \<and>
     (is_ok (encode zero_hash st) \<longrightarrow> save_set_from_state zero_hash w_bind st = Inr t)"
proof -
  have c: "containers_of w_kit (w_save [''a'']) = Inr (digests (w_set [''a'']))"
    "containers_of w_kit (w_save [''b'']) = Inr (digests (w_set [''b'']))"
    using w_digest by (simp_all add: containers_of_def w_kit_def w_save_def w_set_def import_digest_def map_err_def)
  have ok: "bt_ok (containers (w_save [n]))" for n by (simp add: w_save_def bt_ok_def)
  show ?thesis
    using import_follows_policy [where K = w_kit and old = "Some (w_set [])" and b = w_bind and
        rows = "choice_rows (digests (w_set [''a''])) (digests (w_set [''b''])) (Some [])",
        OF ok ok _ _ _ w_merges(1) c] w_from_state [of "''a''"] w_from_state [of "''b''"] w_merges(2,3)
    by (simp add: w_kit_def choice_for_def w_set_def)
qed

end
