(* ===== verification/CloudSession.thy ===== *)
theory CloudSession
  imports CloudImport
begin

text \<open>
  \<^verbatim>\<open>native/cloud_session.rs\<close>: the durable record of a cloud session. It names the backups and the
  snapshot a session works from; it is never proof of an upload, so what it says of the cloud only
  changes with a receipt.
\<close>

datatype phase = Prepared | Playing | Uploading | Pending

record reference =
  rf_id :: string
  rf_manifest_sha :: string
  rf_containers :: nat
  rf_blobs :: nat
  rf_bytes :: nat

record session =
  ss_schema :: nat
  ss_binding :: string
  ss_namespace :: string
  ss_id :: string
  ss_revision :: u64
  ss_phase :: phase
  ss_snapshot :: reference
  ss_original_remote :: string
  ss_before_remote :: string
  ss_pre_local :: string
  ss_pre_local_sha :: string
  ss_initial_backup :: string
  ss_target :: string
  ss_target_sha :: string
  ss_target_local_sha :: string
  ss_target_backup :: string
  ss_generation :: u64
  ss_confirmed :: "string option"

type_synonym 'a session_act = "(session, 'a) act"

definition I64_MAX :: nat where
  "I64_MAX = 9223372036854775807"

definition session_check :: "bool \<Rightarrow> unit session_act" where
  "session_check leased = eseq io (if leased then check_lease else eret ())"

text \<open>\<^verbatim>\<open>Access::new\<close>: the export has to be of this scope and runtime and still hold.\<close>

definition access :: "kit \<Rightarrow> string list \<Rightarrow> scope \<Rightarrow> bool \<Rightarrow> local_export option \<Rightarrow> string session_act" where
  "access K runtime sc leased export =
     eseq (case export of None \<Rightarrow> eret ()
       | Some e \<Rightarrow>
           eseq (assert_unchanged K e)
           (ebind (elift (if ex_binding e = scope_binding (sha K) sc
               then scope_namespace (sha K) (uuid_of K) sc else Inr [])) (\<lambda>ns.
           need (ex_binding e = scope_binding (sha K) sc \<and> ex_namespace e = ns \<and> ex_runtime e = runtime)
             ''invalid_scope'')))
     (eseq io
     (eseq (if leased then check_lease else eret ())
     (eseq io
     (ebind (elift (scope_namespace (sha K) (uuid_of K) sc)) (\<lambda>ns.
     eseq (session_check leased)
     (eret ns))))))"

definition session_snapshot :: "string list \<Rightarrow> string \<Rightarrow> reference \<Rightarrow> snapshot" where
  "session_snapshot runtime b r = \<lparr>sn_path = runtime @ [''private'', ''cloud-saves'', rf_id r], sn_binding = b,
     sn_containers = rf_containers r, sn_blobs = rf_blobs r, sn_bytes = rf_bytes r,
     sn_consistency = snapshot_consistency\<rparr>"

definition session_require :: "bool \<Rightarrow> unit session_act" where
  "session_require c = need c ''invalid_session''"

definition plain_decode :: "kit \<Rightarrow> u8 list \<Rightarrow> failure + state" where
  "plain_decode K raw = map_err failure_of_error (decode (sha K) raw)"

definition session_form :: "string \<Rightarrow> string \<Rightarrow> session \<Rightarrow> bool" where
  "session_form b ns r \<longleftrightarrow>
     ss_schema r = 1 \<and> ss_binding r = b \<and> ss_namespace r = ns \<and> cloud_identifier (ss_id r) '''' \<and>
     unat (ss_revision r) \<le> I64_MAX \<and>
     list_all hex_digest [ss_original_remote r, ss_before_remote r, ss_pre_local r, ss_target r, ss_target_sha r] \<and>
     list_all (\<lambda>d. d = ''missing'' \<or> hex_digest d) [ss_pre_local_sha r, ss_target_local_sha r] \<and>
     cloud_identifier (rf_id (ss_snapshot r)) ''snapshot-'' \<and> hex_digest (rf_manifest_sha (ss_snapshot r))"

definition check_initial :: "kit \<Rightarrow> string \<Rightarrow> string \<Rightarrow> session \<Rightarrow> unit session_act" where
  "check_initial K b ns r =
     ebind (backup_data K b ns (ss_initial_backup r)) (\<lambda>initial.
     ebind (elift (case bd_original initial of None \<Rightarrow> Inr no_state | Some x \<Rightarrow> plain_decode K x)) (\<lambda>st.
     ebind (elift (if raw_digest K (bd_original initial) = ss_pre_local_sha r
       then import_digest (sha K) st else Inr [])) (\<lambda>d.
     session_require (raw_digest K (bd_original initial) = ss_pre_local_sha r \<and> d = ss_pre_local r))))"

definition check_target :: "kit \<Rightarrow> string \<Rightarrow> string \<Rightarrow> session \<Rightarrow> unit session_act" where
  "check_target K b ns r =
     ebind (backup_data K b ns (ss_target_backup r)) (\<lambda>bd.
     ebind (elift (plain_decode K (bd_imported bd))) (\<lambda>st.
     ebind (elift (if sha256_hex (sha K) (bd_imported bd) = ss_target_sha r \<and> generation st = ss_generation r
       then import_digest (sha K) st else Inr [])) (\<lambda>d.
     session_require (sha256_hex (sha K) (bd_imported bd) = ss_target_sha r \<and> generation st = ss_generation r \<and>
       d = ss_target r \<and>
       (case bm_state_sha (bd_metadata bd) of None \<Rightarrow> ''missing'' | Some h \<Rightarrow> h) = ss_target_local_sha r))))"

definition check_confirmed :: "kit \<Rightarrow> string \<Rightarrow> string \<Rightarrow> session \<Rightarrow> unit session_act" where
  "check_confirmed K b ns r = (case ss_confirmed r of
      Some n \<Rightarrow>
        ebind (backup_data K b ns n) (\<lambda>bd.
        ebind (elift (plain_decode K (bd_imported bd))) (\<lambda>st.
        ebind (elift (import_digest (sha K) st)) (\<lambda>d.
        session_require (d = ss_before_remote r))))
    | None \<Rightarrow> session_require (ss_before_remote r = ss_original_remote r))"

definition validated :: "kit \<Rightarrow> string list \<Rightarrow> scope \<Rightarrow> string \<Rightarrow> session \<Rightarrow> session session_act" where
  "validated K runtime sc ns r =
     (let b = scope_binding (sha K) sc in
     eseq (session_require (session_form b ns r))
     (ebind (read_snapshot K runtime b (session_snapshot runtime b (ss_snapshot r))) (\<lambda>cloud.
     ebind (elift (if v_digest cloud = rf_manifest_sha (ss_snapshot r)
       then import_digest (sha K) (v_state cloud) else Inr [])) (\<lambda>d.
     eseq (session_require (v_digest cloud = rf_manifest_sha (ss_snapshot r) \<and> d = ss_original_remote r))
     (eseq (check_initial K b ns r)
     (eseq (check_target K b ns r)
     (eseq (check_confirmed K b ns r)
     (eret r))))))))"

definition load_record :: "kit \<Rightarrow> string list \<Rightarrow> scope \<Rightarrow> string \<Rightarrow> session option session_act" where
  "load_record K runtime sc ns =
     eseq io
     (ebind (eget journal) (\<lambda>file.
     case file of None \<Rightarrow> eret None
     | Some f \<Rightarrow> ebind (parsed f) (\<lambda>r. ebind (validated K runtime sc ns r) (\<lambda>r. eret (Some r)))))"

definition current_record :: "kit \<Rightarrow> string list \<Rightarrow> scope \<Rightarrow> string \<Rightarrow> session \<Rightarrow> session session_act" where
  "current_record K runtime sc ns r =
     ebind (load_record K runtime sc ns) (\<lambda>current.
     eseq (need (current = Some r) ''changed'')
     (eseq (session_require (unat (ss_revision r) < I64_MAX))
     (eret r)))"

text \<open>A new record never replaces one. The size of the written text is one more check that may fail.\<close>

definition store_record :: "bool \<Rightarrow> session \<Rightarrow> bool \<Rightarrow> unit session_act" where
  "store_record leased r new =
     eseq (need leased ''invalid_lock'')
     (eseq (session_check leased)
     (eseq (io_as ''invalid_session'')
     (if new then
        eseq io
        (eseq (session_check leased)
        (ebind (eget (\<lambda>s. journal s \<noteq> None)) (\<lambda>taken.
        if taken then efail local_failure else landing (\<lambda>s. s\<lparr>journal := Some (Parsed r)\<rparr>))))
      else eseq io (landing (\<lambda>s. s\<lparr>journal := Some (Parsed r)\<rparr>)))))"

definition capture :: "kit \<Rightarrow> local_export \<Rightarrow> (string \<times> string) session_act" where
  "capture K e =
     eseq (assert_unchanged K e)
     (ebind (backup K (ex_binding e) (ex_namespace e)
        (if ex_raw_digest e \<noteq> ''missing'' then Some (ex_encoded e) else None) (ex_encoded e) None) (\<lambda>n.
     eseq (assert_unchanged K e)
     (eret (n, sha256_hex (sha K) (ex_encoded e)))))"

section \<open>Operations\<close>

definition load_session :: "kit \<Rightarrow> string list \<Rightarrow> scope \<Rightarrow> session option session_act" where
  "load_session K runtime sc =
     ebind (access K runtime sc False None) (\<lambda>ns.
     ebind (load_record K runtime sc ns) (\<lambda>r.
     eseq (session_check False)
     (eret r)))"

definition begin_session ::
  "kit \<Rightarrow> string list \<Rightarrow> scope \<Rightarrow> snapshot \<Rightarrow> local_export \<Rightarrow> phase \<Rightarrow> session session_act" where
  "begin_session K runtime sc sn e ph =
     eseq (session_require (ph \<in> {Prepared, Playing}))
     (ebind (access K runtime sc True (Some e)) (\<lambda>ns.
     ebind (load_record K runtime sc ns) (\<lambda>current.
     eseq (need (current = None) ''busy'')
     (ebind (read_snapshot K runtime (scope_binding (sha K) sc) sn) (\<lambda>cloud.
     ebind (capture K e) (\<lambda>(n, h).
     ebind (elift (import_digest (sha K) (v_state cloud))) (\<lambda>d.
     ebind (new_id []) (\<lambda>sid.
     eseq (need (sn_path sn \<noteq> []) ''invalid_snapshot'')
     (let r = \<lparr>ss_schema = 1, ss_binding = scope_binding (sha K) sc, ss_namespace = ns, ss_id = sid,
          ss_revision = 0, ss_phase = ph,
          ss_snapshot = \<lparr>rf_id = last (sn_path sn), rf_manifest_sha = v_digest cloud,
            rf_containers = sn_containers sn, rf_blobs = sn_blobs sn, rf_bytes = sn_bytes sn\<rparr>,
          ss_original_remote = d, ss_before_remote = d, ss_pre_local = ex_content e,
          ss_pre_local_sha = ex_raw_digest e, ss_initial_backup = n, ss_target = ex_content e,
          ss_target_sha = h, ss_target_local_sha = ex_raw_digest e, ss_target_backup = n,
          ss_generation = ex_generation e, ss_confirmed = None\<rparr> in
      eseq (store_record True r True) (eret r))))))))))"

definition update_session ::
  "kit \<Rightarrow> string list \<Rightarrow> scope \<Rightarrow> session \<Rightarrow> phase \<Rightarrow> local_export option \<Rightarrow> session session_act" where
  "update_session K runtime sc r ph export =
     eseq (session_require (ph \<noteq> Uploading \<or> export \<noteq> None))
     (ebind (access K runtime sc True export) (\<lambda>ns.
     ebind (current_record K runtime sc ns r) (\<lambda>v.
     ebind (case export of None \<Rightarrow> eret v
       | Some e \<Rightarrow>
           ebind (capture K e) (\<lambda>(n, h).
           eret (v\<lparr>ss_target_backup := n, ss_target_sha := h, ss_target := ex_content e,
             ss_target_local_sha := ex_raw_digest e, ss_generation := ex_generation e\<rparr>))) (\<lambda>v.
     let v = v\<lparr>ss_phase := ph, ss_revision := ss_revision v + 1\<rparr> in
     eseq (store_record True v False) (eret v)))))"

definition confirm_session :: "kit \<Rightarrow> session \<Rightarrow> local_export \<Rightarrow> receipt \<Rightarrow> unit session_act" where
  "confirm_session K v e rc =
     eseq (assert_unchanged K e)
     (eseq (need (ex_content e = ss_target v \<and> ex_raw_digest e = ss_target_local_sha v \<and>
        sha256_hex (sha K) (ex_encoded e) = ss_target_sha v) ''changed'')
     (need (receipt_verifies rc (ex_binding e) (ss_target v)) ''invalid_receipt''))"

definition checkpoint ::
  "kit \<Rightarrow> string list \<Rightarrow> scope \<Rightarrow> session \<Rightarrow> local_export \<Rightarrow> receipt \<Rightarrow> session session_act" where
  "checkpoint K runtime sc r e rc =
     ebind (access K runtime sc True (Some e)) (\<lambda>ns.
     ebind (current_record K runtime sc ns r) (\<lambda>v.
     eseq (confirm_session K v e rc)
     (let v = v\<lparr>ss_before_remote := ss_target v, ss_confirmed := Some (ss_target_backup v),
          ss_phase := Playing, ss_revision := ss_revision v + 1\<rparr> in
      eseq (store_record True v False) (eret v))))"

definition complete_session ::
  "kit \<Rightarrow> string list \<Rightarrow> scope \<Rightarrow> session \<Rightarrow> local_export \<Rightarrow> receipt \<Rightarrow> unit session_act" where
  "complete_session K runtime sc r e rc =
     ebind (access K runtime sc True (Some e)) (\<lambda>ns.
     ebind (current_record K runtime sc ns r) (\<lambda>v.
     eseq (confirm_session K v e rc)
     (eseq (session_check True)
     (landing (\<lambda>s. s\<lparr>journal := None\<rparr>)))))"

end
