(* ===== verification/CloudDownload.thy ===== *)
theory CloudDownload
  imports CloudSession
begin

text \<open>
  Downloading a snapshot: \<^verbatim>\<open>download_cached\<close> of \<^verbatim>\<open>native/cloud_storage.rs\<close> and \<^verbatim>\<open>native/cloud_cache.rs\<close>.
  These run over the service and the private storage together, so their state is both: the world of
  the service \<open>net\<close>, the storage \<open>disk\<close>, and the two files the session flow keeps beside it.
\<close>

section \<open>State\<close>

record cache_pointer =
  cp_schema :: nat
  cp_binding :: string
  cp_snapshot :: string
  cp_manifest_sha :: string
  cp_containers :: nat
  cp_blobs :: nat
  cp_bytes :: nat

record 'w flow =
  net :: 'w
  disk :: "session store"
  cache_file :: "cache_pointer json_file option"
  offline_file :: "u8 list option"

type_synonym ('w, 'a) flow_act = "('w flow, failure, 'a) eff"

text \<open>The JSON reader, \<^verbatim>\<open>chrono\<close>'s reader and printer of times, and the text of a manifest.\<close>

record wire =
  json_of :: "u8 list \<Rightarrow> json option"
  seconds_of :: "string \<Rightarrow> int option"
  rfc3339 :: "nat \<Rightarrow> string option"
  manifest_text :: "manifest \<Rightarrow> u8 list"

definition on_disk :: "(session, 'a) act \<Rightarrow> ('w, 'a) flow_act" where
  "on_disk m s = (case m (disk s) of (r, d) \<Rightarrow> (r, s\<lparr>disk := d\<rparr>))"

definition on_net :: "('w, 'e, 'a) eff \<Rightarrow> ('w flow, 'e, 'a) eff" where
  "on_net m s = (case m (net s) of (r, w) \<Rightarrow> (r, s\<lparr>net := w\<rparr>))"

definition freq :: "bool \<Rightarrow> string \<Rightarrow> ('w, unit) flow_act" where
  "freq c m = elift (cloud_require c m)"

text \<open>A file replaced by \<^verbatim>\<open>atomic_at\<close>: a failed flush comes after the change.\<close>

definition flow_landing :: "('w flow \<Rightarrow> 'w flow) \<Rightarrow> ('w, unit) flow_act" where
  "flow_landing change = ebind (on_disk next_io) (\<lambda>x. case x of Refused f \<Rightarrow> efail f
     | Fine \<Rightarrow> emod change | Unsynced f \<Rightarrow> eseq (emod change) (efail f))"

definition due_in :: "('w flow, 'z) transport_scheme \<Rightarrow> nat \<Rightarrow> ('w, nat) flow_act" where
  "due_in T d s = (case clock T s of (now, s) \<Rightarrow> (Inr (now + d), s))"

section \<open>Fetching\<close>

record download =
  dl_files :: "(string, u8 list) btree"
  dl_manifest :: "saved_container list"
  dl_before :: "(string, atom list) btree"
  dl_total :: nat

fun fetch_atom ::
  "('w flow, 'z) transport_scheme \<Rightarrow> kit \<Rightarrow> limits \<Rightarrow> nat \<Rightarrow> cloud_container \<Rightarrow> cached_container option \<Rightarrow>
   nat \<times> atom \<Rightarrow> download \<times> nat \<times> saved_blob list \<Rightarrow> ('w, download \<times> nat \<times> saved_blob list) flow_act" where
  "fetch_atom T K L till c previous (i, a) (d, bytes, saved) =
     eseq (check_time T till)
     (let maximum = (case atom_size a of Some n \<Rightarrow> n | None \<Rightarrow> min (blob_bytes L) (csize c - bytes)) in
     ebind (case previous of Some p \<Rightarrow> eret (snd (cc_blobs p ! i))
       | None \<Rightarrow> reader_get T L till (Atom (atom_id a)) maximum) (\<lambda>data.
     eseq (freq ((case atom_size a of None \<Rightarrow> True | Some n \<Rightarrow> n = length data) \<and> length data \<le> maximum)
        ''invalid_response'')
     (let filename = blob_file_name (length (dl_files d)) in
     eseq (on_disk io)
     (let d = d\<lparr>dl_files := bt_put filename data (dl_files d), dl_total := dl_total d + length data\<rparr> in
     eseq (freq (dl_total d \<le> total_bytes L) ''bounds'')
     (eret (d, bytes + length data, saved @ [\<lparr>sb_name = atom_name a, sb_atom = atom_id a,
        sb_file = ''blobs/'' @ filename, sb_size = length data, sb_sha = sha256_hex (sha K) data\<rparr>]))))))"

definition reusable :: "cache option \<Rightarrow> cloud_container \<Rightarrow> cached_container option" where
  "reusable cache c = (case cache of None \<Rightarrow> None
     | Some v \<Rightarrow> (case bt_get (ca_containers v) (name c) of None \<Rightarrow> None
        | Some p \<Rightarrow> if cc_metadata p = c then Some p else None))"

definition fetch_container ::
  "('w flow, 'z) transport_scheme \<Rightarrow> kit \<Rightarrow> wire \<Rightarrow> limits \<Rightarrow> nat \<Rightarrow> cache option \<Rightarrow> cloud_container \<Rightarrow> download \<Rightarrow>
   ('w, download) flow_act" where
  "fetch_container T K W L till cache c d =
     eseq (check_time T till)
     (let previous = reusable cache c in
     ebind (case previous of Some p \<Rightarrow> eret (map fst (cc_blobs p), d)
       | None \<Rightarrow> ebind (reader_atoms T (json_of W) L till c) (\<lambda>atoms.
           eret (atoms, d\<lparr>dl_before := bt_put (name c) atoms (dl_before d)\<rparr>))) (\<lambda>(atoms, d).
     eseq (freq (length (dl_files d) + length atoms \<le> max_blobs L) ''bounds'')
     (ebind (efor (fetch_atom T K L till c previous) (List.enumerate 0 atoms) (d, 0, [])) (\<lambda>(d, bytes, saved).
     eseq (freq (bytes = csize c) ''changed'')
     (eret (d\<lparr>dl_manifest := dl_manifest d @ [\<lparr>sv_name = name c, sv_display = display c, sv_etag = etag c,
        sv_time = word_of_nat (client_file_time c), sv_size = csize c, sv_blobs = saved\<rparr>]\<rparr>))))))"

text \<open>What was listed before has to be listed again the same way.\<close>

definition recheck_container ::
  "('w flow, 'z) transport_scheme \<Rightarrow> wire \<Rightarrow> limits \<Rightarrow> nat \<Rightarrow> download \<Rightarrow> cloud_container \<Rightarrow> unit \<Rightarrow> ('w, unit) flow_act" where
  "recheck_container T W L till d c = (\<lambda>_. case bt_get (dl_before d) (name c) of None \<Rightarrow> eret ()
     | Some atoms \<Rightarrow> ebind (reader_atoms T (json_of W) L till c) (\<lambda>again. freq (again = atoms) ''changed''))"

definition publish_snapshot :: "string \<Rightarrow> snapshot_folder \<Rightarrow> (session, unit) act" where
  "publish_snapshot n folder =
     ebind (eget (\<lambda>s. bt_has (snapshots s) n)) (\<lambda>taken.
     if taken then efail local_failure
     else landing (\<lambda>s. s\<lparr>snapshots := bt_put n folder (snapshots s)\<rparr>))"

definition download_cached ::
  "('w flow, 'z) transport_scheme \<Rightarrow> kit \<Rightarrow> wire \<Rightarrow> limits \<Rightarrow> string list \<Rightarrow> cache option \<Rightarrow> ('w, snapshot) flow_act" where
  "download_cached T K W L runtime cache =
     ebind (eget (transport_scope T)) (\<lambda>sc.
     let b = scope_binding (sha K) sc;
         cache = (case cache of Some c \<Rightarrow> if ca_binding c = b then Some c else None | None \<Rightarrow> None) in
     ebind (due_in T (deadline L)) (\<lambda>till.
     eseq (on_disk io)
     (ebind (reader_inventory T (json_of W) (seconds_of W) L till) (\<lambda>inv.
     ebind (on_disk (new_id ''.snapshot-'')) (\<lambda>staging.
     ebind (on_disk (new_id ''snapshot-'')) (\<lambda>destination.
     eseq (on_disk io)
     (ebind (efor (fetch_container T K W L till cache) inv
        \<lparr>dl_files = [], dl_manifest = [], dl_before = [], dl_total = 0\<rparr>) (\<lambda>d.
     eseq (efor (recheck_container T W L till d) inv ())
     (ebind (reader_inventory T (json_of W) (seconds_of W) L till) (\<lambda>again.
     eseq (freq (again = inv) ''changed'')
     (eseq (check_time T till)
     (let folder = \<lparr>manifest_bytes = Some (manifest_text W \<lparr>mf_schema = 1, mf_binding = b,
            mf_consistency = snapshot_consistency, mf_containers = dl_manifest d\<rparr>),
          blob_files = Some (dl_files d), other_names = []\<rparr> in
     eseq (on_disk io)
     (eseq (check_time T till)
     (eseq (on_disk io)
     (eseq (on_disk (publish_snapshot destination folder))
     (eret \<lparr>sn_path = runtime @ [''private'', ''cloud-saves'', destination], sn_binding = b,
        sn_containers = length inv, sn_blobs = length (dl_files d), sn_bytes = dl_total d,
        sn_consistency = snapshot_consistency\<rparr>))))))))))))))))"

section \<open>Reuse\<close>

definition pointed_snapshot :: "string list \<Rightarrow> string \<Rightarrow> cache_pointer \<Rightarrow> snapshot" where
  "pointed_snapshot runtime b v = \<lparr>sn_path = runtime @ [''private'', ''cloud-saves'', cp_snapshot v], sn_binding = b,
     sn_containers = cp_containers v, sn_blobs = cp_blobs v, sn_bytes = cp_bytes v,
     sn_consistency = snapshot_consistency\<rparr>"

definition cache_load :: "kit \<Rightarrow> string list \<Rightarrow> scope \<Rightarrow> ('w, cache) flow_act" where
  "cache_load K runtime sc =
     (let b = scope_binding (sha K) sc in
     eseq (on_disk io)
     (ebind (eget cache_file) (\<lambda>file.
     ebind (elift (ok_or file local_failure)) (\<lambda>file.
     ebind (on_disk (parsed file)) (\<lambda>v.
     eseq (freq (cp_schema v = 1 \<and> cp_binding v = b \<and> cloud_identifier (cp_snapshot v) ''snapshot-'' \<and>
        hex_digest (cp_manifest_sha v)) ''local_storage'')
     (ebind (on_disk (read_snapshot K runtime b (pointed_snapshot runtime b v))) (\<lambda>verified.
     eseq (freq (v_digest verified = cp_manifest_sha v) ''local_storage'')
     (eret (v_cache verified)))))))))"

definition remember :: "kit \<Rightarrow> string list \<Rightarrow> scope \<Rightarrow> snapshot \<Rightarrow> ('w, bool) flow_act" where
  "remember K runtime sc sn =
     (let b = scope_binding (sha K) sc in
     ebind (on_disk (read_snapshot K runtime b sn)) (\<lambda>verified.
     eseq (freq (sn_path sn \<noteq> []) ''invalid_snapshot'')
     (ebind (etry (eseq (on_disk io) (flow_landing (\<lambda>s. s\<lparr>cache_file := Some (Parsed
        \<lparr>cp_schema = 1, cp_binding = b, cp_snapshot = last (sn_path sn), cp_manifest_sha = v_digest verified,
         cp_containers = sn_containers sn, cp_blobs = sn_blobs sn, cp_bytes = sn_bytes sn\<rparr>)\<rparr>)))) (\<lambda>r.
     eret (is_ok r)))))"

definition forget :: "string \<Rightarrow> cache option \<Rightarrow> ('w, cache option) flow_act" where
  "forget n cached =
     eseq (elift (map_err (\<lambda>_. Failure ''invalid_request'') (save_name n True)))
     (eret (map_option (\<lambda>c. c\<lparr>ca_containers := bt_del (n @ '',savedgame'') (ca_containers c)\<rparr>) cached))"

definition cache_download ::
  "('w flow, 'z) transport_scheme \<Rightarrow> kit \<Rightarrow> wire \<Rightarrow> limits \<Rightarrow> string list \<Rightarrow> string list \<Rightarrow> ('w, snapshot) flow_act" where
  "cache_download T K W L runtime force =
     ebind (due_in T (deadline L)) (\<lambda>till.
     eseq (check_time T till)
     (eseq (freq (length force \<le> max_containers L * 2) ''invalid_request'')
     (ebind (eget (transport_scope T)) (\<lambda>sc.
     ebind (etry (cache_load K runtime sc)) (\<lambda>r.
     ebind (efor forget force (case r of Inr c \<Rightarrow> Some c | Inl _ \<Rightarrow> None)) (\<lambda>cached.
     eseq (check_time T till)
     (eseq (on_disk io)
     (ebind (check_time T till) (\<lambda>left.
     ebind (download_cached T K W (L\<lparr>deadline := left\<rparr>) runtime cached) (\<lambda>sn.
     eseq (check_time T till)
     (eseq (etry (remember K runtime sc sn) :: ('w, failure + bool) flow_act)
     (eseq (check_time T till)
     (eret sn)))))))))))))"

end
