(* ===== verification/CloudClient.thy ===== *)
theory CloudClient
  imports CloudDownload
begin

text \<open>
  The \<^verbatim>\<open>Client\<close> of \<^verbatim>\<open>native/cloud_runtime.rs\<close>: the operations of the service as requests to the
  authenticated helper. The helper and its pipe are a world; each exchange first checks the play
  lease, and a failed one closes the pipe.
\<close>

record 'w helper =
  helper_scope :: scope
  can_write :: bool
  exchange :: "json \<Rightarrow> u8 list \<Rightarrow> nat \<Rightarrow> nat \<Rightarrow> bool \<Rightarrow> 'w \<Rightarrow> (failure + json \<times> u8 list) \<times> 'w"
  pipe_fail :: "'w \<Rightarrow> 'w"
  helper_cancel :: "'w \<Rightarrow> bool \<times> 'w"
  helper_clock :: "'w \<Rightarrow> nat \<times> 'w"

definition headers_of :: "json \<Rightarrow> failure + (string, string) btree" where
  "headers_of v =
     rbind (ok_or (as_object v) (Failure ''invalid_response'')) (\<lambda>m.
     rfold (\<lambda>(k, x) out. rbind (ok_or (as_str x) (Failure ''invalid_response'')) (\<lambda>t. Inr (bt_put k t out))) m [])"

definition client_exchange :: "'w helper \<Rightarrow> json \<Rightarrow> u8 list \<Rightarrow> nat \<Rightarrow> nat \<Rightarrow> bool \<Rightarrow> ('w, response) flow_act" where
  "client_exchange H request payload maximum wait clean =
     eseq (on_disk check_lease)
     (ebind (on_net (exchange H request payload maximum wait clean)) (\<lambda>(answer, content).
     ebind (elift (cloud_number (jget answer ''status'') 599)) (\<lambda>s.
     eseq (freq (100 \<le> s) ''invalid_response'')
     (ebind (elift (headers_of (jget answer ''headers''))) (\<lambda>hs.
     ebind (elift (check_headers hs)) (\<lambda>hs.
     eret \<lparr>status = word_of_nat s, headers = hs, body = content\<rparr>))))))"

definition client_response :: "'w helper \<Rightarrow> json \<Rightarrow> u8 list \<Rightarrow> nat \<Rightarrow> nat \<Rightarrow> bool \<Rightarrow> ('w, response) flow_act" where
  "client_response H request payload maximum wait clean =
     ebind (etry (client_exchange H request payload maximum wait clean)) (\<lambda>r.
     case r of Inr v \<Rightarrow> eret v
     | Inl e \<Rightarrow> eseq (emod (\<lambda>s. s\<lparr>net := pipe_fail H (net s)\<rparr>)) (efail e))"

definition client_write :: "'w helper \<Rightarrow> json \<Rightarrow> u8 list \<Rightarrow> nat \<Rightarrow> bool \<Rightarrow> ('w, response) flow_act" where
  "client_write H request payload wait clean =
     eseq (freq (can_write H \<and> length payload \<le> 67108864) ''invalid_request'')
     (client_response H (jset ''max_bytes'' (jnum 4194304) (jset ''body_bytes'' (jnum (length payload)) request))
        payload 4194304 wait clean)"

text \<open>\<^verbatim>\<open>chars().count()\<close>: the bytes that do not continue a character.\<close>

definition char_count :: "string \<Rightarrow> nat" where
  "char_count s = length (filter (\<lambda>c. \<not> (128 \<le> (of_char c :: nat) \<and> (of_char c :: nat) < 192)) s)"

definition client_lease_reply :: "wire \<Rightarrow> 'w helper \<Rightarrow> string \<Rightarrow> nat \<Rightarrow> ('w, lease_reply) flow_act" where
  "client_lease_reply W H oper wait =
     ebind (client_write H (JObj [(''op'', JStr oper)]) [] wait False) (\<lambda>a.
     if status a \<noteq> 200 \<and> status a \<noteq> 201 then
       eret \<lparr>lease_status = status a, owner_change_id = [], quota_bytes = 0\<rparr>
     else
       ebind (elift (cloud_json (json_of W) (body a))) (\<lambda>v.
       ebind (elift (cloud_text (jget v ''owner_change_id'') 1024 False)) (\<lambda>own.
       eseq (freq (char_count own \<le> 256) ''invalid_response'')
       (ebind (elift (cloud_number (jget v ''quota_bytes'') usize_max)) (\<lambda>quota.
       eseq (freq (0 < quota) ''invalid_response'')
       (eret \<lparr>lease_status = status a, owner_change_id = own, quota_bytes = word_of_nat quota\<rparr>))))))"

definition read_request :: "read_operation \<Rightarrow> failure + json" where
  "read_request p = (case p of
      Index skip None \<Rightarrow>
        if skip = 0 then Inr (JObj [(''op'', JStr ''index'')]) else Inl (Failure ''invalid_request'')
    | Index skip (Some token) \<Rightarrow>
        rbind (cloud_require (1 \<le> skip \<and> skip \<le> 4096) ''invalid_request'') (\<lambda>_.
        rbind (cloud_text (JStr token) 8192 False) (\<lambda>_.
        Inr (JObj [(''op'', JStr ''index''), (''skip_items'', jnum skip), (''continuation_token'', JStr token)])))
    | Container n \<Rightarrow>
        rbind (cloud_text (JStr n) 1024 False) (\<lambda>_.
        rbind (cloud_require (n \<noteq> ''.'' \<and> n \<noteq> ''..'') ''invalid_request'') (\<lambda>_.
        Inr (JObj [(''op'', JStr ''container''), (''wire_name'', JStr n)])))
    | Atom i \<Rightarrow>
        rbind (cloud_require (guid i) ''invalid_request'') (\<lambda>_.
        Inr (JObj [(''op'', JStr ''atom''), (''atom'', JStr i)])))"

definition client_read :: "'w helper \<Rightarrow> read_operation \<Rightarrow> nat \<Rightarrow> nat \<Rightarrow> ('w, response) flow_act" where
  "client_read H p wait maximum =
     eseq (freq (maximum \<le> 67108864) ''invalid_request'')
     (eseq (freq ((case p of Atom _ \<Rightarrow> True | _ \<Rightarrow> False) \<or> maximum \<le> 4194304) ''invalid_request'')
     (ebind (elift (read_request p)) (\<lambda>request.
     client_response H (jset ''max_bytes'' (jnum maximum) request) [] maximum wait False)))"

definition client_release :: "'w helper \<Rightarrow> nat \<Rightarrow> ('w, u16) flow_act" where
  "client_release H wait =
     ebind (client_write H (JObj [(''op'', JStr ''lease_release'')]) [] wait True) (\<lambda>a. eret (status a))"

definition client_upload_atom :: "wire \<Rightarrow> 'w helper \<Rightarrow> u8 list \<Rightarrow> nat \<Rightarrow> ('w, string) flow_act" where
  "client_upload_atom W H payload wait =
     ebind (client_write H (JObj [(''op'', JStr ''atom_upload'')]) payload wait False) (\<lambda>a.
     if \<not> (200 \<le> status a \<and> status a < 300) then
       efail (with_status (status a) (Failure (if status a = 409 then ''lease_lost''
         else if status a = 401 \<or> status a = 403 then ''authentication'' else ''transport'')))
     else
       ebind (elift (cloud_json (json_of W) (body a))) (\<lambda>v.
       ebind (elift (ok_or (as_str (jget v ''atom'')) (Failure ''invalid_response''))) (\<lambda>i.
       eseq (freq (guid i) ''invalid_response'') (eret i))))"

definition client_put :: "wire \<Rightarrow> 'w helper \<Rightarrow> string \<Rightarrow> string \<Rightarrow> u64 \<Rightarrow> (string, string) btree \<Rightarrow> nat \<Rightarrow> ('w, u16) flow_act" where
  "client_put W H n shown modified_at atoms wait =
     eseq (freq (unat modified_at \<le> I64_MAX) ''invalid_request'')
     (ebind (elift (ok_or (rfc3339 W (unat modified_at)) (Failure ''invalid_request''))) (\<lambda>date.
     ebind (client_write H (JObj [(''op'', JStr ''container_put''), (''wire_name'', JStr n), (''display_name'', JStr shown),
        (''modified'', JStr date), (''atoms'', JObj (map (\<lambda>(k, v). (k, JStr v)) atoms))]) [] wait False) (\<lambda>a.
     eret (status a))))"

definition client_delete :: "'w helper \<Rightarrow> string \<Rightarrow> nat \<Rightarrow> ('w, u16) flow_act" where
  "client_delete H n wait =
     ebind (client_write H (JObj [(''op'', JStr ''container_delete''), (''wire_name'', JStr n)]) [] wait False) (\<lambda>a.
     eret (status a))"

definition client_transport :: "'w helper \<Rightarrow> 'w flow transport" where
  "client_transport H = \<lparr>transport_scope = (\<lambda>_. helper_scope H), read_op = client_read H,
     load_cancel = (\<lambda>s. case helper_cancel H (net s) of (c, w) \<Rightarrow> (c, s\<lparr>net := w\<rparr>)),
     clock = (\<lambda>s. case helper_clock H (net s) of (t, w) \<Rightarrow> (t, s\<lparr>net := w\<rparr>))\<rparr>"

text \<open>\<^verbatim>\<open>Operations::remote\<close>: a fresh snapshot is downloaded and read back.\<close>

definition client_remote :: "kit \<Rightarrow> wire \<Rightarrow> string list \<Rightarrow> 'w helper \<Rightarrow> nat \<Rightarrow> string list \<Rightarrow> ('w, state) flow_act" where
  "client_remote K W runtime H wait force =
     ebind (cache_download (client_transport H) K W (limits_default\<lparr>deadline := min wait 180000000000\<rparr>) runtime force)
       (\<lambda>sn.
     ebind (on_disk (read_snapshot K runtime (scope_binding (sha K) (helper_scope H)) sn)) (\<lambda>v.
     eret (v_state v)))"

definition client_ops :: "kit \<Rightarrow> wire \<Rightarrow> string list \<Rightarrow> 'w helper \<Rightarrow> 'w flow operations" where
  "client_ops K W runtime H =
     \<lparr>transport_scope = transport_scope (client_transport H), read_op = read_op (client_transport H),
      load_cancel = load_cancel (client_transport H), clock = clock (client_transport H),
      acquire = client_lease_reply W H ''lease_acquire'', renew_lease = client_lease_reply W H ''lease_renew'',
      release = client_release H, upload_atom = client_upload_atom W H,
      put_container = client_put W H, delete_container = client_delete H,
      remote_state = client_remote K W runtime H\<rparr>"

end
