(* ===== verification/CloudFlow.thy ===== *)
theory CloudFlow
  imports CloudClient
begin

text \<open>
  \<^verbatim>\<open>native/cloud_flow.rs\<close>: what happens to the saves before and after a game session, over any
  client. A result may ask for attention, with the plan the user has to decide on.
\<close>

record attention =
  at_failure :: failure
  at_plan :: "plan option"

type_synonym ('w, 'a) outcome = "('w flow, attention, 'a) eff"

definition attend :: "('w, 'a) flow_act \<Rightarrow> ('w, 'a) outcome" where
  "attend m s = (case m s of (Inl e, s) \<Rightarrow> (Inl \<lparr>at_failure = e, at_plan = None\<rparr>, s) | (Inr a, s) \<Rightarrow> (Inr a, s))"

definition conflicting :: "plan \<Rightarrow> ('w, 'a) outcome" where
  "conflicting p = efail \<lparr>at_failure = Failure ''conflict'', at_plan = Some p\<rparr>"

record flow_request =
  rq_runtime :: "string list"
  rq_review :: "(plan \<times> choice) option"
  rq_binding :: "string option"

definition OFFLINE_BODY :: "u8 list" where
  "OFFLINE_BODY = bytes_of ''Flightdeck local session pending'' @ [10]"

definition offline :: "bool \<Rightarrow> ('w, bool) flow_act" where
  "offline mark =
     eseq (on_disk io)
     (eseq (on_disk check_lease)
     (if mark then
        eseq (on_disk io)
        (eseq (flow_landing (\<lambda>s. s\<lparr>offline_file := Some OFFLINE_BODY\<rparr>))
        (eret True))
      else
        eseq (on_disk io)
        (ebind (eget offline_file) (\<lambda>file.
        case file of None \<Rightarrow> eret False
        | Some b \<Rightarrow>
            eseq (freq (length b \<le> 128) ''unsupported'')
            (eseq (freq (b = OFFLINE_BODY) ''local_storage'')
            (eret True))))))"

definition enable_local :: "('w, unit) flow_act" where
  "enable_local = on_disk (
     eseq io
     (eseq check_lease
     (eseq io
     (ebind (eget enabled) (\<lambda>on.
     eseq (if on then eret () else landing (\<lambda>s. s\<lparr>enabled := True\<rparr>))
     io)))))"

definition finish_session ::
  "kit \<Rightarrow> 'w flow operations \<Rightarrow> string list \<Rightarrow> session \<Rightarrow> string \<Rightarrow> bool \<Rightarrow> ('w, unit) flow_act" where
  "finish_session K T runtime r remote_digest playing =
     ebind (eget (transport_scope T)) (\<lambda>sc.
     ebind (on_disk (export_local K runtime sc)) (\<lambda>e.
     ebind (on_disk (update_session K runtime sc r Uploading (Some e))) (\<lambda>r.
     ebind (elift (import_decode K (ex_encoded e))) (\<lambda>st.
     ebind (upload (sha K) sc T st remote_digest (on_disk (assert_unchanged K e)) write_limits_default) (\<lambda>rc.
     eseq (on_disk (record_common K e rc))
     (eseq (freq (released rc) ''lease_lost'')
     (if playing then eseq (on_disk (checkpoint K runtime sc r e rc)) (eret ())
      else on_disk (complete_session K runtime sc r e rc))))))))"

definition reviewed :: "plan \<Rightarrow> plan \<Rightarrow> bool" where
  "reviewed p review \<longleftrightarrow> pl_binding p = pl_binding review \<and> pl_remote_digest p = pl_remote_digest review \<and>
     pl_local_digest p = pl_local_digest review"

text \<open>An import of the flow has to be durable.\<close>

definition apply_durably :: "kit \<Rightarrow> string list \<Rightarrow> scope \<Rightarrow> plan \<Rightarrow> choice \<Rightarrow> ('w, unit) flow_act" where
  "apply_durably K runtime sc p ch =
     ebind (on_disk (apply_plan K runtime sc p ch)) (\<lambda>r. freq (ir_durable r) ''local_storage'')"

definition before_reviewed ::
  "kit \<Rightarrow> 'w flow operations \<Rightarrow> string list \<Rightarrow> scope \<Rightarrow> snapshot \<Rightarrow> plan \<Rightarrow> session option \<Rightarrow> plan \<times> choice \<Rightarrow>
   ('w, unit) outcome" where
  "before_reviewed K T runtime sc sn p record = (\<lambda>(review, ch).
     if \<not> reviewed p review then conflicting p
     else attend (
       eseq (if ch = ChooseCloud then apply_durably K runtime sc p ChooseCloud else eret ())
       (ebind (case record of Some r \<Rightarrow> eret r
          | None \<Rightarrow> ebind (on_disk (export_local K runtime sc)) (\<lambda>e.
              on_disk (begin_session K runtime sc sn e Prepared))) (\<lambda>r.
        finish_session K T runtime r (pl_remote_digest p) True))))"

definition resume_session ::
  "kit \<Rightarrow> 'w flow operations \<Rightarrow> string list \<Rightarrow> scope \<Rightarrow> plan \<Rightarrow> string \<Rightarrow> session \<Rightarrow> ('w, unit) outcome" where
  "resume_session K T runtime sc p local_digest r =
     (if pl_remote_digest p \<noteq> ss_before_remote r \<and> pl_remote_digest p \<noteq> ss_target r then conflicting p
      else if ss_phase r \<noteq> Playing \<and> local_digest \<noteq> ss_target r then conflicting p
      else if pl_remote_digest p = ss_target r \<and> pl_remote_digest p \<noteq> ss_before_remote r then
        (if local_digest \<noteq> ss_target r then conflicting p
         else attend (finish_session K T runtime r (pl_remote_digest p) True))
      else attend (
        ebind (on_disk (export_local K runtime sc)) (\<lambda>e.
        eseq (on_disk (update_session K runtime sc r Playing (Some e)))
        (eret ()))))"

definition carry_out :: "kit \<Rightarrow> string list \<Rightarrow> scope \<Rightarrow> plan \<Rightarrow> action \<Rightarrow> ('w, unit) flow_act" where
  "carry_out K runtime sc p act =
     (if act = ImportCloud then apply_durably K runtime sc p ChooseCloud
      else if act = Merge then apply_durably K runtime sc p Automatic else eret ())"

definition save_set_of :: "kit \<Rightarrow> scope \<Rightarrow> state \<Rightarrow> failure + save_set" where
  "save_set_of K sc st = map_err failure_of_error (save_set_from_state (sha K) (scope_binding (sha K) sc) st)"

text \<open>The save has to be what the policy wanted; then the session begins.\<close>

definition begin_playing ::
  "kit \<Rightarrow> string list \<Rightarrow> scope \<Rightarrow> snapshot \<Rightarrow> save_set option \<Rightarrow> ('w, unit) flow_act" where
  "begin_playing K runtime sc sn wanted =
     ebind (on_disk (export_local K runtime sc)) (\<lambda>e.
     ebind (elift (import_decode K (ex_encoded e))) (\<lambda>st.
     ebind (elift (save_set_of K sc st)) (\<lambda>now.
     eseq (freq (Some now = wanted) ''changed'')
     (ebind (on_disk (begin_session K runtime sc sn e Prepared)) (\<lambda>r.
     eseq (on_disk (update_session K runtime sc r Playing (Some e)))
     (eret ()))))))"

definition start_session ::
  "kit \<Rightarrow> string list \<Rightarrow> scope \<Rightarrow> snapshot \<Rightarrow> plan \<Rightarrow> baseline option \<Rightarrow> state \<Rightarrow> state \<Rightarrow> ('w, unit) outcome" where
  "start_session K runtime sc sn p bl local_st cloud_st =
     ebind (attend (elift (save_set_of K sc local_st))) (\<lambda>left.
     ebind (attend (elift (save_set_of K sc cloud_st))) (\<lambda>right.
     ebind (attend (elift (case bl of None \<Rightarrow> Inr None | Some v \<Rightarrow> map_sum id Some (baseline_save_set v)))) (\<lambda>old.
     ebind (attend (elift (map_err failure_of_error
        (decide (scope_binding (sha K) sc) (Some left) (Some right) old)))) (\<lambda>policy.
     if action policy = Conflict \<or> action policy = Blocked then conflicting p
     else attend (eseq (carry_out K runtime sc p (action policy)) (begin_playing K runtime sc sn (target policy)))))))"

text \<open>What is decided once the snapshot, the plan, the journal and the local save are known.\<close>

definition before_decided ::
  "kit \<Rightarrow> 'w flow operations \<Rightarrow> flow_request \<Rightarrow> scope \<Rightarrow> snapshot \<Rightarrow> state \<Rightarrow> baseline option \<Rightarrow> plan \<Rightarrow> session option \<Rightarrow>
   local_export \<Rightarrow> ('w, unit) outcome" where
  "before_decided K T q sc sn cloud_st bl p record e =
     (let runtime = rq_runtime q in
     ebind (attend (elift (import_decode K (ex_encoded e)))) (\<lambda>local_st.
     ebind (attend (elift (import_digest (sha K) local_st))) (\<lambda>local_digest.
     case rq_review q of Some review \<Rightarrow> before_reviewed K T runtime sc sn p record review
     | None \<Rightarrow>
       (case record of Some r \<Rightarrow> resume_session K T runtime sc p local_digest r
        | None \<Rightarrow>
          ebind (attend (offline False)) (\<lambda>off.
          if off \<and> bl = None \<and> containers local_st \<noteq> [] \<and> local_digest \<noteq> pl_remote_digest p \<and>
             containers cloud_st \<noteq> []
          then conflicting p
          else start_session K runtime sc sn p bl local_st cloud_st)))))"

definition before_game :: "kit \<Rightarrow> wire \<Rightarrow> 'w flow operations \<Rightarrow> flow_request \<Rightarrow> ('w, unit) outcome" where
  "before_game K W T q =
     (let runtime = rq_runtime q in
     ebind (eget (transport_scope T)) (\<lambda>sc.
     let b = scope_binding (sha K) sc in
     ebind (attend (cache_download T K W limits_default runtime [])) (\<lambda>sn.
     ebind (attend (on_disk (read_snapshot K runtime b sn))) (\<lambda>cloud.
     ebind (attend (on_disk (load_baseline K sc))) (\<lambda>bl.
     ebind (attend (on_disk (prepare K runtime sc sn bl))) (\<lambda>p.
     ebind (attend (on_disk (load_session K runtime sc))) (\<lambda>record.
     ebind (attend (on_disk (export_local K runtime sc))) (\<lambda>e.
     before_decided K T q sc sn (v_state cloud) bl p record e))))))))"

definition after_game :: "kit \<Rightarrow> wire \<Rightarrow> 'w flow operations \<Rightarrow> flow_request \<Rightarrow> ('w, unit) outcome" where
  "after_game K W T q =
     (let runtime = rq_runtime q in
     ebind (eget (transport_scope T)) (\<lambda>sc.
     let b = scope_binding (sha K) sc in
     eseq (attend (freq (case rq_binding q of None \<Rightarrow> True | Some x \<Rightarrow> b = x) ''invalid_scope''))
     (ebind (attend (cache_download T K W limits_default runtime [])) (\<lambda>sn.
     ebind (attend (on_disk (load_baseline K sc))) (\<lambda>bl.
     ebind (attend (on_disk (prepare K runtime sc sn bl))) (\<lambda>p.
     ebind (attend (on_disk (load_session K runtime sc))) (\<lambda>record.
     ebind (attend (elift (ok_or record (Failure ''invalid_scope'')))) (\<lambda>r.
     ebind (attend (on_disk (export_local K runtime sc))) (\<lambda>e.
     let upload_it = attend (finish_session K T runtime r (pl_remote_digest p) False) in
     case rq_review q of Some (review, ch) \<Rightarrow>
       if \<not> reviewed p review then conflicting p
       else eseq (attend (if ch = ChooseCloud then apply_durably K runtime sc p ChooseCloud else eret ())) upload_it
     | None \<Rightarrow>
       if pl_remote_digest p \<noteq> ss_before_remote r \<and> pl_remote_digest p \<noteq> ex_content e then conflicting p
       else upload_it)))))))))"

end
