(* ===== verification/StoreRules.thy ===== *)
theory StoreRules
  imports CloudSession
begin

text \<open>
  Reasoning about the private storage. A view of the store is something the system calls leave
  alone; an operation keeps a view when no run of it, failed or not, changes it. On a store whose
  script is empty every call succeeds, and operations are computed by \<open>calm\<close> rules.
\<close>

section \<open>Views\<close>

lemma keeps_outcome [keeps_intros]:
  "keeps v m \<Longrightarrow> (\<And>x. keeps v (f x)) \<Longrightarrow> (\<And>x. keeps v (g x)) \<Longrightarrow>
    keeps v (case e of Fine \<Rightarrow> m | Refused x \<Rightarrow> f x | Unsynced x \<Rightarrow> g x)"
  by (cases e) auto

locale plain_view =
  fixes v :: "'j store \<Rightarrow> 'v"
  assumes script: "v (s\<lparr>io_script := x\<rparr>) = v s"
    and drawn: "v (s\<lparr>drawn := n\<rparr>) = v s"
begin

lemma next_io [keeps_intros]: "keeps v next_io"
  by (simp add: keeps_def next_io_def script)

lemma io [keeps_intros]: "keeps v io"
  unfolding io_def by (intro keeps_intros)

lemma landing: "(\<And>s. v (f s) = v s) \<Longrightarrow> keeps v (landing f)"
  unfolding landing_def by (intro keeps_intros)

lemma io_as [keeps_intros]: "keeps v (io_as c)"
  unfolding io_as_def by (intro keeps_intros)

lemma check_lease [keeps_intros]: "keeps v check_lease"
  unfolding check_lease_def by (intro keeps_intros)

lemma check_cancel [keeps_intros]: "keeps v check_cancel"
  unfolding check_cancel_def by (intro keeps_intros)

lemma new_id [keeps_intros]: "keeps v (new_id p)"
  by (simp add: keeps_def new_id_def drawn)

lemma need [keeps_intros]: "keeps v (need c m)"
  unfolding need_def by (intro keeps_intros)

lemma some_file [keeps_intros]: "keeps v (some_file f)"
  unfolding some_file_def by (intro keeps_intros)

lemma bounded_file [keeps_intros]: "keeps v (bounded_file n f)"
  unfolding bounded_file_def by (intro keeps_intros)

lemma parsed [keeps_intros]: "keeps v (parsed f)"
  unfolding parsed_def by (intro keeps_intros)

lemma recheck [keeps_intros]: "keeps v (recheck l)"
  unfolding recheck_def by (intro keeps_intros)

lemma local_state [keeps_intros]: "keeps v (local_state K)"
  unfolding local_state_def by (intro keeps_intros)

lemma read_snapshot [keeps_intros]: "keeps v (read_snapshot K runtime b sn)"
  unfolding read_snapshot_def by (intro keeps_intros)

lemma backup_data [keeps_intros]: "keeps v (backup_data K b ns n)"
  unfolding backup_data_def by (intro keeps_intros)

lemma assert_unchanged [keeps_intros]: "keeps v (assert_unchanged K e)"
  unfolding assert_unchanged_def by (intro keeps_intros)

lemma publish_common:
  assumes "\<And>s x. v (s\<lparr>receipts := x\<rparr>) = v s" "\<And>s x. v (s\<lparr>baseline_file := x\<rparr>) = v s"
  shows "keeps v (publish_common K b ns n e k)"
  unfolding publish_common_def Let_def by (intro keeps_intros landing assms)

lemma backup:
  assumes "\<And>s x. v (s\<lparr>backups := x\<rparr>) = v s"
  shows "keeps v (backup K b ns raw rep snap)"
  unfolding backup_def Let_def by (intro keeps_intros landing assms)

lemma commit_local:
  assumes "\<And>s x. v (s\<lparr>state_file := x\<rparr>) = v s"
  shows "keeps v (commit_local K l p e)"
  unfolding commit_local_def by (intro keeps_intros assms)

end

text \<open>Opening the local save may make its folder, which most views do not see.\<close>

locale view = plain_view v for v :: "'j store \<Rightarrow> 'v" +
  assumes folder: "v (add_folder s) = v s"
begin

lemma add_folder [keeps_intros]: "keeps v (emod add_folder)"
  by (intro keeps_intros folder)

lemma open_local [keeps_intros]: "keeps v (open_local l c ns)"
  unfolding open_local_def by (intro keeps_intros)

lemma prepare [keeps_intros]: "keeps v (prepare K runtime sc sn bl)"
  unfolding prepare_def Let_def by (intro keeps_intros)

lemma common_baseline [keeps_intros]: "keeps v (common_baseline K b ns)"
  unfolding common_baseline_def by (intro keeps_intros)

lemma load_baseline [keeps_intros]: "keeps v (load_baseline K sc)"
  unfolding load_baseline_def by (intro keeps_intros)

lemma export_local [keeps_intros]: "keeps v (export_local K runtime sc)"
  unfolding export_local_def by (intro keeps_intros)

end

lemma stored_state_simps [simp]: "stored_state (s\<lparr>io_script := x\<rparr>) = stored_state s"
  "stored_state (s\<lparr>drawn := n\<rparr>) = stored_state s" "stored_state (s\<lparr>backups := bs\<rparr>) = stored_state s"
  "stored_state (s\<lparr>receipts := rs\<rparr>) = stored_state s" "stored_state (s\<lparr>journal := j\<rparr>) = stored_state s"
  "stored_state (s\<lparr>baseline_file := f\<rparr>) = stored_state s" "stored_state (add_folder s) = stored_state s"
  "has_folder s \<Longrightarrow> stored_state (s\<lparr>state_file := y\<rparr>) = y"
  by (simp_all add: stored_state_def add_folder_def)

text \<open>Rules that walk along a program, one step each.\<close>

named_theorems steps "one step of a program"

lemma step_ebind [steps]: "wp m (\<lambda>a. wp (f a) Q E) E s \<Longrightarrow> wp (ebind m f) Q E s"
  by (simp add: wp_ebind)

lemma step_eseq [steps]: "wp m (\<lambda>_. wp n Q E) E s \<Longrightarrow> wp (eseq m n) Q E s"
  by (simp add: wp_eseq)

lemma step_eret [steps]: "Q a s \<Longrightarrow> wp (eret a) Q E s"
  by (simp add: wp_eret)

lemma step_efail [steps]: "E e s \<Longrightarrow> wp (efail e) Q E s"
  by (simp add: wp_efail)

lemma step_elift [steps]: "(\<And>a. r = Inr a \<Longrightarrow> Q a s) \<Longrightarrow> (\<And>e. r = Inl e \<Longrightarrow> E e s) \<Longrightarrow> wp (elift r) Q E s"
  by (simp add: wp_elift split: sum.split)

lemma step_eget [steps]: "Q (f s) s \<Longrightarrow> wp (eget f) Q E s"
  by (simp add: wp_eget)

lemma step_emod [steps]: "Q () (f s) \<Longrightarrow> wp (emod f) Q E s"
  by (simp add: wp_emod)

lemma step_etry [steps]: "wp m (\<lambda>a. Q (Inr a)) (\<lambda>e. Q (Inl e)) s \<Longrightarrow> wp (etry m) Q E s"
  by (simp add: wp_etry)

lemma step_if [steps]: "(c \<Longrightarrow> wp m Q E s) \<Longrightarrow> (\<not> c \<Longrightarrow> wp n Q E s) \<Longrightarrow> wp (if c then m else n) Q E s"
  by simp

lemma step_need [steps]: "(c \<Longrightarrow> Q () s) \<Longrightarrow> (\<not> c \<Longrightarrow> E (Failure m) s) \<Longrightarrow> wp (need c m) Q E s"
  by (simp add: need_def wp_elift cloud_require_def)

lemma step_case [steps]: "wp (f x y) Q E s \<Longrightarrow> wp (case (x, y) of (x, y) \<Rightarrow> f x y) Q E s"
  by simp

lemma step_let [steps]: "wp (f x) Q E s \<Longrightarrow> wp (let y = x in f y) Q E s"
  by simp

lemma step_new_id [steps]: "Q (p @ id_supply s (drawn s)) (s\<lparr>drawn := drawn s + 1\<rparr>) \<Longrightarrow> wp (new_id p) Q E s"
  by (simp add: wp_def new_id_def)

definition save_view :: "'j store \<Rightarrow> u8 list option \<times> (string, backup_folder) btree \<times> (nat \<Rightarrow> string)" where
  "save_view s = (stored_state s, backups s, id_supply s)"

interpretation saves: view save_view
  by unfold_locales (auto simp: save_view_def stored_state_def add_folder_def)

definition held_view :: "'j store \<Rightarrow> bool \<times> u8 list option \<times> (string, backup_folder) btree \<times> (nat \<Rightarrow> string)" where
  "held_view s = (has_folder s, save_view s)"

interpretation held: plain_view held_view
  by unfold_locales (auto simp: held_view_def save_view_def)

definition cloud_view :: "'j store \<Rightarrow> 'j json_file option \<times> (string, snapshot_folder) btree \<times> (nat \<Rightarrow> string)" where
  "cloud_view s = (journal s, snapshots s, id_supply s)"

interpretation clouds: view cloud_view
  by unfold_locales (auto simp: cloud_view_def add_folder_def)

definition files_view :: "'j store \<Rightarrow> 'j json_file option \<times> (string, backup_folder) btree \<times>
    (string, snapshot_folder) btree \<times> (nat \<Rightarrow> string)" where
  "files_view s = (journal s, backups s, snapshots s, id_supply s)"

interpretation files: view files_view
  by unfold_locales (auto simp: files_view_def add_folder_def)

section \<open>Calm stores\<close>

definition calm :: "'j store \<Rightarrow> bool" where
  "calm s \<longleftrightarrow> io_script s = []"

definition calmed :: "'j store \<Rightarrow> 'j store" where
  "calmed s = s\<lparr>io_script := []\<rparr>"

lemma calmed_sel [simp]: "calm (calmed s)" "backups (calmed s) = backups s" "receipts (calmed s) = receipts s"
  "stored_state (calmed s) = stored_state s" "has_folder (calmed s) = has_folder s" "enabled (calmed s) = enabled s"
  "journal (calmed s) = journal s" "snapshots (calmed s) = snapshots s" "id_supply (calmed s) = id_supply s"
  "drawn (calmed s) = drawn s" "state_file (calmed s) = state_file s"
  by (simp_all add: calm_def calmed_def stored_state_def)

named_theorems calm_wp "operations on a calm store"

lemma calm_next [calm_wp]: "calm s \<Longrightarrow> wp next_io Q E s = Q Fine s"
  by (cases s) (simp add: wp_def next_io_def calm_def)

lemma calm_io [calm_wp]: "calm s \<Longrightarrow> wp io Q E s = Q () s"
  by (simp add: io_def wp_simps calm_wp)

lemma calm_landing [calm_wp]: "calm s \<Longrightarrow> wp (landing f) Q E s = Q () (f s)"
  by (simp add: landing_def wp_simps calm_wp)

lemma calm_io_as [calm_wp]: "calm s \<Longrightarrow> wp (io_as c) Q E s = Q () s"
  by (simp add: io_as_def wp_simps calm_wp)

lemma calm_checks [calm_wp]: "calm s \<Longrightarrow> wp check_lease Q E s = Q () s" "calm s \<Longrightarrow> wp check_cancel Q E s = Q () s"
  "calm s \<Longrightarrow> wp (recheck l) Q E s = Q () s"
  by (simp_all add: check_lease_def check_cancel_def recheck_def wp_simps calm_wp)

lemma calm_session_check [calm_wp]: "calm s \<Longrightarrow> wp (session_check l) Q E s = Q () s"
  by (simp add: session_check_def wp_simps calm_wp)

lemma wp_need [wp_simps]: "wp (need c m) Q E s = (if c then Q () s else E (Failure m) s)"
  by (simp add: need_def wp_simps cloud_require_def)

lemma wp_new_id [wp_simps]: "wp (new_id p) Q E s = Q (p @ id_supply s (drawn s)) (s\<lparr>drawn := drawn s + 1\<rparr>)"
  by (simp add: wp_def new_id_def)

lemma wp_parsed [wp_simps]: "wp (parsed f) Q E s = (case f of Parsed x \<Rightarrow> Q x s | Garbage \<Rightarrow> E (Failure ''invalid_response'') s)"
  by (simp add: parsed_def wp_simps split: json_file.split)

lemma calm_some_file [calm_wp]: "calm s \<Longrightarrow> wp (some_file f) Q E s = (case f of None \<Rightarrow> E local_failure s | Some b \<Rightarrow> Q b s)"
  by (simp add: some_file_def wp_simps calm_wp ok_or_def split: option.split)

lemma calm_bounded_file [calm_wp]: "calm s \<Longrightarrow> wp (bounded_file n f) Q E s =
    (case f of None \<Rightarrow> E local_failure s | Some b \<Rightarrow> if length b \<le> n then Q b s else E (Failure ''unsupported'') s)"
  by (simp add: bounded_file_def wp_simps calm_wp split: option.split)

lemma calm_update [simp]: "calm (s\<lparr>drawn := n\<rparr>) = calm s" "calm (s\<lparr>backups := bs\<rparr>) = calm s"
  "calm (s\<lparr>state_file := f\<rparr>) = calm s" "calm (s\<lparr>receipts := rs\<rparr>) = calm s" "calm (s\<lparr>journal := j\<rparr>) = calm s"
  "calm (add_folder s) = calm s"
  by (simp_all add: calm_def add_folder_def)

lemma calm_open [calm_wp]: "calm s \<Longrightarrow> wp (open_local l True ns) Q E s =
    (if \<not> hex_digest ns then E (Failure ''invalid_scope'') s else if \<not> enabled s then E (Failure ''unsupported'') s
     else if l then Q () (add_folder s) else E (Failure ''invalid_lock'') s)"
  by (simp add: open_local_def wp_simps calm_wp)

lemma calm_local_state [calm_wp]: "calm s \<Longrightarrow> wp (local_state K) Q E s =
    (if (case stored_state s of None \<Rightarrow> False | Some b \<Rightarrow> MAX_STATE < length b) then E (Failure ''unsupported'') s
     else (case decode_or_default K (stored_state s) of Inl e \<Rightarrow> E e s | Inr st \<Rightarrow> Q (stored_state s, st) s))"
  by (auto simp: local_state_def wp_simps calm_wp stored_state_def split: option.split sum.split)

end
