(* ===== verification/ImportSafety.thy ===== *)
theory ImportSafety
  imports StoreRules
begin

text \<open>
  What an import or a restore may do to the local save: nothing, or replace it after a backup from
  which it can be restored, however the run ends.
\<close>

section \<open>Writing a backup\<close>

definition backup_of :: "kit \<Rightarrow> string \<Rightarrow> string \<Rightarrow> u8 list option \<Rightarrow> u8 list \<Rightarrow> string option \<Rightarrow> state \<Rightarrow> backup_folder" where
  "backup_of K b ns raw rep snap st = \<lparr>manifest_file = Some (Parsed \<lparr>bm_schema = 1, bm_binding = b,
       bm_namespace = ns, bm_existed = (raw \<noteq> None), bm_state_sha = map_option (sha256_hex (sha K)) raw,
       bm_generation = generation st, bm_replacement_sha = sha256_hex (sha K) rep, bm_snapshot_sha = snap\<rparr>),
     original_file = raw, imported_file = Some rep, stray_names = []\<rparr>"

definition new_backup :: "kit \<Rightarrow> string \<Rightarrow> string \<Rightarrow> u8 list option \<Rightarrow> u8 list \<Rightarrow> string option \<Rightarrow>
    'j store \<Rightarrow> string \<Rightarrow> 'j store \<Rightarrow> bool" where
  "new_backup K b ns raw rep snap s n t \<longleftrightarrow> (\<exists>k st. n = ''backup-'' @ id_supply s k \<and>
     bt_get (backups s) n = None \<and> decode_or_default K raw = Inr st \<and>
     save_view t = (stored_state s, bt_put n (backup_of K b ns raw rep snap st) (backups s), id_supply s))"

lemma save_view_eq: "save_view t = save_view s \<longleftrightarrow>
    stored_state t = stored_state s \<and> backups t = backups s \<and> id_supply t = id_supply s"
  by (auto simp: save_view_def)

lemma step_io: "(\<And>t. save_view t = save_view s \<Longrightarrow> Q () t) \<Longrightarrow> (\<And>e t. save_view t = save_view s \<Longrightarrow> E e t) \<Longrightarrow> wp io Q E s"
  by (rule wp_keeps [OF saves.io]) auto

lemma step_landing:
  "(\<And>t. save_view t = save_view s \<Longrightarrow> Q () (f t)) \<Longrightarrow> (\<And>e t. save_view t = save_view s \<Longrightarrow> E e t) \<Longrightarrow>
   (\<And>e t. save_view t = save_view s \<Longrightarrow> E e (f t)) \<Longrightarrow> wp (landing f) Q E s"
  unfolding landing_def wp_ebind
  by (rule wp_keeps [OF saves.next_io]) (auto simp: wp_simps split: io_outcome.split)

lemma wp_backup:
  "wp (backup K b ns raw rep snap) (\<lambda>n t. new_backup K b ns raw rep snap s n t)
     (\<lambda>_ t. save_view t = save_view s \<or> (\<exists>n. new_backup K b ns raw rep snap s n t)) s"
  unfolding backup_def Let_def
  by (intro steps step_io step_landing)
    (auto simp: new_backup_def save_view_def bt_has_def backup_of_def)

lemma wp_local_state:
  assumes "\<And>st t. save_view t = save_view s \<Longrightarrow> has_folder t = has_folder s \<Longrightarrow>
      decode_or_default K (stored_state s) = Inr st \<Longrightarrow>
      (case stored_state s of None \<Rightarrow> True | Some b \<Rightarrow> length b \<le> MAX_STATE) \<Longrightarrow> Q (stored_state s, st) t"
    and "\<And>e t. save_view t = save_view s \<Longrightarrow> E e t"
  shows "wp (local_state K) Q E s"
proof -
  have k: "keeps held_view (local_state K)" by (rule held.local_state)
  show ?thesis
  proof (rule wpI)
    fix a t assume run: "local_state K s = (Inr a, t)"
    from keepsD [OF k this] have v: "save_view t = save_view s" "has_folder t = has_folder s"
      by (simp_all add: held_view_def)
    have "wp (local_state K) (\<lambda>a _. a = (stored_state s, snd a) \<and> decode_or_default K (stored_state s) = Inr (snd a) \<and>
        (case stored_state s of None \<Rightarrow> True | Some b \<Rightarrow> length b \<le> MAX_STATE)) (\<lambda>_ _. True) s"
      unfolding local_state_def bounded_file_def some_file_def
      by (intro steps step_io) (auto simp: stored_state_def ok_or_def split: option.splits)
    with run have "a = (stored_state s, snd a) \<and> decode_or_default K (stored_state s) = Inr (snd a) \<and>
      (case stored_state s of None \<Rightarrow> True | Some b \<Rightarrow> length b \<le> MAX_STATE)"
      by (simp add: wp_def)
    then show "Q a t" using assms(1) [OF v, of "snd a"] by metis
  next
    fix e t assume "local_state K s = (Inl e, t)"
    from keepsD [OF k this] show "E e t" by (intro assms(2)) (simp add: held_view_def)
  qed
qed

lemma wp_commit_local:
  "wp (commit_local K l previous encoded)
     (\<lambda>_ t. has_folder t \<and> stored_state t = Some encoded \<and> backups t = backups s \<and> id_supply t = id_supply s)
     (\<lambda>_ t. save_view t = save_view s) s"
  unfolding commit_local_def
proof (intro steps, goal_cases)
  case 1
  show ?case
    apply (rule wp_keeps [OF held.io])
     apply (intro steps)
     apply (rule wp_keeps [OF held.check_cancel])
      apply (intro steps)
      apply (rule wp_keeps [OF held.local_state])
       apply (simp only: split: prod.split)
       apply (intro steps allI impI)
         apply (rule wp_keeps [OF held.recheck])
          apply (intro steps)
          apply (rule wp_keeps [OF held.next_io])
           apply (use 1 in \<open>auto simp: held_view_def save_view_def wp_simps split: io_outcome.split\<close>)
    done
qed simp

section \<open>Replacing the local save\<close>

text \<open>What the environment guarantees: SHA-256 has 32 bytes, the text of a manifest is UTF-8, and
  identifiers are the 32 hexadecimal digits of a UUID.\<close>

definition sound_kit :: "kit \<Rightarrow> bool" where
  "sound_kit K \<longleftrightarrow> is_sha256 (sha K) \<and>
     (\<forall>raw m r. manifest_of K raw = Some m \<and> r \<in> set (mf_containers m) \<longrightarrow> is_string (sv_display r))"

definition uuids :: "'j store \<Rightarrow> bool" where
  "uuids s \<longleftrightarrow> (\<forall>k. length (id_supply s k) = 32 \<and> list_all is_lower_hex (id_supply s k))"

text \<open>The save of \<open>t\<close> replaced that of \<open>s\<close>, which a new backup of \<open>t\<close> holds.\<close>

definition replaced_by :: "kit \<Rightarrow> string \<Rightarrow> string \<Rightarrow> 'j store \<Rightarrow> 'j store \<Rightarrow> string \<Rightarrow> u8 list \<Rightarrow> bool" where
  "replaced_by K b ns s t n i \<longleftrightarrow> (\<exists>snap st k. n = ''backup-'' @ id_supply s k \<and> bt_get (backups s) n = None \<and>
     decode_or_default K (stored_state s) = Inr st \<and> stored_state t = Some i \<and> is_ok (import_decode K i) \<and>
     (case stored_state s of None \<Rightarrow> True | Some r \<Rightarrow> length r \<le> MAX_STATE) \<and>
     (case snap of None \<Rightarrow> True | Some h \<Rightarrow> hex_digest h) \<and>
     bt_get (backups t) n = Some (backup_of K b ns (stored_state s) i snap st))"

definition safe :: "kit \<Rightarrow> string \<Rightarrow> string \<Rightarrow> 'j store \<Rightarrow> 'j store \<Rightarrow> bool" where
  "safe K b ns s t \<longleftrightarrow> id_supply t = id_supply s \<and>
     (\<forall>n f. bt_get (backups s) n = Some f \<longrightarrow> bt_get (backups t) n = Some f) \<and>
     (stored_state t = stored_state s \<or> (\<exists>n i. replaced_by K b ns s t n i))"

lemma replaced_sel: "replaced_by K b ns s t n i \<Longrightarrow> bt_get (backups s) n = None \<and> stored_state t = Some i"
  by (auto simp: replaced_by_def)

lemma safe_refl: "save_view t = save_view s \<Longrightarrow> safe K b ns s t"
  by (simp add: safe_def save_view_def)

lemma safe_cong: "save_view s' = save_view s \<Longrightarrow> save_view t' = save_view t \<Longrightarrow> safe K b ns s' t' = safe K b ns s t"
  by (simp add: safe_def replaced_by_def save_view_def)

lemma new_backup_safe: "new_backup K b ns raw rep snap s n t \<Longrightarrow> safe K b ns s t"
  by (auto simp: new_backup_def safe_def save_view_def bt_get_put)

lemma import_decode_encode:
  assumes "sound_kit K" "is_state st" "import_encode K st = Inr w"
  shows "import_decode K w = Inr st"
  using assms decode_encode_aux [of "sha K" st w]
  by (auto simp: import_encode_def import_decode_def sound_kit_def map_err_def split: sum.splits)

lemma replace_safe:
  assumes "new_backup K b ns (stored_state s) i snap s n t" "stored_state u = Some i" "backups u = backups t"
    "id_supply u = id_supply t" "is_ok (import_decode K i)"
    "case stored_state s of None \<Rightarrow> True | Some r \<Rightarrow> length r \<le> MAX_STATE"
    "case snap of None \<Rightarrow> True | Some h \<Rightarrow> hex_digest h"
  shows "replaced_by K b ns s u n i \<and> safe K b ns s u"
proof -
  obtain k st where k: "n = ''backup-'' @ id_supply s k" "bt_get (backups s) n = None"
      "decode_or_default K (stored_state s) = Inr st"
      "backups t = bt_put n (backup_of K b ns (stored_state s) i snap st) (backups s)" "id_supply t = id_supply s"
    using assms(1) by (auto simp: new_backup_def save_view_def)
  then have "replaced_by K b ns s u n i"
    unfolding replaced_by_def using assms(2-7)
    by (intro exI [of _ snap] exI [of _ st] exI [of _ k]) (simp add: bt_get_put)
  then show ?thesis
    using k assms(3,4) by (auto simp: safe_def bt_get_put)
qed

lemma keeps_settle: "keeps save_view (settle_import K b ns p sel e n d)"
  unfolding settle_import_def Let_def
  by (intro keeps_intros saves.publish_common) (simp_all add: save_view_def)

text \<open>The core both share: back up what is there, then replace it.\<close>

lemma wp_replace:
  fixes s :: "'j store"
  assumes "raw = stored_state s" "is_ok (import_decode K i)"
    "case stored_state s of None \<Rightarrow> True | Some r \<Rightarrow> length r \<le> MAX_STATE"
    "case snap of None \<Rightarrow> True | Some h \<Rightarrow> hex_digest h"
    and rest: "\<And>n d t. safe K b ns s t \<Longrightarrow> replaced_by K b ns s t n i \<Longrightarrow> wp (rest n d) Q E t"
    and fails: "\<And>e t. safe K b ns s t \<Longrightarrow> E e t"
  shows "wp (backup K b ns raw i snap) (\<lambda>n. wp (commit_local K True previous i) (\<lambda>d. wp (rest n d) Q E) E) E s"
proof (rule wp_mono [OF wp_backup])
  fix n and t :: "'j store" assume n: "new_backup K b ns raw i snap s n t"
  show "wp (commit_local K True previous i) (\<lambda>d. wp (rest n d) Q E) E t"
  proof (rule wp_mono [OF wp_commit_local])
    fix d and u :: "'j store" assume "has_folder u \<and> stored_state u = Some i \<and> backups u = backups t \<and> id_supply u = id_supply t"
    with replace_safe [of K b ns s i snap n t u] n assms(1-4) show "wp (rest n d) Q E u"
      by (intro rest) simp_all
  next
    fix e and u :: "'j store" assume "save_view u = save_view t"
    then show "E e u"
      using new_backup_safe [OF n] safe_cong [of s s u t] by (intro fails) simp
  qed
next
  fix e and t :: "'j store" assume "save_view t = save_view s \<or> (\<exists>n. new_backup K b ns raw i snap s n t)"
  then show "E e t"
    using new_backup_safe safe_refl by (intro fails) blast
qed

section \<open>States that can be written\<close>

definition entry_ok :: "container \<Rightarrow> bool" where
  "entry_ok c \<longleftrightarrow> is_string (display_name c) \<and> bt_ok (blobs c)"

lemma is_state_get: "is_state st \<longleftrightarrow> bt_ok (containers st) \<and> (\<forall>n c. bt_get (containers st) n = Some c \<longrightarrow> entry_ok c)"
  by (auto simp: is_state_def entry_ok_def bt_get_iff [symmetric])

definition map_ok :: "(string, container) btree \<Rightarrow> bool" where
  "map_ok m \<longleftrightarrow> bt_ok m \<and> (\<forall>n c. bt_get m n = Some c \<longrightarrow> entry_ok c)"

lemma map_ok_put: "map_ok m \<Longrightarrow> entry_ok c \<Longrightarrow> map_ok (bt_put n c m)"
  by (auto simp: map_ok_def bt_ok_put bt_get_put)

lemma is_state_map: "is_state st \<longleftrightarrow> map_ok (containers st)"
  by (simp add: is_state_get map_ok_def)

lemma map_ok_Nil [simp]: "map_ok []"
  by (simp add: map_ok_def bt_get_def)

lemma decode_is_state: "sound_kit K \<Longrightarrow> decode_or_default K raw = Inr st \<Longrightarrow> is_state st"
  using encode_decode_aux [of "sha K" _ st]
  by (auto simp: decode_or_default_def sound_kit_def import_decode_def map_err_def no_state_def is_state_map
      split: option.splits sum.splits)

lemma select_is_state:
  assumes "is_state local" "is_state cloud" "select local cloud rows ch = Inr st"
  shows "is_state st"
proof -
  have "map_ok (fold (pick local cloud c) rows m)" if "map_ok m" for c rows m
    using that
  proof (induction rows arbitrary: m)
    case (Cons d rows)
    have "map_ok (pick local cloud c d m)"
      using Cons.prems assms(1,2)
      by (auto simp: pick_def Let_def is_state_map map_ok_def bt_ok_put bt_get_put split: option.split)
    then show ?case using Cons.IH by simp
  qed simp
  then show ?thesis
    using assms by (cases ch) (auto simp: select_def Let_def is_state_map result_simps)
qed

lemma snapshot_blobs_ok:
  "rfold (snapshot_blob K files) bs g = Inr g' \<Longrightarrow> bt_ok (rd_entry g) \<Longrightarrow> bt_ok (rd_entry g')"
proof (induction bs arbitrary: g)
  case (Cons x bs)
  from Cons.prems(1) obtain h where h: "snapshot_blob K files x g = Inr h" "rfold (snapshot_blob K files) bs h = Inr g'"
    by (auto simp: result_simps)
  then have "bt_ok (rd_entry h)"
    using Cons.prems(2) by (auto simp: snapshot_blob_def result_simps bt_ok_put)
  then show ?case by (rule Cons.IH [OF h(2)])
qed simp

lemma snapshot_rows_ok:
  "rfold (snapshot_row K files) rs a = Inr a' \<Longrightarrow> map_ok (fst a) \<Longrightarrow> \<forall>r \<in> set rs. is_string (sv_display r) \<Longrightarrow> map_ok (fst a')"
proof (induction rs arbitrary: a)
  case (Cons r rs)
  from Cons.prems(1) obtain h where h: "snapshot_row K files r a = Inr h" "rfold (snapshot_row K files) rs h = Inr a'"
    by (auto simp: result_simps)
  have "map_ok (fst h)"
    using h(1) Cons.prems(2,3) snapshot_blobs_ok [of K files "sv_blobs r"]
    by (cases a) (auto simp: snapshot_row_def result_simps intro!: map_ok_put simp: entry_ok_def)
  then show ?case using Cons.IH [OF h(2)] Cons.prems(3) by simp
qed simp

lemma verify_snapshot_ok:
  assumes "sound_kit K" "verify_snapshot K b sn f = Inr v"
  shows "is_state (v_state v) \<and> hex_digest (v_digest v)"
proof -
  obtain raw m files cs cached c t where r: "manifest_of K raw = Some m"
      "rfold (snapshot_row K files) (mf_containers m) ([], [], 0, 0) = Inr (cs, cached, c, t)"
      "v_state v = \<lparr>generation = 0, containers = cs\<rparr>" "v_digest v = sha256_hex (sha K) raw"
    using assms(2) by (auto simp: verify_snapshot_def result_simps Let_def ok_or_def split: option.splits)
  have "\<forall>x \<in> set (mf_containers m). is_string (sv_display x)"
    using assms(1) r(1) by (auto simp: sound_kit_def)
  with snapshot_rows_ok [OF r(2)] have "map_ok cs" by simp
  then show ?thesis
    using r(3,4) assms(1) by (simp add: is_state_map sound_kit_def is_sha256_def hex_digest_sha256)
qed

lemma wp_read_snapshot:
  assumes "\<And>v t. save_view t = save_view s \<Longrightarrow> (sound_kit K \<Longrightarrow> is_state (v_state v) \<and> hex_digest (v_digest v)) \<Longrightarrow> Q v t"
    and "\<And>e t. save_view t = save_view s \<Longrightarrow> E e t"
  shows "wp (read_snapshot K runtime b sn) Q E s"
  unfolding read_snapshot_def
  by (intro steps step_io)
    (auto intro!: assms step_elift step_eret step_efail step_io simp: wp_simps verify_snapshot_ok split: sum.split)

section \<open>Importing and restoring are safe\<close>

lemma safe_end: "safe K b ns s t \<Longrightarrow> save_view u = save_view t \<Longrightarrow> safe K b ns s u"
  using safe_cong [of s s u t] by simp

lemma safe_shift: "save_view s' = save_view s \<Longrightarrow> safe K b ns s' = safe K b ns s"
  by (rule ext) (rule safe_cong, simp_all)

text \<open>What a successful import says it did, it did.\<close>

definition imported_as :: "kit \<Rightarrow> string \<Rightarrow> string \<Rightarrow> 'j store \<Rightarrow> import_result \<Rightarrow> 'j store \<Rightarrow> bool" where
  "imported_as K b ns s r t \<longleftrightarrow> (\<forall>n. ir_backup r = Some n \<longrightarrow> (\<exists>i st x. replaced_by K b ns s t n i \<and>
     decode_or_default K (stored_state s) = Inr st \<and> import_decode K i = Inr x \<and>
     generation st \<noteq> - 1 \<and> generation x = generation st + 1))"

lemma imported_shift: "save_view s' = save_view s \<Longrightarrow> imported_as K b ns s' = imported_as K b ns s"
  by (rule ext)+ (simp add: imported_as_def replaced_by_def save_view_def)

lemma imported_end: "imported_as K b ns s r t \<Longrightarrow> save_view u = save_view t \<Longrightarrow> imported_as K b ns s r u"
  by (simp add: imported_as_def replaced_by_def save_view_def)

lemma settle_result: "wp (settle_import K b ns p sel e n d) (\<lambda>r _. ir_backup r = Some n) (\<lambda>_ _. True) s"
  unfolding settle_import_def Let_def
  by (auto simp: wp_simps split: prod.split sum.split intro!: wpI)
    (auto simp: ebind_def elift_def eret_def split: sum.splits)

lemma wp_settle_import:
  assumes "safe K b ns s t" "replaced_by K b ns s t n i" "decode_or_default K (stored_state s) = Inr st"
    "import_decode K i = Inr x" "generation st \<noteq> - 1" "generation x = generation st + 1"
  shows "wp (settle_import K b' ns' p sel e n d) (\<lambda>r u. safe K b ns s u \<and> imported_as K b ns s r u) (\<lambda>_. safe K b ns s) t"
proof (rule wp_keeps [OF keeps_settle])
  fix r u assume run: "settle_import K b' ns' p sel e n d t = (Inr r, u)" and v: "save_view u = save_view t"
  have "ir_backup r = Some n"
    using wp_Inr [OF settle_result run] .
  then have "imported_as K b ns s r t"
    using assms(2-6) by (auto simp: imported_as_def)
  then show "safe K b ns s u \<and> imported_as K b ns s r u"
    using v assms(1) by (auto intro: safe_end imported_end)
qed (rule safe_end [OF assms(1)])

lemma written_ok: "sound_kit K \<Longrightarrow> is_state st \<Longrightarrow> import_encode K st = Inr i \<Longrightarrow> is_ok (import_decode K i)"
  using import_decode_encode by (simp add: is_ok_def)

lemma wp_import_selected:
  fixes s :: "'j store"
  assumes k: "sound_kit K" "raw = stored_state s" "is_state selected"
    "case stored_state s of None \<Rightarrow> True | Some r \<Rightarrow> length r \<le> MAX_STATE" "hex_digest (pl_snapshot_digest p)"
    and st: "decode_or_default K (stored_state s) = Inr st"
  shows "wp (import_selected K b ns p raw st selected) (\<lambda>r t. safe K b ns s t \<and> imported_as K b ns s r t) (\<lambda>_. safe K b ns s) s"
proof -
  have run: "wp (ebind (backup K b ns raw i (Some (pl_snapshot_digest p))) (\<lambda>n.
        ebind (commit_local K True (pl_local_digest p) i) (\<lambda>d.
        settle_import K b ns p sel i n d))) (\<lambda>r t. safe K b ns s t \<and> imported_as K b ns s r t) (\<lambda>_. safe K b ns s) t"
    if t: "save_view t = save_view s" and i: "import_decode K i = Inr x" "generation st \<noteq> - 1" "generation x = generation st + 1"
    for t :: "'j store" and sel i x
  proof -
    have e: "stored_state t = stored_state s" using t by (simp add: save_view_eq)
    show ?thesis
      unfolding wp_ebind safe_shift [OF t, symmetric] imported_shift [OF t, symmetric]
      by (rule wp_replace [where snap = "Some (pl_snapshot_digest p)"])
        (use e k i st in \<open>auto simp: is_ok_def intro: wp_settle_import\<close>)
  qed
  have state: "is_state (selected\<lparr>generation := g\<rparr>)" for g
    using k(3) by (simp add: is_state_def)
  show ?thesis
    unfolding import_selected_def Let_def
  proof (rule step_ebind, rule step_elift, goal_cases)
    case (1 g)
    then have g: "generation st \<noteq> - 1" "g = generation st + 1"
      by (auto simp: next_generation_def split: if_splits)
    show ?case
    proof (rule step_ebind, rule step_elift, goal_cases)
      case (1 i)
      show ?case
        by (rule step_eseq, rule wp_keeps [OF saves.check_cancel])
          (use run import_decode_encode [OF k(1) state 1] g safe_refl in auto)
    qed (rule safe_refl, simp)
  qed (rule safe_refl, simp)
qed

lemmas quiet_steps = steps wp_keeps [OF saves.check_cancel] wp_keeps [OF saves.open_local]

lemma wp_apply:
  fixes s :: "'j store"
  assumes "sound_kit K" "scope_namespace (sha K) (uuid_of K) sc = Inr ns"
  shows "wp (apply_plan K runtime sc p ch) (\<lambda>r t. safe K (scope_binding (sha K) sc) ns s t \<and> imported_as K (scope_binding (sha K) sc) ns s r t)
    (\<lambda>_. safe K (scope_binding (sha K) sc) ns s) s"
proof -
  let ?b = "scope_binding (sha K) sc"
  have tail: "wp (import_selected K ?b n p (stored_state t) st sel) (\<lambda>r v. safe K ?b n s v \<and> imported_as K ?b n s r v) (\<lambda>_. safe K ?b n s) u"
    if "save_view t = save_view s" "save_view u = save_view s" "is_state sel" "hex_digest (pl_snapshot_digest p)"
      "case stored_state t of None \<Rightarrow> True | Some r \<Rightarrow> length r \<le> MAX_STATE"
      "decode_or_default K (stored_state t) = Inr st" for t u :: "'j store" and st sel n
  proof -
    have "stored_state u = stored_state t" using that(1,2) by (simp add: save_view_eq)
    with that show ?thesis
      unfolding safe_shift [OF that(2), symmetric] imported_shift [OF that(2), symmetric] by (intro wp_import_selected assms) simp_all
  qed
  show ?thesis
    unfolding apply_plan_def
    apply (intro quiet_steps wp_read_snapshot wp_local_state)
    apply (simp_all add: assms safe_refl)
     apply (auto simp: wp_simps safe_refl imported_as_def split: prod.split)[1]
    apply (rule tail)
        apply (auto intro: select_is_state decode_is_state assms)
    done
qed

lemma wp_restore:
  fixes s :: "'j store"
  assumes "sound_kit K" "scope_namespace (sha K) (uuid_of K) sc = Inr ns"
  shows "wp (restore_backup K sc n) (\<lambda>_. safe K (scope_binding (sha K) sc) ns s)
    (\<lambda>_. safe K (scope_binding (sha K) sc) ns s) s"
proof -
  let ?b = "scope_binding (sha K) sc"
  have tail: "wp (backup K ?b x (stored_state t) i None) (\<lambda>m. wp (commit_local K True h i) (\<lambda>d. wp (rest m d)
      (\<lambda>_. safe K ?b x s) (\<lambda>_. safe K ?b x s)) (\<lambda>_. safe K ?b x s)) (\<lambda>_. safe K ?b x s) u"
    if "save_view t = save_view s" "save_view u = save_view s" "is_state st" "import_encode K st = Inr i"
      "case stored_state t of None \<Rightarrow> True | Some r \<Rightarrow> length r \<le> MAX_STATE"
      "\<And>m d v. safe K ?b x s v \<Longrightarrow> wp (rest m d) (\<lambda>_. safe K ?b x s) (\<lambda>_. safe K ?b x s) v"
    for t u :: "'j store" and st i h x and rest :: "string \<Rightarrow> bool \<Rightarrow> ('j, import_result) act"
  proof -
    have "stored_state t = stored_state u" using that(1,2) by (simp add: save_view_eq)
    moreover have "is_ok (import_decode K i)" by (rule written_ok [OF assms(1) that(3,4)])
    ultimately show ?thesis
      using that(5,6) unfolding safe_shift [OF that(2), symmetric] by (intro wp_replace) simp_all
  qed
  have state: "is_state (st\<lparr>generation := g\<rparr>)" if "is_state st" for st g
    using that by (simp add: is_state_def)
  show ?thesis
    unfolding restore_backup_def
    apply (intro steps wp_keeps [OF saves.check_cancel] wp_keeps [OF saves.open_local] wp_keeps [OF saves.backup_data] wp_local_state)
                  apply (simp_all add: assms safe_refl)
    apply (unfold wp_ebind, rule tail)
         apply (auto intro: state decode_is_state assms simp: wp_simps split: prod.split)
    done
qed

section \<open>Reading the backup again\<close>

lemma uuid_identifier: "uuids s \<Longrightarrow> cloud_identifier (p @ id_supply s k) p"
  by (auto simp: cloud_identifier_iff uuids_def)

lemma backup_names_of: "backup_names (backup_of K b ns raw i snap st) =
    sorted_set ([''manifest.json'', ''imported.bin''] @ (if raw \<noteq> None then [''state.bin''] else []))"
  unfolding backup_names_def by (rule sorted_set_cong) (auto simp: backup_of_def)

lemma sha_hex: "sound_kit K \<Longrightarrow> hex_digest (sha256_hex (sha K) x)"
  by (simp add: sound_kit_def is_sha256_def hex_digest_sha256)

lemma decode_length: "sound_kit K \<Longrightarrow> import_decode K i = Inr st \<Longrightarrow> length i \<le> MAX_STATE"
  by (auto simp: import_decode_def map_err_def decode_def result_simps MAX_STATE_def split: sum.splits)

text \<open>A backup written from a readable save is accepted and returned.\<close>

definition accepted :: "kit \<Rightarrow> string \<Rightarrow> string \<Rightarrow> string \<Rightarrow> u8 list option \<Rightarrow> u8 list \<Rightarrow> 'j store \<Rightarrow> bool" where
  "accepted K b ns n raw i t \<longleftrightarrow>
     wp (backup_data K b ns n) (\<lambda>bd u. u = t \<and> bd_original bd = raw \<and> bd_imported bd = i \<and>
        bm_replacement_sha (bd_metadata bd) = sha256_hex (sha K) i \<and>
        bm_state_sha (bd_metadata bd) = map_option (sha256_hex (sha K)) raw) (\<lambda>_ _. False) t"

lemma backup_accepted:
  assumes "sound_kit K" "calm t" "cloud_identifier n ''backup-''" "decode_or_default K raw = Inr st"
    "is_ok (import_decode K i)" "case raw of None \<Rightarrow> True | Some r \<Rightarrow> length r \<le> MAX_STATE"
    "case snap of None \<Rightarrow> True | Some h \<Rightarrow> hex_digest h"
    "bt_get (backups t) n = Some (backup_of K b ns raw i snap st)"
  shows "accepted K b ns n raw i t"
proof -
  obtain w where "import_decode K i = Inr w" using assms(5) by (auto simp: is_ok_iff)
  moreover from this have "length i \<le> MAX_STATE" by (rule decode_length [OF assms(1)])
  ultimately show ?thesis
    unfolding accepted_def backup_data_def
    using assms backup_names_of [of K b ns raw i snap st] sha_hex [OF assms(1)]
    by (cases raw) (simp_all add: wp_simps calm_wp ok_or_def backup_of_def)
qed

lemma replaced_accepted:
  assumes "sound_kit K" "uuids s" "replaced_by K b ns s t n i" "calm u" "backups u = backups t"
  shows "accepted K b ns n (stored_state s) i u"
proof -
  obtain snap st k where "n = ''backup-'' @ id_supply s k" "decode_or_default K (stored_state s) = Inr st"
      "is_ok (import_decode K i)" "case stored_state s of None \<Rightarrow> True | Some r \<Rightarrow> length r \<le> MAX_STATE"
      "case snap of None \<Rightarrow> True | Some h \<Rightarrow> hex_digest h"
      "bt_get (backups t) n = Some (backup_of K b ns (stored_state s) i snap st)"
    using assms(3) unfolding replaced_by_def by blast
  then show ?thesis
    using assms uuid_identifier [OF assms(2), of "''backup-''" k] by (intro backup_accepted) auto
qed

text \<open>C27. An import or a restore never loses the local save, however it ends - cancelled, refused,
  failed between two system calls, or unable to confirm that the disk has it: the save is as it was,
  or a new backup gives back exactly the bytes it had and names exactly the bytes that replaced
  them. No backup that existed before is touched.\<close>

theorem import_keeps_save:
  assumes "sound_kit K" "uuids s" "scope_namespace (sha K) (uuid_of K) sc = Inr ns"
    and "apply_plan K runtime sc p ch s = (res, t) \<or> restore_backup K sc m s = (res, t)"
  shows "(\<forall>n f. bt_get (backups s) n = Some f \<longrightarrow> bt_get (backups t) n = Some f) \<and>
    (stored_state t = stored_state s \<or>
     (\<exists>n i. bt_get (backups s) n = None \<and> stored_state t = Some i \<and>
        accepted K (scope_binding (sha K) sc) ns n (stored_state s) i (calmed t)))"
proof -
  have "safe K (scope_binding (sha K) sc) ns s t"
    using assms(4) wp_apply [OF assms(1,3), of runtime p ch s] wp_restore [OF assms(1,3), of m s]
    by (cases res) (auto simp: wp_def)
  then show ?thesis
    using replaced_accepted [OF assms(1,2) _ calmed_sel(1,2)] replaced_sel unfolding safe_def by blast
qed

section \<open>Undoing an import\<close>

lemma calm_backup: "calm s \<Longrightarrow> wp (backup K b ns raw i snap) Q E s =
    (let n = ''backup-'' @ id_supply s (drawn s); s' = s\<lparr>drawn := Suc (Suc (drawn s))\<rparr> in
     case decode_or_default K raw of Inl e \<Rightarrow> E e s'
     | Inr st \<Rightarrow> if bt_has (backups s) n then E local_failure s'
         else Q n (s'\<lparr>backups := bt_put n (backup_of K b ns raw i snap st) (backups s)\<rparr>))"
  by (simp add: backup_def Let_def wp_simps calm_wp backup_of_def split: sum.split)

lemma calm_commit: "calm s \<Longrightarrow> has_folder s \<Longrightarrow> decode_or_default K (stored_state s) = Inr st \<Longrightarrow>
    (case stored_state s of None \<Rightarrow> True | Some b \<Rightarrow> length b \<le> MAX_STATE) \<Longrightarrow>
    wp (commit_local K True (raw_digest K (stored_state s)) e) Q E s = Q True (s\<lparr>state_file := Some e\<rparr>)"
  by (simp add: commit_local_def wp_simps calm_wp linorder_not_less split: option.splits)

lemma encode_any_generation: "is_ok (encode H st) \<Longrightarrow> is_ok (encode H (st\<lparr>generation := g\<rparr>))"
  by (auto simp: is_ok_iff encode_iff raws_def wire_body_def)

lemma decoded_encodes: "sound_kit K \<Longrightarrow> decode_or_default K raw = Inr st \<Longrightarrow> is_ok (import_encode K (st\<lparr>generation := g\<rparr>))"
proof -
  assume k: "sound_kit K" and d: "decode_or_default K raw = Inr st"
  have "is_ok (encode (sha K) st)"
  proof (cases raw)
    case None
    with d have st: "st = no_state" by (simp add: decode_or_default_def)
    show ?thesis
      unfolding st is_ok_iff encode_iff
      by (simp add: no_state_def raws_def size_defs wire_body_def wire_simps)
  next
    case (Some r)
    with d k encode_decode_aux [of "sha K" r st] show ?thesis
      by (auto simp: decode_or_default_def import_decode_def map_err_def sound_kit_def is_ok_iff split: sum.splits)
  qed
  from encode_any_generation [OF this, of g] show ?thesis
    by (auto simp: import_encode_def map_err_def is_ok_iff)
qed

lemma namespace_hex: "sound_kit K \<Longrightarrow> scope_namespace (sha K) u sc = Inr ns \<Longrightarrow> hex_digest ns"
proof -
  assume k: "sound_kit K" and ns: "scope_namespace (sha K) u sc = Inr ns"
  then obtain x where "namespace_key (sha K) u (title_id sc) (scid sc) (word_of_nat x) = Inr ns"
    by (auto simp: scope_namespace_def result_simps)
  then obtain z where "ns = sha256_hex (sha K) z"
    by (auto simp: namespace_key_def result_simps sha256_hex_def)
  then show ?thesis using sha_hex [OF k] by simp
qed

lemma calm_restore:
  fixes t :: "'j store"
  assumes "sound_kit K" "scope_namespace (sha K) (uuid_of K) sc = Inr ns" "calm t" "enabled t"
    and acc: "\<And>u. calm u \<Longrightarrow> backups u = backups t \<Longrightarrow> accepted K (scope_binding (sha K) sc) ns n raw i (u :: 'j store)"
    and dec: "stored_state t = Some i" "import_decode K i = Inr x" "decode_or_default K raw = Inr st"
    and gen: "generation x \<noteq> - 1" and free: "\<not> bt_has (backups t) (''backup-'' @ id_supply t (drawn t))"
  shows "wp (restore_backup K sc n) (\<lambda>_ u. \<exists>i'. stored_state u = Some i' \<and>
    import_decode K i' = Inr (st\<lparr>generation := generation x + 1\<rparr>)) (\<lambda>_ _. False) t"
proof -
  let ?b = "scope_binding (sha K) sc" and ?u = "add_folder t" and ?st = "st\<lparr>generation := generation x + 1\<rparr>"
  have u: "calm ?u" "backups ?u = backups t" "stored_state ?u = Some i" "has_folder ?u"
      "id_supply ?u = id_supply t" "drawn ?u = drawn t"
    using assms(3) dec(1) by simp_all (simp_all add: add_folder_def)
  have len: "length i \<le> MAX_STATE" by (rule decode_length [OF assms(1) dec(2)])
  have x: "decode_or_default K (Some i) = Inr x" "next_generation (generation x) = Inr (generation x + 1)"
    using dec(2) gen by (simp_all add: decode_or_default_def next_generation_def)
  have "is_state ?st"
    using decode_is_state [OF assms(1) dec(3)] by (simp add: is_state_def)
  then obtain i' where i': "import_encode K ?st = Inr i'" "import_decode K i' = Inr ?st"
    using decoded_encodes [OF assms(1) dec(3), of "generation x + 1"] import_decode_encode [OF assms(1)]
    by (auto simp: is_ok_iff)
  let ?w = "?u\<lparr>drawn := Suc (Suc (drawn t)), backups := bt_put (''backup-'' @ id_supply t (drawn t))
      (backup_of K ?b ns (Some i) i' None x) (backups t)\<rparr>"
  have w: "calm ?w" "has_folder ?w" "stored_state ?w = Some i"
    using u by simp_all
  have commit: "wp (commit_local K True (sha256_hex (sha K) i) i') Q E ?w = Q True (?w\<lparr>state_file := Some i'\<rparr>)" for Q E
    using calm_commit [OF w(1,2), of K x] x(1) len unfolding w(3) by (simp add: raw_digest_def)
  have bd: "wp (backup_data K ?b ns n) Q E ?u" if "\<And>bd. bd_original bd = raw \<Longrightarrow>
      bm_replacement_sha (bd_metadata bd) = sha256_hex (sha K) i \<Longrightarrow> Q bd ?u" for Q E
    by (rule wp_mono [OF acc [OF u(1,2), unfolded accepted_def]]) (use that in auto)
  show ?thesis
    unfolding restore_backup_def Let_def wp_ebind wp_eseq
    by (simp add: wp_simps calm_wp assms(2-4) namespace_hex [OF assms(1,2)], rule bd)
      (use u len x dec(3) i' free w in
        \<open>simp add: wp_simps calm_wp calm_backup commit [unfolded append_Cons append_Nil] raw_digest_def Let_def split: prod.split\<close>)
qed

text \<open>C28. An import can be undone: after an import that made a backup, restoring that backup gives back
  the save there was before, container by container, with a generation of its own.\<close>

theorem restore_undoes_import:
  assumes "sound_kit K" "uuids s" "scope_namespace (sha K) (uuid_of K) sc = Inr ns"
    and "apply_plan K runtime sc p ch s = (Inr r, t)" "ir_backup r = Some n"
    and "decode_or_default K (stored_state s) = Inr st" "generation st < - 2"
    and "enabled t" "\<not> bt_has (backups t) (''backup-'' @ id_supply t (drawn t))"
  shows "\<exists>r' u i. restore_backup K sc n (calmed t) = (Inr r', u) \<and> stored_state u = Some i \<and>
    import_decode K i = Inr (st\<lparr>generation := generation st + 2\<rparr>)"
proof -
  have "imported_as K (scope_binding (sha K) sc) ns s r t"
    using wp_Inr [OF wp_apply [OF assms(1,3)] assms(4)] by blast
  then obtain i x where i: "replaced_by K (scope_binding (sha K) sc) ns s t n i" "import_decode K i = Inr x"
      "generation x = generation st + 1"
    using assms(5,6) by (auto simp: imported_as_def)
  have "generation st \<noteq> - 2" using assms(7) by simp
  then have gen: "generation x \<noteq> - 1" "generation x + 1 = generation st + 2"
    using i(3) by (simp_all add: eq_neg_iff_add_eq_0 add.commute)
  have "wp (restore_backup K sc n) (\<lambda>_ u. \<exists>i'. stored_state u = Some i' \<and>
      import_decode K i' = Inr (st\<lparr>generation := generation x + 1\<rparr>)) (\<lambda>_ _. False) (calmed t)"
    by (rule calm_restore [OF assms(1,3) calmed_sel(1)])
      (use assms(6,8,9) i gen(1) replaced_sel [OF i(1)] replaced_accepted [OF assms(1,2) i(1)] in simp_all)
  then show ?thesis
    unfolding gen(2) by (auto simp: wp_def split: prod.splits sum.splits)
qed

section \<open>Example\<close>

text \<open>An empty local save and a snapshot of one empty container. The hash is the length of its input.\<close>

definition len_hash :: "u8 list \<Rightarrow> u8 list" where
  "len_hash b = word_of_nat (length b) # replicate 31 0"

definition trial_scope :: scope where
  "trial_scope = \<lparr>xuid = ''1'', scid = ''x'', pfn = ''p'', title_id = 1\<rparr>"

definition trial_manifest :: manifest where
  "trial_manifest = \<lparr>mf_schema = 1, mf_binding = scope_binding len_hash trial_scope, mf_consistency = ''rechecked-unlocked'',
     mf_containers = [\<lparr>sv_name = ''a,savedgame'', sv_display = [], sv_etag = ''e'', sv_time = 116444736000000000,
       sv_size = 0, sv_blobs = []\<rparr>]\<rparr>"

definition trial_kit :: kit where
  "trial_kit = \<lparr>sha = len_hash, manifest_of = (\<lambda>_. Some trial_manifest), receipt_sha = (\<lambda>_. []), uuid_of = Some\<rparr>"

definition trial_id :: string where "trial_id = replicate 32 (CHR ''0'')"

definition trial_snapshot :: snapshot where
  "trial_snapshot = \<lparr>sn_path = [''private'', ''cloud-saves'', ''snapshot-'' @ trial_id], sn_binding = scope_binding len_hash trial_scope,
     sn_containers = 1, sn_blobs = 0, sn_bytes = 0, sn_consistency = ''rechecked-unlocked''\<rparr>"

definition trial_store :: "unit store" where
  "trial_store = \<lparr>enabled = True, has_folder = False, state_file = None, baseline_file = None, backups = [], receipts = [],
     snapshots = [(''snapshot-'' @ trial_id, \<lparr>manifest_bytes = Some [], blob_files = Some [], other_names = []\<rparr>)],
     journal = None, id_supply = (\<lambda>n. hex_char (n mod 16) # replicate 31 (CHR ''0'')), drawn = 0, io_script = []\<rparr>"

definition trial_d :: "nat \<Rightarrow> string" where
  "trial_d n = hex_char (n div 16) # hex_char (n mod 16) # replicate 62 (CHR ''0'')"

definition trial_plan :: plan where
  "trial_plan = \<lparr>pl_binding = trial_d 65, pl_namespace = trial_d 47, pl_local_digest = ''missing'',
     pl_remote_digest = trial_d 77, pl_snapshot_digest = trial_d 0, pl_generation = 0, pl_decisions = [],
     pl_runtime = [], pl_snapshot = trial_snapshot, pl_baseline = None, pl_counts = (1, 0, 0, 0)\<rparr>"

definition trial_run :: "(failure + import_result) \<times> unit store" where
  "trial_run = apply_plan trial_kit [] trial_scope trial_plan ChooseCloud trial_store"

lemma trial_runs: "case trial_run of (Inr r, t) \<Rightarrow> ir_backup r = Some (''backup-'' @ trial_id) \<and> enabled t \<and>
    stored_state t \<noteq> None \<and> \<not> bt_has (backups t) (''backup-'' @ id_supply t (drawn t)) | _ \<Rightarrow> False"
  by code_simp

lemma trial_namespace: "scope_namespace (sha trial_kit) (uuid_of trial_kit) trial_scope = Inr (trial_d 47)"
  by code_simp

lemma trial_sound: "sound_kit trial_kit" "uuids trial_store"
  by (simp_all add: sound_kit_def trial_kit_def is_sha256_def len_hash_def trial_manifest_def is_string_ascii
      uuids_def trial_store_def hex_char_lower list_all_iff) (simp add: is_lower_hex_def is_digit_def)

lemma trial_start: "stored_state trial_store = None"
  by (simp add: trial_store_def stored_state_def)

lemma import_keeps_save_witness:
  "\<exists>n i. stored_state (snd trial_run) = Some i \<and>
     accepted trial_kit (scope_binding len_hash trial_scope) (trial_d 47) n None i (calmed (snd trial_run))"
proof -
  obtain r t i where r: "trial_run = (Inr r, t)" "stored_state t = Some i"
    using trial_runs by (auto split: prod.splits sum.splits)
  have "apply_plan trial_kit [] trial_scope trial_plan ChooseCloud trial_store = (Inr r, t)"
    using r(1) by (simp add: trial_run_def)
  from import_keeps_save [OF trial_sound trial_namespace, OF disjI1 [OF this]]
  show ?thesis
    unfolding trial_start r by (simp add: r(2)) (auto simp: trial_kit_def)
qed

lemma trial_word: "(0 :: u64) < - 2"
  by code_simp

lemma restore_undoes_import_witness:
  "\<exists>r' u i. restore_backup trial_kit trial_scope (''backup-'' @ trial_id) (calmed (snd trial_run)) = (Inr r', u) \<and>
     stored_state u = Some i \<and> import_decode trial_kit i = Inr (no_state\<lparr>generation := 2\<rparr>)"
proof -
  obtain r t where r: "trial_run = (Inr r, t)" "ir_backup r = Some (''backup-'' @ trial_id)" "enabled t"
      "\<not> bt_has (backups t) (''backup-'' @ id_supply t (drawn t))"
    using trial_runs by (auto split: prod.splits sum.splits)
  have "decode_or_default trial_kit (stored_state trial_store) = Inr no_state"
    by (simp add: trial_start decode_or_default_def)
  from restore_undoes_import [OF trial_sound trial_namespace r(1) [unfolded trial_run_def] r(2) this _ r(3,4)]
  show ?thesis
    using trial_word by (simp add: r(1) no_state_def)
qed

end
