(* ===== verification/SessionChecks.thy ===== *)
theory SessionChecks
  imports ImportSafety
begin

text \<open>
  What the reading operations of the session journal compute, as functions of the files: a backup,
  a snapshot and a record are valid or not whatever the script says, a run only succeeds on valid
  ones, and a calm run succeeds on all of them.
\<close>

section \<open>Reading as a function\<close>

definition read_backup :: "kit \<Rightarrow> string \<Rightarrow> string \<Rightarrow> string \<Rightarrow> backup_folder option \<Rightarrow> failure + backup_data" where
  "read_backup K b ns n f =
     rbind (cloud_require (cloud_identifier n ''backup-'') ''invalid_plan'') (\<lambda>_.
     rbind (ok_or f local_failure) (\<lambda>f.
     rbind (ok_or (manifest_file f) local_failure) (\<lambda>file.
     rbind (case file of Parsed x \<Rightarrow> Inr x | Garbage \<Rightarrow> Inl (Failure ''invalid_response'')) (\<lambda>meta.
     rbind (cloud_require (bm_schema meta = 1 \<and> bm_binding meta = b \<and> bm_namespace meta = ns \<and>
        hex_digest (bm_replacement_sha meta) \<and>
        (case bm_snapshot_sha meta of None \<Rightarrow> True | Some h \<Rightarrow> hex_digest h)) ''invalid_plan'') (\<lambda>_.
     rbind (cloud_require (backup_names f = sorted_set ([''manifest.json'', ''imported.bin''] @
        (if bm_existed meta then [''state.bin''] else []))) ''invalid_plan'') (\<lambda>_.
     rbind (if bm_existed meta
        then rbind (ok_or (original_file f) local_failure) (\<lambda>x.
             rbind (cloud_require (length x \<le> MAX_STATE) ''unsupported'') (\<lambda>_. Inr (Some x)))
        else Inr None) (\<lambda>original.
     rbind (ok_or (imported_file f) local_failure) (\<lambda>imported.
     rbind (cloud_require (length imported \<le> MAX_STATE) ''unsupported'') (\<lambda>_.
     rbind (cloud_require (map_option (sha256_hex (sha K)) original = bm_state_sha meta \<and>
        sha256_hex (sha K) imported = bm_replacement_sha meta) ''invalid_plan'') (\<lambda>_.
     rbind (decode_or_default K original) (\<lambda>before.
     rbind (cloud_require (generation before = bm_generation meta) ''invalid_plan'') (\<lambda>_.
     rbind (import_decode K imported) (\<lambda>_.
     Inr \<lparr>bd_metadata = meta, bd_original = original, bd_imported = imported\<rparr>)))))))))))))"

definition snapshot_value :: "kit \<Rightarrow> string list \<Rightarrow> string \<Rightarrow> snapshot \<Rightarrow> snapshot_folder option \<Rightarrow> failure + validated" where
  "snapshot_value K runtime b sn f = map_err snapshot_failure (
     rbind (cloud_require (sn_binding sn = b \<and> sn_consistency sn = snapshot_consistency) ''invalid_scope'') (\<lambda>_.
     rbind (cloud_require (sn_path sn \<noteq> [] \<and> butlast (sn_path sn) = runtime @ [''private'', ''cloud-saves''] \<and>
        cloud_identifier (last (sn_path sn)) ''snapshot-'') ''invalid_snapshot'') (\<lambda>_.
     rbind (ok_or f local_failure) (\<lambda>f. verify_snapshot K b sn f))))"

text \<open>How a continuation meets the results of the pure readers.\<close>

lemma case_rbind: "case_sum E Q (rbind r f) = case_sum E (\<lambda>x. case_sum E Q (f x)) r"
  by (simp add: rbind_def split: sum.split)

lemma case_require: "case_sum E Q (cloud_require c m) = (if c then Q () else E (Failure m))"
  by (simp add: cloud_require_def)

lemma case_ok_or: "case_sum E Q (ok_or y e) = (case y of None \<Rightarrow> E e | Some x \<Rightarrow> Q x)"
  by (simp add: ok_or_def split: option.split)

lemma case_if: "case_sum E Q (if c then r else r') = (if c then case_sum E Q r else case_sum E Q r')"
  by simp

lemma case_file: "case_sum E Q (case file of Parsed x \<Rightarrow> Inr x | Garbage \<Rightarrow> Inl e) = (case file of Parsed x \<Rightarrow> Q x | Garbage \<Rightarrow> E e)"
  by (simp split: json_file.split)

lemma case_map_err: "case_sum E Q (map_err g r) = case_sum (\<lambda>e. E (g e)) Q r"
  by (simp add: map_err_def split: sum.split)

lemmas case_results = case_rbind case_require case_ok_or case_if case_file case_map_err

lemma calm_backup_data [calm_wp]: "calm s \<Longrightarrow> wp (backup_data K b ns n) Q E s =
    (case read_backup K b ns n (bt_get (backups s) n) of Inl e \<Rightarrow> E e s | Inr bd \<Rightarrow> Q bd s)"
  unfolding backup_data_def read_backup_def
  by (simp add: wp_simps calm_wp case_results cong: option.case_cong json_file.case_cong sum.case_cong)

lemma calm_read_snapshot [calm_wp]: "calm s \<Longrightarrow> wp (read_snapshot K runtime b sn) Q E s =
    (case snapshot_value K runtime b sn (bt_get (snapshots s) (last (sn_path sn))) of Inl e \<Rightarrow> E e s | Inr v \<Rightarrow> Q v s)"
  unfolding read_snapshot_def snapshot_value_def
  by (simp add: wp_simps calm_wp case_results cong: option.case_cong sum.case_cong)

section \<open>Operations that only read\<close>

text \<open>When a reading operation succeeds on some script it gives the same result on a calm store.\<close>

named_theorems reading_intros "operations that only read"

definition reading :: "('j, 'a) act \<Rightarrow> bool" where
  "reading m \<longleftrightarrow> (\<forall>s a t. m s = (Inr a, t) \<longrightarrow> m (calmed s) = (Inr a, calmed s) \<and> calmed t = calmed s)"

lemma calmed_script [simp]: "calmed (s\<lparr>io_script := x\<rparr>) = calmed s"
  by (simp add: calmed_def)

lemma reading_ebind [reading_intros]: "reading m \<Longrightarrow> (\<And>a. reading (f a)) \<Longrightarrow> reading (ebind m f)"
  by (fastforce simp: reading_def ebind_def split: prod.splits sum.splits)

lemma reading_eseq [reading_intros]: "reading m \<Longrightarrow> reading n \<Longrightarrow> reading (eseq m n)"
  by (simp add: eseq_def reading_ebind)

lemma reading_eret [reading_intros]: "reading (eret a)"
  by (simp add: reading_def eret_def)

lemma reading_efail [reading_intros]: "reading (efail a)"
  by (simp add: reading_def efail_def)

lemma reading_elift [reading_intros]: "reading (elift r)"
  by (simp add: reading_def elift_def)

lemma reading_eget [reading_intros]: "(\<And>s. f (calmed s) = f s) \<Longrightarrow> reading (eget f)"
  by (simp add: reading_def eget_def)

lemma reading_io [reading_intros]: "reading io"
  by (auto simp: reading_def io_def ebind_def next_io_def eret_def efail_def calmed_def split: io_outcome.splits list.splits)

lemma reading_need [reading_intros]: "reading (need c m)"
  unfolding need_def by (intro reading_intros)

lemma reading_guard:
  "reading m \<Longrightarrow> reading (ebind (etry m) (\<lambda>r. case r of Inr v \<Rightarrow> eret v | Inl e \<Rightarrow> efail (g e)))"
  by (fastforce simp: reading_def ebind_def etry_def eret_def efail_def split: prod.splits sum.splits)

lemma reading_guard':
  "reading m \<Longrightarrow> reading (ebind (etry m) (\<lambda>r. case r of Inl e \<Rightarrow> efail (g e) | Inr v \<Rightarrow> eret (h v)))"
  by (fastforce simp: reading_def ebind_def etry_def eret_def efail_def split: prod.splits sum.splits)

lemma reading_if [reading_intros]: "reading m \<Longrightarrow> reading n \<Longrightarrow> reading (if c then m else n)"
  by simp

lemma reading_option [reading_intros]:
  "reading m \<Longrightarrow> (\<And>x. reading (f x)) \<Longrightarrow> reading (case e of None \<Rightarrow> m | Some x \<Rightarrow> f x)"
  by (cases e) auto

lemma reading_prod [reading_intros]: "(\<And>x y. reading (f x y)) \<Longrightarrow> reading (case e of (x, y) \<Rightarrow> f x y)"
  by (cases e) auto

lemma reading_checks [reading_intros]: "reading (io_as c)" "reading check_lease" "reading check_cancel" "reading (recheck l)"
  unfolding recheck_def check_lease_def check_cancel_def io_as_def
  by (intro reading_intros reading_guard')+

lemma reading_files [reading_intros]: "reading (some_file f)" "reading (bounded_file n g)" "reading (parsed h)"
  unfolding some_file_def bounded_file_def parsed_def by (intro reading_intros)+

lemma reading_local_state [reading_intros]: "reading (local_state K)"
  unfolding local_state_def by (intro reading_intros) simp_all

lemma reading_backup_data [reading_intros]: "reading (backup_data K b ns n)"
  unfolding backup_data_def by (intro reading_intros) simp_all

lemma reading_read_snapshot [reading_intros]: "reading (read_snapshot K runtime b sn)"
  unfolding read_snapshot_def by (intro reading_intros reading_guard) simp_all

lemma reading_assert [reading_intros]: "reading (assert_unchanged K e)"
  unfolding assert_unchanged_def by (intro reading_intros)

lemma reading_session_check [reading_intros]: "reading (session_check l)"
  unfolding session_check_def by (intro reading_intros)

lemma reading_access [reading_intros]: "reading (access K runtime sc l e)"
  unfolding access_def by (intro reading_intros)

lemma reading_validated [reading_intros]: "reading (validated K runtime sc ns r)"
  unfolding validated_def check_initial_def check_target_def check_confirmed_def session_require_def Let_def
  by (intro reading_intros)

lemma reading_load_record [reading_intros]: "reading (load_record K runtime sc ns)"
  unfolding load_record_def by (intro reading_intros) simp

lemma reading_current [reading_intros]: "reading (current_record K runtime sc ns r)"
  unfolding current_record_def session_require_def by (intro reading_intros)

lemma reading_confirm [reading_intros]: "reading (confirm_session K v e rc)"
  unfolding confirm_session_def by (intro reading_intros)

end
