(* ===== verification/SessionJournal.thy ===== *)
theory SessionJournal
  imports SessionChecks
begin

text \<open>
  The journal of a cloud session over any sequence of its operations, each of which may fail at any
  system call: it always loads again, and what it says of the cloud only moves with a receipt.
\<close>

section \<open>Valid records\<close>

type_synonym 'f files = "string \<Rightarrow> 'f option"

definition remote_ok :: "kit \<Rightarrow> string list \<Rightarrow> string \<Rightarrow> session \<Rightarrow> snapshot_folder files \<Rightarrow> bool" where
  "remote_ok K runtime b r sp \<longleftrightarrow> (\<exists>v. snapshot_value K runtime b (session_snapshot runtime b (ss_snapshot r))
       (sp (rf_id (ss_snapshot r))) = Inr v \<and> v_digest v = rf_manifest_sha (ss_snapshot r) \<and>
     import_digest (sha K) (v_state v) = Inr (ss_original_remote r))"

definition initial_ok :: "kit \<Rightarrow> string \<Rightarrow> string \<Rightarrow> session \<Rightarrow> backup_folder files \<Rightarrow> bool" where
  "initial_ok K b ns r bk \<longleftrightarrow> (\<exists>bd st. read_backup K b ns (ss_initial_backup r) (bk (ss_initial_backup r)) = Inr bd \<and>
     (case bd_original bd of None \<Rightarrow> Inr no_state | Some x \<Rightarrow> plain_decode K x) = Inr st \<and>
     raw_digest K (bd_original bd) = ss_pre_local_sha r \<and> import_digest (sha K) st = Inr (ss_pre_local r))"

definition target_ok :: "kit \<Rightarrow> string \<Rightarrow> string \<Rightarrow> session \<Rightarrow> backup_folder files \<Rightarrow> bool" where
  "target_ok K b ns r bk \<longleftrightarrow> (\<exists>bd st. read_backup K b ns (ss_target_backup r) (bk (ss_target_backup r)) = Inr bd \<and>
     plain_decode K (bd_imported bd) = Inr st \<and> sha256_hex (sha K) (bd_imported bd) = ss_target_sha r \<and>
     generation st = ss_generation r \<and> import_digest (sha K) st = Inr (ss_target r) \<and>
     (case bm_state_sha (bd_metadata bd) of None \<Rightarrow> ''missing'' | Some h \<Rightarrow> h) = ss_target_local_sha r)"

definition confirmed_ok :: "kit \<Rightarrow> string \<Rightarrow> string \<Rightarrow> session \<Rightarrow> backup_folder files \<Rightarrow> bool" where
  "confirmed_ok K b ns r bk \<longleftrightarrow> (case ss_confirmed r of
      None \<Rightarrow> ss_before_remote r = ss_original_remote r
    | Some n \<Rightarrow> \<exists>bd st. read_backup K b ns n (bk n) = Inr bd \<and> plain_decode K (bd_imported bd) = Inr st \<and>
        import_digest (sha K) st = Inr (ss_before_remote r))"

definition session_ok :: "kit \<Rightarrow> string list \<Rightarrow> string \<Rightarrow> string \<Rightarrow> session \<Rightarrow> 'j store \<Rightarrow> bool" where
  "session_ok K runtime b ns r s \<longleftrightarrow> session_form b ns r \<and> remote_ok K runtime b r (bt_get (snapshots s)) \<and>
     initial_ok K b ns r (bt_get (backups s)) \<and> target_ok K b ns r (bt_get (backups s)) \<and>
     confirmed_ok K b ns r (bt_get (backups s))"

lemma calm_validated:
  assumes "calm s" "session_ok K runtime (scope_binding (sha K) sc) ns r s" "Q r s"
  shows "wp (validated K runtime sc ns r) Q E s"
proof -
  let ?b = "scope_binding (sha K) sc"
  obtain v where v: "snapshot_value K runtime ?b (session_snapshot runtime ?b (ss_snapshot r))
       (bt_get (snapshots s) (rf_id (ss_snapshot r))) = Inr v" "v_digest v = rf_manifest_sha (ss_snapshot r)"
      "import_digest (sha K) (v_state v) = Inr (ss_original_remote r)"
    using assms(2) by (auto simp: session_ok_def remote_ok_def)
  have last: "last (sn_path (session_snapshot runtime ?b x)) = rf_id x" for x
    by (simp add: session_snapshot_def)
  have "wp (check_initial K ?b ns r) Q' E' s" if "Q' () s" for Q' E'
    using assms(1,2) that by (auto simp: session_ok_def initial_ok_def check_initial_def session_require_def wp_simps calm_wp)
  moreover have "wp (check_target K ?b ns r) Q' E' s" if "Q' () s" for Q' E'
    using assms(1,2) that by (auto simp: session_ok_def target_ok_def check_target_def session_require_def wp_simps calm_wp)
  moreover have "wp (check_confirmed K ?b ns r) Q' E' s" if "Q' () s" for Q' E'
    using assms(1,2) that
    by (auto simp: session_ok_def confirmed_ok_def check_confirmed_def session_require_def wp_simps calm_wp split: option.splits)
  moreover have "session_form ?b ns r" using assms(2) by (simp add: session_ok_def)
  ultimately show ?thesis
    using assms(1,3) v by (simp add: validated_def Let_def session_require_def wp_simps calm_wp last)
qed

text \<open>A record stays valid while backups and snapshots are only added.\<close>

definition grown :: "'j store \<Rightarrow> 'j store \<Rightarrow> bool" where
  "grown s t \<longleftrightarrow> id_supply t = id_supply s \<and>
     (\<forall>n f. bt_get (snapshots s) n = Some f \<longrightarrow> bt_get (snapshots t) n = Some f) \<and>
     (\<forall>n f. bt_get (backups s) n = Some f \<longrightarrow> bt_get (backups t) n = Some f)"

lemma grown_refl [simp]: "grown s s"
  by (simp add: grown_def)

lemma grown_trans: "grown s t \<Longrightarrow> grown t u \<Longrightarrow> grown s u"
  by (auto simp: grown_def)

lemma read_backup_present: "read_backup K b ns n f = Inr bd \<Longrightarrow> \<exists>x. f = Some x"
  by (cases f) (auto simp: read_backup_def result_simps ok_or_def)

lemma read_backup_grown:
  "read_backup K b ns n (bt_get (backups s) n) = Inr bd \<Longrightarrow> grown s t \<Longrightarrow> read_backup K b ns n (bt_get (backups t) n) = Inr bd"
  using read_backup_present [of K b ns n "bt_get (backups s) n" bd] by (auto simp: grown_def)

lemma snapshot_present: "snapshot_value K runtime b sn f = Inr v \<Longrightarrow> \<exists>x. f = Some x"
  by (cases f) (auto simp: snapshot_value_def result_simps ok_or_def)

lemma remote_grown:
  "remote_ok K runtime b r (bt_get (snapshots s)) \<Longrightarrow> grown s t \<Longrightarrow> remote_ok K runtime b r (bt_get (snapshots t))"
  unfolding remote_ok_def grown_def by (metis snapshot_present)

lemma checks_grown:
  assumes "grown s t"
  shows "initial_ok K b ns r (bt_get (backups s)) \<Longrightarrow> initial_ok K b ns r (bt_get (backups t))"
    "target_ok K b ns r (bt_get (backups s)) \<Longrightarrow> target_ok K b ns r (bt_get (backups t))"
    "confirmed_ok K b ns r (bt_get (backups s)) \<Longrightarrow> confirmed_ok K b ns r (bt_get (backups t))"
  unfolding initial_ok_def target_ok_def confirmed_ok_def
  using read_backup_grown [OF _ assms] by (blast, blast, cases "ss_confirmed r") (simp, simp, blast)

lemma session_ok_grown: "session_ok K runtime b ns r s \<Longrightarrow> grown s t \<Longrightarrow> session_ok K runtime b ns r t"
  unfolding session_ok_def using checks_grown [of s t K b ns r] remote_grown by blast

section \<open>Exports\<close>

text \<open>What \<^verbatim>\<open>export_local\<close> returns.\<close>

definition export_ok :: "kit \<Rightarrow> scope \<Rightarrow> local_export \<Rightarrow> bool" where
  "export_ok K sc e \<longleftrightarrow> ex_binding e = scope_binding (sha K) sc \<and>
     (\<exists>st. import_decode K (ex_encoded e) = Inr st \<and> import_digest (sha K) st = Inr (ex_content e) \<and>
        generation st = ex_generation e \<and>
        (ex_raw_digest e = ''missing'' \<and> st = no_state \<or> ex_raw_digest e = sha256_hex (sha K) (ex_encoded e)))"

lemma export_local_ok:
  assumes "sound_kit K" "export_local K runtime sc s = (Inr e, t)"
  shows "export_ok K sc e"
proof -
  have "wp (export_local K runtime sc) (\<lambda>e _. export_ok K sc e) (\<lambda>_ _. True) s"
    unfolding export_local_def
  proof (intro steps wp_keeps [OF saves.check_cancel] wp_keeps [OF saves.open_local] wp_local_state, goal_cases)
    case (1 a t ns b u st v d encoded)
    then show ?case
    proof (cases "stored_state u")
      case None
      with 1 have st: "st = no_state" and e: "import_encode K st = Inr encoded"
        by (auto simp: decode_or_default_def)
      have "is_state st" by (simp add: st is_state_map no_state_def)
      from import_decode_encode [OF assms(1) this e] show ?thesis
        using 1 None st by (simp add: export_ok_def raw_digest_def no_state_def)
    next
      case (Some raw)
      with 1 show ?thesis
        by (auto simp: export_ok_def raw_digest_def decode_or_default_def)
    qed
  qed simp_all
  from wp_Inr [OF this assms(2)] show ?thesis .
qed

lemma plain_decode_iff: "plain_decode K x = Inr st \<longleftrightarrow> import_decode K x = Inr st"
  by (simp add: plain_decode_def import_decode_def result_simps)

lemma digest_hex: "sound_kit K \<Longrightarrow> import_digest (sha K) st = Inr d \<Longrightarrow> hex_digest d"
  by (auto simp: import_digest_def content_digest_def result_simps sha_hex)

lemma export_ok_hex: "sound_kit K \<Longrightarrow> export_ok K sc e \<Longrightarrow>
    hex_digest (ex_content e) \<and> (ex_raw_digest e = ''missing'' \<or> hex_digest (ex_raw_digest e))"
  by (auto simp: export_ok_def digest_hex sha_hex)

section \<open>Steps\<close>

text \<open>\<open>captured\<close>: the export is in a new backup.\<close>

definition captured :: "kit \<Rightarrow> local_export \<Rightarrow> session store \<Rightarrow> string \<Rightarrow> session store \<Rightarrow> bool" where
  "captured K e s n t \<longleftrightarrow> grown s t \<and> journal t = journal s \<and> cloud_identifier n ''backup-'' \<and>
     (\<exists>st. decode_or_default K (if ex_raw_digest e \<noteq> ''missing'' then Some (ex_encoded e) else None) = Inr st \<and>
        bt_get (backups t) n = Some (backup_of K (ex_binding e) (ex_namespace e)
          (if ex_raw_digest e \<noteq> ''missing'' then Some (ex_encoded e) else None) (ex_encoded e) None st))"

lemma files_grown: "files_view t = files_view s \<Longrightarrow> grown s t \<and> journal t = journal s"
  by (simp add: files_view_def grown_def)

lemma captured_end: "captured K e s n t \<Longrightarrow> files_view u = files_view t \<Longrightarrow> captured K e s n u"
  by (simp add: captured_def files_view_def grown_def)

lemma captured_start: "captured K e s' n t \<Longrightarrow> files_view s' = files_view s \<Longrightarrow> captured K e s n t"
  by (simp add: captured_def files_view_def grown_def)

lemma new_backup_captured:
  assumes "new_backup K (ex_binding e) (ex_namespace e)
      (if ex_raw_digest e \<noteq> ''missing'' then Some (ex_encoded e) else None) (ex_encoded e) None s n t"
    "cloud_view t = cloud_view s" "uuids s"
  shows "captured K e s n t"
  using assms(1,2) uuid_identifier [OF assms(3), of "''backup-''"]
  by (auto simp: new_backup_def captured_def save_view_def cloud_view_def grown_def bt_get_put)

lemma wp_capture:
  assumes "uuids s"
  shows "wp (capture K e) (\<lambda>(n, h) t. h = sha256_hex (sha K) (ex_encoded e) \<and> captured K e s n t)
    (\<lambda>_ t. grown s t \<and> journal t = journal s) s"
proof -
  let ?raw = "if ex_raw_digest e \<noteq> ''missing'' then Some (ex_encoded e) else None"
  let ?backup = "backup K (ex_binding e) (ex_namespace e) ?raw (ex_encoded e) None :: string session_act"
  have b: "wp ?backup (\<lambda>n u. captured K e s n u) (\<lambda>_ u. grown s u \<and> journal u = journal s) t"
    if "files_view t = files_view s" for t
  proof -
    have keep: "keeps cloud_view ?backup"
      by (rule clouds.backup) (simp add: cloud_view_def)
    have "uuids t" using that assms by (simp add: uuids_def files_view_def)
    have new: "captured K e s n u" if "new_backup K (ex_binding e) (ex_namespace e) ?raw (ex_encoded e) None t n u"
        "cloud_view u = cloud_view t" for n u
      by (rule captured_start [OF new_backup_captured [OF that \<open>uuids t\<close>] \<open>files_view t = files_view s\<close>])
    have landed: "grown s u \<and> journal u = journal s"
      if "new_backup K (ex_binding e) (ex_namespace e) ?raw (ex_encoded e) None t n u" "cloud_view u = cloud_view t" for n u
      using new [OF that] by (simp add: captured_def)
    have old: "grown s u \<and> journal u = journal s" if "save_view u = save_view t" "cloud_view u = cloud_view t" for u
      by (rule files_grown) (use that \<open>files_view t = files_view s\<close> in \<open>simp add: files_view_def save_view_def cloud_view_def\<close>)
    show ?thesis
      by (rule wp_mono [OF wp_conj [OF wp_backup wp_keeps [OF keep, of _ "\<lambda>_ u. cloud_view u = cloud_view t" "\<lambda>_ u. cloud_view u = cloud_view t"]]])
        (assumption, assumption, (elim conjE, erule (1) new), ((elim conjE disjE exE), erule (1) old, erule (1) landed))
  qed
  have finish: "wp (eseq (assert_unchanged K e) (eret (n, sha256_hex (sha K) (ex_encoded e))))
      (\<lambda>(n, h) t. h = sha256_hex (sha K) (ex_encoded e) \<and> captured K e s n t)
      (\<lambda>_ t. grown s t \<and> journal t = journal s) u" if "captured K e s n u" for n u
  proof (rule step_eseq, rule wp_keeps [OF files.assert_unchanged], goal_cases)
    case (1 _ t)
    from captured_end [OF that 1(2)] show ?case by (simp add: wp_eret)
  next
    case (2 _ t)
    from captured_end [OF that 2(2)] show ?case by (simp add: captured_def)
  qed
  show ?thesis
    unfolding capture_def
    by (rule step_eseq, rule wp_keeps [OF files.assert_unchanged], rule step_ebind, rule wp_mono, erule b,
        erule finish, assumption, erule files_grown)
qed

lemma wp_store:
  assumes "\<And>t. files_view t = files_view s \<Longrightarrow> P t"
    and "\<And>t. grown s t \<Longrightarrow> grown t s \<Longrightarrow> journal t = Some (Parsed r) \<Longrightarrow> (new \<Longrightarrow> journal s = None) \<Longrightarrow> P t"
  shows "wp (store_record l r new) (\<lambda>_. P) (\<lambda>_. P) s"
proof -
  have land: "wp (landing (\<lambda>s. s\<lparr>journal := Some (Parsed r)\<rparr>)) (\<lambda>_. P) (\<lambda>_. P) t"
    if "files_view t = files_view s" "new \<Longrightarrow> journal s = None" for t :: "session store"
    unfolding landing_def wp_ebind
    by (rule wp_keeps [OF files.next_io])
      (use that assms in \<open>auto simp: wp_simps files_view_def grown_def split: io_outcome.split\<close>)
  have check: "keeps files_view (session_check l)"
    unfolding session_check_def by (intro keeps_intros files.io files.check_lease)
  show ?thesis
    unfolding store_record_def
    by (intro steps wp_keeps [OF check] wp_keeps [OF files.io_as] wp_keeps [OF files.io] land)
      (auto simp: files_view_def intro: assms(1))
qed

end
