(* ===== verification/SessionHistory.thy ===== *)
theory SessionHistory
  imports SessionJournal
begin

text \<open>
  Every operation on the journal, successful or not, keeps it valid and moves it one step; so after
  any history of a session the journal loads again, and what it says of the cloud has a receipt.
\<close>

section \<open>Readers of the journal\<close>

text \<open>What a run of a reading operation returned is what a calm run returns.\<close>

lemma reading_calm: "reading m \<Longrightarrow> m s = (Inr a, t) \<Longrightarrow> wp m Q E (calmed s) \<Longrightarrow> Q a (calmed s)"
  by (auto simp: reading_def dest: wp_Inr)

text \<open>What is known of a result whatever went on before.\<close>

lemma pass_ebind: "(\<And>a t. wp (f a) Q (\<lambda>_ _. True) t) \<Longrightarrow> wp (ebind m f) Q (\<lambda>_ _. True) s"
  by (auto simp: wp_ebind intro: wpI)

lemma pass_eseq: "(\<And>t. wp n Q (\<lambda>_ _. True) t) \<Longrightarrow> wp (eseq m n) Q (\<lambda>_ _. True) s"
  by (simp add: eseq_def pass_ebind)

lemma files_access: "keeps files_view (access K runtime sc l e)"
  unfolding access_def session_check_def by (intro keeps_intros)

lemma files_load_record: "keeps files_view (load_record K runtime sc ns)"
  unfolding load_record_def validated_def check_initial_def check_target_def check_confirmed_def session_require_def Let_def
  by (intro keeps_intros)

lemma files_current_record: "keeps files_view (current_record K runtime sc ns r)"
  unfolding current_record_def session_require_def by (intro keeps_intros files_load_record)

lemma files_confirm: "keeps files_view (confirm_session K v e rc)"
  unfolding confirm_session_def by (intro keeps_intros)

lemma files_session_check: "keeps files_view (session_check l)"
  unfolding session_check_def by (intro keeps_intros)

lemma access_result:
  assumes "access K runtime sc l ex s = (Inr ns, t)"
  shows "scope_namespace (sha K) (uuid_of K) sc = Inr ns"
    "ex = Some e \<Longrightarrow> ex_binding e = scope_binding (sha K) sc \<and> ex_namespace e = ns"
proof -
  have "wp (access K runtime sc l ex) (\<lambda>ns _. scope_namespace (sha K) (uuid_of K) sc = Inr ns \<and>
      (\<forall>e. ex = Some e \<longrightarrow> ex_binding e = scope_binding (sha K) sc \<and> ex_namespace e = ns)) (\<lambda>_ _. True) (calmed s)"
    by (auto simp: access_def assert_unchanged_def wp_simps calm_wp split: option.split sum.split)
  from reading_calm [OF reading_access assms this] show "scope_namespace (sha K) (uuid_of K) sc = Inr ns"
    "ex = Some e \<Longrightarrow> ex_binding e = scope_binding (sha K) sc \<and> ex_namespace e = ns" by auto
qed

lemma validated_result:
  assumes "validated K runtime sc ns r s = (Inr r', t)"
  shows "r' = r"
proof -
  have "wp (validated K runtime sc ns r) (\<lambda>r' _. r' = r) (\<lambda>_ _. True) s"
    unfolding validated_def Let_def by (intro pass_ebind pass_eseq step_eret refl)
  from wp_Inr [OF this assms] show ?thesis .
qed

lemma load_record_result:
  assumes "load_record K runtime sc ns s = (Inr r, t)"
  shows "journal s = map_option Parsed r"
proof -
  have "wp (load_record K runtime sc ns) (\<lambda>r u. journal s = map_option Parsed r) (\<lambda>_ _. True) (calmed s)"
    unfolding load_record_def
    by (auto simp: wp_simps calm_wp split: option.split json_file.split intro!: wpI [of "validated _ _ _ _ _"] dest: validated_result)
  from reading_calm [OF reading_load_record assms this] show ?thesis .
qed

lemma current_record_result:
  assumes "current_record K runtime sc ns r s = (Inr v, t)"
  shows "v = r" "journal s = Some (Parsed r)" "unat (ss_revision r) < I64_MAX"
proof -
  have "wp (current_record K runtime sc ns r) (\<lambda>v _. v = r \<and> journal s = Some (Parsed r) \<and> unat (ss_revision r) < I64_MAX)
      (\<lambda>_ _. True) (calmed s)"
    unfolding current_record_def session_require_def
    by (auto simp: wp_simps intro!: wpI [of "load_record _ _ _ _"] dest: load_record_result)
  from reading_calm [OF reading_current assms this]
  show "v = r" "journal s = Some (Parsed r)" "unat (ss_revision r) < I64_MAX" by simp_all
qed

lemma snapshot_result:
  assumes "read_snapshot K runtime b sn s = (Inr v, t)"
  shows "snapshot_value K runtime b sn (bt_get (snapshots s) (last (sn_path sn))) = Inr v"
proof -
  have "wp (read_snapshot K runtime b sn)
      (\<lambda>v _. snapshot_value K runtime b sn (bt_get (snapshots s) (last (sn_path sn))) = Inr v) (\<lambda>_ _. True) (calmed s)"
    by (simp add: calm_wp split: sum.split)
  from reading_calm [OF reading_read_snapshot assms this] show ?thesis .
qed

lemma confirm_result:
  assumes "confirm_session K v e rc s = (Inr u, t)"
  shows "receipt_verifies rc (ex_binding e) (ss_target v)"
proof -
  have "wp (confirm_session K v e rc) (\<lambda>_ _. receipt_verifies rc (ex_binding e) (ss_target v)) (\<lambda>_ _. True) s"
    unfolding confirm_session_def by (intro pass_eseq step_need TrueI)
  from wp_Inr [OF this assms] show ?thesis .
qed

section \<open>Backups of an export\<close>

lemma captured_backup:
  assumes "sound_kit K" "export_ok K sc e" "captured K e s n t"
  obtains bd where "read_backup K (ex_binding e) (ex_namespace e) n (bt_get (backups t) n) = Inr bd"
    "bd_original bd = (if ex_raw_digest e \<noteq> ''missing'' then Some (ex_encoded e) else None)"
    "bd_imported bd = ex_encoded e" "bm_state_sha (bd_metadata bd) = map_option (sha256_hex (sha K)) (bd_original bd)"
proof -
  let ?raw = "if ex_raw_digest e \<noteq> ''missing'' then Some (ex_encoded e) else None"
  obtain w where w: "import_decode K (ex_encoded e) = Inr w" using assms(2) by (auto simp: export_ok_def)
  obtain st where st: "cloud_identifier n ''backup-''" "decode_or_default K ?raw = Inr st"
      "bt_get (backups t) n = Some (backup_of K (ex_binding e) (ex_namespace e) ?raw (ex_encoded e) None st)"
    using assms(3) unfolding captured_def by blast
  have "accepted K (ex_binding e) (ex_namespace e) n ?raw (ex_encoded e) (calmed t)"
    by (rule backup_accepted [OF assms(1) calmed_sel(1) st(1,2)])
      (use st(3) w decode_length [OF assms(1) w] in simp_all)
  then show ?thesis
    by (auto simp: accepted_def calm_wp split: sum.splits intro!: that)
qed

lemma sha_not_missing: "sound_kit K \<Longrightarrow> sha256_hex (sha K) x \<noteq> ''missing''"
  using sha_hex [of K x] by (auto simp: hex_digest_def)

lemma captured_initial:
  assumes "sound_kit K" "export_ok K sc e" "captured K e s n t"
    and "ss_initial_backup r = n" "ss_pre_local_sha r = ex_raw_digest e" "ss_pre_local r = ex_content e"
  shows "initial_ok K (ex_binding e) (ex_namespace e) r (bt_get (backups t))"
proof -
  from captured_backup [OF assms(1-3)] obtain bd where
    "read_backup K (ex_binding e) (ex_namespace e) n (bt_get (backups t) n) = Inr bd"
    "bd_original bd = (if ex_raw_digest e \<noteq> ''missing'' then Some (ex_encoded e) else None)" .
  moreover obtain st where "import_decode K (ex_encoded e) = Inr st" "import_digest (sha K) st = Inr (ex_content e)"
      "ex_raw_digest e = ''missing'' \<and> st = no_state \<or> ex_raw_digest e = sha256_hex (sha K) (ex_encoded e)"
    using assms(2) by (auto simp: export_ok_def)
  ultimately show ?thesis
    using assms(4-6) sha_not_missing [OF assms(1)] by (auto simp: initial_ok_def raw_digest_def plain_decode_iff dest: sym)
qed

lemma captured_target:
  assumes "sound_kit K" "export_ok K sc e" "captured K e s n t"
    and "ss_target_backup r = n" "ss_target_sha r = sha256_hex (sha K) (ex_encoded e)" "ss_target r = ex_content e"
      "ss_target_local_sha r = ex_raw_digest e" "ss_generation r = ex_generation e"
  shows "target_ok K (ex_binding e) (ex_namespace e) r (bt_get (backups t))"
proof -
  from captured_backup [OF assms(1-3)] obtain bd where
    "read_backup K (ex_binding e) (ex_namespace e) n (bt_get (backups t) n) = Inr bd"
    "bd_original bd = (if ex_raw_digest e \<noteq> ''missing'' then Some (ex_encoded e) else None)"
    "bd_imported bd = ex_encoded e" "bm_state_sha (bd_metadata bd) = map_option (sha256_hex (sha K)) (bd_original bd)" .
  moreover obtain st where "import_decode K (ex_encoded e) = Inr st" "import_digest (sha K) st = Inr (ex_content e)"
      "generation st = ex_generation e"
      "ex_raw_digest e = ''missing'' \<and> st = no_state \<or> ex_raw_digest e = sha256_hex (sha K) (ex_encoded e)"
    using assms(2) by (auto simp: export_ok_def)
  ultimately show ?thesis
    using assms(4-8) sha_not_missing [OF assms(1)] by (auto simp: target_ok_def plain_decode_iff dest: sym)
qed

lemma snapshot_value_ref:
  assumes "sound_kit K" "snapshot_value K runtime b sn f = Inr v"
    and "rf = \<lparr>rf_id = last (sn_path sn), rf_manifest_sha = v_digest v, rf_containers = sn_containers sn,
      rf_blobs = sn_blobs sn, rf_bytes = sn_bytes sn\<rparr>"
  shows "session_snapshot runtime b rf = sn" "cloud_identifier (rf_id rf) ''snapshot-''" "hex_digest (rf_manifest_sha rf)"
proof -
  have parts: "sn_binding sn = b" "sn_consistency sn = snapshot_consistency" "sn_path sn \<noteq> []"
      "butlast (sn_path sn) = runtime @ [''private'', ''cloud-saves'']" "cloud_identifier (last (sn_path sn)) ''snapshot-''"
    using assms(2) by (auto simp: snapshot_value_def result_simps cloud_require_def split: if_splits)
  then have "sn_path sn = runtime @ [''private'', ''cloud-saves'', last (sn_path sn)]"
    by (metis append.assoc append_Cons append_Nil append_butlast_last_id)
  with parts show "session_snapshot runtime b rf = sn" by (simp add: session_snapshot_def assms(3))
  show "cloud_identifier (rf_id rf) ''snapshot-''" by (simp add: assms(3) parts)
  obtain raw where "v_digest v = sha256_hex (sha K) raw"
    using assms(2) by (auto simp: snapshot_value_def verify_snapshot_def Let_def result_simps split: prod.splits)
  then show "hex_digest (rf_manifest_sha rf)" by (simp add: assms(3) sha_hex [OF assms(1)])
qed

section \<open>One operation\<close>

definition journal_sound :: "kit \<Rightarrow> string list \<Rightarrow> scope \<Rightarrow> session store \<Rightarrow> bool" where
  "journal_sound K runtime sc s \<longleftrightarrow> (case journal s of None \<Rightarrow> True | Some Garbage \<Rightarrow> False
     | Some (Parsed r) \<Rightarrow> \<exists>ns. scope_namespace (sha K) (uuid_of K) sc = Inr ns \<and>
         session_ok K runtime (scope_binding (sha K) sc) ns r s)"

text \<open>How one operation may change the journal; \<open>rc\<close> is the receipt it was given, if any.\<close>

definition keeps_start :: "session \<Rightarrow> session \<Rightarrow> bool" where
  "keeps_start r r' \<longleftrightarrow> ss_id r' = ss_id r \<and> ss_revision r' = ss_revision r + 1 \<and>
     ss_snapshot r' = ss_snapshot r \<and> ss_original_remote r' = ss_original_remote r \<and>
     ss_pre_local r' = ss_pre_local r \<and> ss_pre_local_sha r' = ss_pre_local_sha r \<and>
     ss_initial_backup r' = ss_initial_backup r"

definition proven :: "kit \<Rightarrow> scope \<Rightarrow> receipt option \<Rightarrow> session \<Rightarrow> bool" where
  "proven K sc rc r \<longleftrightarrow> (\<exists>c. rc = Some c \<and> receipt_verifies c (scope_binding (sha K) sc) (ss_target r))"

definition moves :: "kit \<Rightarrow> scope \<Rightarrow> receipt option \<Rightarrow> session json_file option \<Rightarrow> session json_file option \<Rightarrow> bool" where
  "moves K sc rc j j' \<longleftrightarrow> j' = j
     \<or> j = None \<and> (\<exists>r. j' = Some (Parsed r) \<and> ss_revision r = 0 \<and> ss_confirmed r = None \<and>
         ss_before_remote r = ss_original_remote r)
     \<or> (\<exists>r r'. j = Some (Parsed r) \<and> j' = Some (Parsed r') \<and> keeps_start r r' \<and>
         (ss_before_remote r' = ss_before_remote r \<and> ss_confirmed r' = ss_confirmed r \<or>
          proven K sc rc r \<and> ss_before_remote r' = ss_target r \<and> ss_confirmed r' = Some (ss_target_backup r)))
     \<or> j' = None \<and> (\<exists>r. j = Some (Parsed r) \<and> proven K sc rc r)"

definition progress :: "kit \<Rightarrow> string list \<Rightarrow> scope \<Rightarrow> receipt option \<Rightarrow> session store \<Rightarrow> session store \<Rightarrow> bool" where
  "progress K runtime sc rc s t \<longleftrightarrow> grown s t \<and> journal_sound K runtime sc t \<and> moves K sc rc (journal s) (journal t)"

lemma journal_sound_parsed: "journal s = Some (Parsed r) \<Longrightarrow> journal_sound K runtime sc s \<longleftrightarrow>
    (\<exists>ns. scope_namespace (sha K) (uuid_of K) sc = Inr ns \<and> session_ok K runtime (scope_binding (sha K) sc) ns r s)"
  by (simp add: journal_sound_def)

lemma journal_sound_grown:
  assumes "journal_sound K runtime sc s" "grown s t" "journal t = journal s"
  shows "journal_sound K runtime sc t"
proof (cases "journal s")
  case None
  then show ?thesis using assms(3) by (simp add: journal_sound_def)
next
  case (Some f)
  then obtain r where r: "journal s = Some (Parsed r)"
    using assms(1) by (cases f) (auto simp: journal_sound_def)
  with assms show ?thesis
    using journal_sound_parsed [OF r] journal_sound_parsed [of t r] session_ok_grown [OF _ assms(2)] by auto
qed

lemma progress_same: "journal_sound K runtime sc s \<Longrightarrow> grown s t \<and> journal t = journal s \<Longrightarrow> progress K runtime sc rc s t"
  unfolding progress_def moves_def by (elim conjE, intro conjI disjI1, assumption, erule (2) journal_sound_grown, assumption)

lemma progress_files: "journal_sound K runtime sc s \<Longrightarrow> files_view t = files_view s \<Longrightarrow> progress K runtime sc rc s t"
  by (rule progress_same, assumption, rule files_grown)

text \<open>Writing a valid record over a store with the same journal.\<close>

lemma wp_store_progress:
  assumes "journal_sound K runtime sc s" "grown s t" "journal t = journal s"
    and "scope_namespace (sha K) (uuid_of K) sc = Inr ns" "session_ok K runtime (scope_binding (sha K) sc) ns r t"
    and "(new \<Longrightarrow> journal s = None) \<Longrightarrow> moves K sc rc (journal s) (Some (Parsed r))"
  shows "wp (store_record l r new) (\<lambda>_. progress K runtime sc rc s) (\<lambda>_. progress K runtime sc rc s) t"
proof (rule wp_store)
  fix u :: "session store" assume "files_view u = files_view t"
  with assms(2,3) have "grown s u \<and> journal u = journal s" using files_grown grown_trans by metis
  with assms(1) show "progress K runtime sc rc s u" by (rule progress_same)
next
  fix u :: "session store" assume "grown t u" "journal u = Some (Parsed r)" "new \<Longrightarrow> journal t = None"
  have "grown s u" using assms(2) \<open>grown t u\<close> by (rule grown_trans)
  moreover have "journal_sound K runtime sc u"
    using journal_sound_parsed [OF \<open>journal u = _\<close>] assms(4) session_ok_grown [OF assms(5) \<open>grown t u\<close>] by blast
  moreover have "moves K sc rc (journal s) (journal u)"
    using assms(3,6) \<open>new \<Longrightarrow> journal t = None\<close> \<open>journal u = _\<close> by simp
  ultimately show "progress K runtime sc rc s u" by (simp add: progress_def)
qed

text \<open>The operations on a running session start with access to the runtime and the current record.\<close>

lemma wp_current:
  assumes "journal_sound K runtime sc s"
    and "\<And>ns t. files_view t = files_view s \<Longrightarrow> scope_namespace (sha K) (uuid_of K) sc = Inr ns \<Longrightarrow>
      (\<And>e. ex = Some e \<Longrightarrow> ex_binding e = scope_binding (sha K) sc \<and> ex_namespace e = ns) \<Longrightarrow>
      journal s = Some (Parsed r) \<Longrightarrow> unat (ss_revision r) < I64_MAX \<Longrightarrow>
      session_ok K runtime (scope_binding (sha K) sc) ns r s \<Longrightarrow> wp (f ns r) Q E t"
    and "\<And>e t. files_view t = files_view s \<Longrightarrow> E e t"
  shows "wp (ebind (access K runtime sc l ex) (\<lambda>ns. ebind (current_record K runtime sc ns r) (f ns))) Q E s"
proof (rule step_ebind, rule wp_keeps [OF files_access])
  fix ns t assume "access K runtime sc l ex s = (Inr ns, t)" and t: "files_view t = files_view s"
  note ns = access_result [OF this(1)]
  show "wp (ebind (current_record K runtime sc ns r) (f ns)) Q E t"
  proof (rule step_ebind, rule wp_keeps [OF files_current_record])
    fix v u assume v: "current_record K runtime sc ns r t = (Inr v, u)" and u: "files_view u = files_view t"
    note cur = current_record_result [OF v]
    have j: "journal s = Some (Parsed r)" using cur(2) t by (simp add: files_view_def)
    then have "session_ok K runtime (scope_binding (sha K) sc) ns r s"
      using assms(1) journal_sound_parsed [OF j] ns(1) by auto
    then show "wp (f ns v) Q E u"
      using assms(2) [of u ns] ns j cur(1,3) t u by simp
  qed (use t assms(3) in simp)
qed (rule assms(3))

lemma next_revision: "unat x < I64_MAX \<Longrightarrow> unat ((x :: u64) + 1) \<le> I64_MAX"
  by (simp add: unat_word_ariths I64_MAX_def)

text \<open>Changing the phase, the target or what is confirmed leaves the other checks alone.\<close>

lemma session_ok_change:
  assumes "session_ok K runtime b ns r s" "keeps_start r r'" "unat (ss_revision r) < I64_MAX"
    and "ss_schema r' = ss_schema r" "ss_binding r' = ss_binding r" "ss_namespace r' = ss_namespace r"
    and "list_all hex_digest [ss_before_remote r', ss_target r', ss_target_sha r']"
      "ss_target_local_sha r' = ''missing'' \<or> hex_digest (ss_target_local_sha r')"
    and "target_ok K b ns r' (bt_get (backups s))" "confirmed_ok K b ns r' (bt_get (backups s))"
  shows "session_ok K runtime b ns r' s"
  using assms next_revision [OF assms(3)]
  by (simp add: session_ok_def session_form_def keeps_start_def remote_ok_def initial_ok_def)

lemma session_ok_hex: "session_ok K runtime b ns r s \<Longrightarrow>
    list_all hex_digest [ss_before_remote r, ss_target r, ss_target_sha r]
    \<and> (ss_target_local_sha r = ''missing'' \<or> hex_digest (ss_target_local_sha r))"
  by (simp add: session_ok_def session_form_def)

lemma target_ok_same:
  assumes "session_ok K runtime b ns r s" "ss_target_backup r' = ss_target_backup r" "ss_target_sha r' = ss_target_sha r"
    "ss_generation r' = ss_generation r" "ss_target r' = ss_target r" "ss_target_local_sha r' = ss_target_local_sha r"
  shows "target_ok K b ns r' (bt_get (backups s))"
  using assms by (simp add: session_ok_def target_ok_def)

lemma confirmed_ok_same:
  assumes "session_ok K runtime b ns r s" "ss_confirmed r' = ss_confirmed r" "ss_before_remote r' = ss_before_remote r"
    "ss_original_remote r' = ss_original_remote r"
  shows "confirmed_ok K b ns r' (bt_get (backups s))"
  using assms by (simp add: session_ok_def confirmed_ok_def cong: option.case_cong)

lemma moves_on:
  assumes "keeps_start r r'" "ss_before_remote r' = ss_before_remote r" "ss_confirmed r' = ss_confirmed r"
  shows "moves K sc rc (Some (Parsed r)) (Some (Parsed r'))"
  unfolding moves_def using assms by blast

lemma wp_update:
  assumes "sound_kit K" "uuids s" "journal_sound K runtime sc s" "\<And>e. ex = Some e \<Longrightarrow> export_ok K sc e"
  shows "wp (update_session K runtime sc r ph ex) (\<lambda>_. progress K runtime sc None s) (\<lambda>_. progress K runtime sc None s) s"
  unfolding update_session_def session_require_def
proof (rule step_eseq, rule step_need, rule wp_current [OF assms(3)])
  fix ns t
  assume t: "files_view t = files_view s" and ns: "scope_namespace (sha K) (uuid_of K) sc = Inr ns"
    and ex: "\<And>e. ex = Some e \<Longrightarrow> ex_binding e = scope_binding (sha K) sc \<and> ex_namespace e = ns"
    and j: "journal s = Some (Parsed r)" and rev: "unat (ss_revision r) < I64_MAX"
    and ok: "session_ok K runtime (scope_binding (sha K) sc) ns r s"
  have store: "wp (let v = v\<lparr>ss_phase := ph, ss_revision := ss_revision v + 1\<rparr> in eseq (store_record True v False) (eret v))
      (\<lambda>_. progress K runtime sc None s) (\<lambda>_. progress K runtime sc None s) u"
    if "grown s u" "journal u = journal s" "keeps_start r (v\<lparr>ss_phase := ph, ss_revision := ss_revision v + 1\<rparr>)"
      "ss_before_remote v = ss_before_remote r" "ss_confirmed v = ss_confirmed r"
      "session_ok K runtime (scope_binding (sha K) sc) ns (v\<lparr>ss_phase := ph, ss_revision := ss_revision v + 1\<rparr>) u" for v u
    unfolding Let_def
    by (rule step_eseq, rule wp_mono, rule wp_store_progress [OF assms(3) that(1,2) ns that(6)])
      (use that j in \<open>simp_all add: moves_on step_eret\<close>)
  show "wp (ebind (case ex of None \<Rightarrow> eret r
       | Some e \<Rightarrow> ebind (capture K e) (\<lambda>(n, h).
           eret (r\<lparr>ss_target_backup := n, ss_target_sha := h, ss_target := ex_content e,
             ss_target_local_sha := ex_raw_digest e, ss_generation := ex_generation e\<rparr>))) (\<lambda>v.
     let v = v\<lparr>ss_phase := ph, ss_revision := ss_revision v + 1\<rparr> in eseq (store_record True v False) (eret v)))
     (\<lambda>_. progress K runtime sc None s) (\<lambda>_. progress K runtime sc None s) t"
  proof (cases ex)
    case None
    have g: "grown s t" "journal t = journal s" using files_grown [OF t] by auto
    note ok' = session_ok_grown [OF ok g(1)]
    have "session_ok K runtime (scope_binding (sha K) sc) ns (r\<lparr>ss_phase := ph, ss_revision := ss_revision r + 1\<rparr>) t"
      by (rule session_ok_change [OF ok' _ rev _ _ _ _ _ target_ok_same [OF ok'] confirmed_ok_same [OF ok']])
        (use session_ok_hex [OF ok] in \<open>simp_all add: keeps_start_def\<close>)
    with g show ?thesis
      by (simp add: None wp_simps store keeps_start_def)
  next
    case (Some e)
    have e: "export_ok K sc e" "ex_binding e = scope_binding (sha K) sc" "ex_namespace e = ns"
      using assms(4) [OF Some] ex [OF Some] by auto
    have "uuids t" using assms(2) t by (simp add: uuids_def files_view_def)
    have finish: "wp (let v = v\<lparr>ss_phase := ph, ss_revision := ss_revision v + 1\<rparr> in eseq (store_record True v False) (eret v))
      (\<lambda>_. progress K runtime sc None s) (\<lambda>_. progress K runtime sc None s) u"
      if v: "v = r\<lparr>ss_target_backup := n, ss_target_sha := sha256_hex (sha K) (ex_encoded e), ss_target := ex_content e,
             ss_target_local_sha := ex_raw_digest e, ss_generation := ex_generation e\<rparr>"
        and cap: "captured K e t n u" for v n u
    proof (rule store)
      have c: "captured K e s n u" by (rule captured_start [OF cap t])
      show g: "grown s u" "journal u = journal s" using c by (simp_all add: captured_def)
      show "session_ok K runtime (scope_binding (sha K) sc) ns (v\<lparr>ss_phase := ph, ss_revision := ss_revision v + 1\<rparr>) u"
      proof (rule session_ok_change [OF session_ok_grown [OF ok g(1)] _ rev _ _ _ _ _ _ confirmed_ok_same [OF session_ok_grown [OF ok g(1)]]])
        show "target_ok K (scope_binding (sha K) sc) ns (v\<lparr>ss_phase := ph, ss_revision := ss_revision v + 1\<rparr>) (bt_get (backups u))"
          using captured_target [OF assms(1) e(1) c] e(2,3) by (simp add: v)
      qed (use session_ok_hex [OF ok] export_ok_hex [OF assms(1) e(1)] sha_hex [OF assms(1)] in \<open>simp_all add: v keeps_start_def\<close>)
    qed (simp_all add: v keeps_start_def)
    show ?thesis
      unfolding Some option.case
    proof (rule step_ebind, rule step_ebind, rule wp_mono [OF wp_capture [OF \<open>uuids t\<close>]], goal_cases)
      case (1 a u)
      obtain n h where "a = (n, h)" by (cases a)
      with 1 have "h = sha256_hex (sha K) (ex_encoded e)" "captured K e t n u" by simp_all
      then show ?case
        unfolding \<open>a = (n, h)\<close> prod.case by (intro step_eret finish) simp_all
    next
      case (2 _ u)
      then show ?case
        using files_grown [OF t] grown_trans [of s t u] by (intro progress_same [OF assms(3)]) simp
    qed
  qed
qed (use assms(3) progress_files progress_same in auto)

lemma wp_checkpoint:
  assumes "journal_sound K runtime sc s"
  shows "wp (checkpoint K runtime sc r e rc) (\<lambda>_. progress K runtime sc (Some rc) s) (\<lambda>_. progress K runtime sc (Some rc) s) s"
  unfolding checkpoint_def
proof (rule wp_current [OF assms])
  fix ns t
  assume t: "files_view t = files_view s" and ns: "scope_namespace (sha K) (uuid_of K) sc = Inr ns"
    and ex: "\<And>e'. Some e = Some e' \<Longrightarrow> ex_binding e' = scope_binding (sha K) sc \<and> ex_namespace e' = ns"
    and j: "journal s = Some (Parsed r)" and rev: "unat (ss_revision r) < I64_MAX"
    and ok: "session_ok K runtime (scope_binding (sha K) sc) ns r s"
  let ?v = "r\<lparr>ss_before_remote := ss_target r, ss_confirmed := Some (ss_target_backup r), ss_phase := Playing,
    ss_revision := ss_revision r + 1\<rparr>"
  show "wp (eseq (confirm_session K r e rc) (let v = ?v in eseq (store_record True v False) (eret v)))
      (\<lambda>_. progress K runtime sc (Some rc) s) (\<lambda>_. progress K runtime sc (Some rc) s) t"
  proof (rule step_eseq, rule wp_keeps [OF files_confirm])
    fix x u assume "confirm_session K r e rc t = (Inr x, u)" and u: "files_view u = files_view t"
    then have "receipt_verifies rc (scope_binding (sha K) sc) (ss_target r)" using confirm_result ex by metis
    then have "moves K sc (Some rc) (journal s) (Some (Parsed ?v))"
      unfolding moves_def j by (intro disjI2 disjI1) (simp add: keeps_start_def proven_def)
    moreover have g: "grown s u" "journal u = journal s" using files_grown [of u s] t u by simp_all
    moreover note ok' = session_ok_grown [OF ok g(1)]
    have con: "confirmed_ok K (scope_binding (sha K) sc) ns ?v (bt_get (backups u))"
      using ok' by (auto simp: session_ok_def confirmed_ok_def target_ok_def)
    have "session_ok K runtime (scope_binding (sha K) sc) ns ?v u"
      by (rule session_ok_change [OF ok' _ rev _ _ _ _ _ target_ok_same [OF ok'] con])
        (use session_ok_hex [OF ok] in \<open>simp_all add: keeps_start_def\<close>)
    ultimately show "wp (let v = ?v in eseq (store_record True v False) (eret v))
        (\<lambda>_. progress K runtime sc (Some rc) s) (\<lambda>_. progress K runtime sc (Some rc) s) u"
      unfolding Let_def
      by (intro step_eseq) (rule wp_mono, rule wp_store_progress [OF assms _ _ ns], simp_all add: step_eret)
  qed (use progress_files [OF assms] t in simp)
qed (rule progress_files [OF assms])

lemma wp_complete:
  assumes "journal_sound K runtime sc s"
  shows "wp (complete_session K runtime sc r e rc) (\<lambda>_. progress K runtime sc (Some rc) s) (\<lambda>_. progress K runtime sc (Some rc) s) s"
  unfolding complete_session_def
proof (rule wp_current [OF assms])
  fix ns t
  assume t: "files_view t = files_view s" and j: "journal s = Some (Parsed r)"
    and ex: "\<And>e'. Some e = Some e' \<Longrightarrow> ex_binding e' = scope_binding (sha K) sc \<and> ex_namespace e' = ns"
  show "wp (eseq (confirm_session K r e rc) (eseq (session_check True) (landing (\<lambda>s. s\<lparr>journal := None\<rparr>))))
      (\<lambda>_. progress K runtime sc (Some rc) s) (\<lambda>_. progress K runtime sc (Some rc) s) t"
  proof (rule step_eseq, rule wp_keeps [OF files_confirm])
    fix x u assume "confirm_session K r e rc t = (Inr x, u)" and u: "files_view u = files_view t"
    then have rc: "receipt_verifies rc (scope_binding (sha K) sc) (ss_target r)" using confirm_result ex by metis
    have gone: "progress K runtime sc (Some rc) s (w\<lparr>journal := None\<rparr>)" if "files_view w = files_view s" for w
      using files_grown [OF that] rc j by (auto simp: progress_def journal_sound_def moves_def proven_def grown_def)
    show "wp (eseq (session_check True) (landing (\<lambda>s. s\<lparr>journal := None\<rparr>)))
        (\<lambda>_. progress K runtime sc (Some rc) s) (\<lambda>_. progress K runtime sc (Some rc) s) u"
      unfolding landing_def
      by (rule step_eseq, rule wp_keeps [OF files_session_check], rule step_ebind, rule wp_keeps [OF files.next_io])
        (use t u gone progress_files [OF assms] in \<open>auto simp: wp_simps split: io_outcome.split\<close>)
  qed (use progress_files [OF assms] t in simp)
qed (rule progress_files [OF assms])

definition first_record :: "kit \<Rightarrow> scope \<Rightarrow> string \<Rightarrow> snapshot \<Rightarrow> local_export \<Rightarrow> phase \<Rightarrow> validated \<Rightarrow> string \<Rightarrow> string \<Rightarrow>
    string \<Rightarrow> string \<Rightarrow> session" where
  "first_record K sc ns sn e ph cloud n h d sid = \<lparr>ss_schema = 1, ss_binding = scope_binding (sha K) sc, ss_namespace = ns,
     ss_id = sid, ss_revision = 0, ss_phase = ph,
     ss_snapshot = \<lparr>rf_id = last (sn_path sn), rf_manifest_sha = v_digest cloud,
       rf_containers = sn_containers sn, rf_blobs = sn_blobs sn, rf_bytes = sn_bytes sn\<rparr>,
     ss_original_remote = d, ss_before_remote = d, ss_pre_local = ex_content e,
     ss_pre_local_sha = ex_raw_digest e, ss_initial_backup = n, ss_target = ex_content e,
     ss_target_sha = h, ss_target_local_sha = ex_raw_digest e, ss_target_backup = n,
     ss_generation = ex_generation e, ss_confirmed = None\<rparr>"

lemma first_record_ok:
  assumes "sound_kit K" "export_ok K sc e" "captured K e s n t" "ex_binding e = scope_binding (sha K) sc" "ex_namespace e = ns"
    and "snapshot_value K runtime (scope_binding (sha K) sc) sn (bt_get (snapshots t) (last (sn_path sn))) = Inr cloud"
    and "import_digest (sha K) (v_state cloud) = Inr d" "cloud_identifier sid []"
  shows "session_ok K runtime (scope_binding (sha K) sc) ns
    (first_record K sc ns sn e ph cloud n (sha256_hex (sha K) (ex_encoded e)) d sid) t"
proof -
  let ?r = "first_record K sc ns sn e ph cloud n (sha256_hex (sha K) (ex_encoded e)) d sid"
  note ref = snapshot_value_ref [OF assms(1,6) refl]
  have "remote_ok K runtime (scope_binding (sha K) sc) ?r (bt_get (snapshots t))"
    using assms(6,7) ref(1) by (simp add: remote_ok_def first_record_def)
  moreover have "initial_ok K (scope_binding (sha K) sc) ns ?r (bt_get (backups t))"
    using captured_initial [OF assms(1-3), of ?r] assms(4,5) by (simp add: first_record_def)
  moreover have "target_ok K (scope_binding (sha K) sc) ns ?r (bt_get (backups t))"
    using captured_target [OF assms(1-3), of ?r] assms(4,5) by (simp add: first_record_def)
  moreover have "session_form (scope_binding (sha K) sc) ns ?r"
    using assms(8) ref(2,3) export_ok_hex [OF assms(1,2)] sha_hex [OF assms(1)] digest_hex [OF assms(1,7)]
    by (simp add: session_form_def first_record_def)
  ultimately show ?thesis by (simp add: session_ok_def confirmed_ok_def first_record_def)
qed

text \<open>The part of \<open>begin_session\<close> that writes.\<close>

lemma wp_begin_writes:
  assumes "sound_kit K" "uuids s" "journal_sound K runtime sc s" "export_ok K sc e" "files_view t = files_view s" "journal s = None"
    and ns: "scope_namespace (sha K) (uuid_of K) sc = Inr ns" and e: "ex_binding e = scope_binding (sha K) sc" "ex_namespace e = ns"
    and val: "snapshot_value K runtime (scope_binding (sha K) sc) sn (bt_get (snapshots t) (last (sn_path sn))) = Inr cloud"
  shows "wp (ebind (capture K e) (\<lambda>(n, h). ebind (elift (import_digest (sha K) (v_state cloud))) (\<lambda>d. ebind (new_id []) (\<lambda>sid.
      eseq (need (sn_path sn \<noteq> []) ''invalid_snapshot'')
      (let r = first_record K sc ns sn e ph cloud n h d sid in eseq (store_record True r True) (eret r))))))
    (\<lambda>_. progress K runtime sc None s) (\<lambda>_. progress K runtime sc None s) t"
proof (rule step_ebind, rule wp_mono [OF wp_capture])
  show "uuids t" using assms(2,5) by (simp add: uuids_def files_view_def)
  fix f :: failure and u assume "grown t u \<and> journal u = journal t"
  then show "progress K runtime sc None s u"
    using files_grown [OF assms(5)] grown_trans [of s t u] by (intro progress_same [OF assms(3)]) simp
next
  fix a :: "string \<times> string" and u
  obtain n h where a: "a = (n, h)" by (cases a)
  assume "(case a of (n, h) \<Rightarrow> \<lambda>u. h = sha256_hex (sha K) (ex_encoded e) \<and> captured K e t n u) u"
  then have h: "h = sha256_hex (sha K) (ex_encoded e)" and c: "captured K e s n u"
    using captured_start [OF _ assms(5)] by (auto simp: a)
  then have g: "grown s u" "journal u = journal s" by (simp_all add: captured_def)
  then have sup: "uuids u" using assms(2) by (simp add: uuids_def grown_def)
  have snap: "snapshot_value K runtime (scope_binding (sha K) sc) sn (bt_get (snapshots u) (last (sn_path sn))) = Inr cloud"
    using val snapshot_present [OF val] g(1) assms(5) by (auto simp: grown_def files_view_def)
  show "wp (case a of (n, h) \<Rightarrow> ebind (elift (import_digest (sha K) (v_state cloud))) (\<lambda>d. ebind (new_id []) (\<lambda>sid.
      eseq (need (sn_path sn \<noteq> []) ''invalid_snapshot'')
      (let r = first_record K sc ns sn e ph cloud n h d sid in eseq (store_record True r True) (eret r)))))
    (\<lambda>_. progress K runtime sc None s) (\<lambda>_. progress K runtime sc None s) u"
    unfolding a prod.case Let_def h
  proof (rule step_ebind, rule step_elift, rule step_ebind, rule step_new_id, rule step_eseq, rule step_need)
    fix d assume d: "import_digest (sha K) (v_state cloud) = Inr d"
    let ?u = "u\<lparr>drawn := drawn u + 1\<rparr>"
    let ?r = "first_record K sc ns sn e ph cloud n (sha256_hex (sha K) (ex_encoded e)) d ([] @ id_supply u (drawn u))"
    have c': "captured K e s n ?u" by (rule captured_end [OF c]) (simp add: files_view_def)
    have "session_ok K runtime (scope_binding (sha K) sc) ns ?r ?u"
      by (rule first_record_ok [OF assms(1,4) c' e _ d uuid_identifier [OF sup]]) (use snap in simp)
    moreover have "moves K sc None (journal s) (Some (Parsed ?r))"
      unfolding moves_def assms(6) by (intro disjI2 disjI1) (simp add: first_record_def)
    ultimately show "wp (eseq (store_record True ?r True) (eret ?r))
        (\<lambda>_. progress K runtime sc None s) (\<lambda>_. progress K runtime sc None s) ?u"
      using c' by (intro step_eseq) (rule wp_mono, rule wp_store_progress [OF assms(3) _ _ ns], simp_all add: captured_def step_eret)
  next
    show "progress K runtime sc None s (u\<lparr>drawn := drawn u + 1\<rparr>)"
      using g by (intro progress_same [OF assms(3)]) (simp add: grown_def)
  next
    show "progress K runtime sc None s u" using g by (intro progress_same [OF assms(3)]) simp
  qed
qed

lemma wp_begin:
  assumes "sound_kit K" "uuids s" "journal_sound K runtime sc s" "export_ok K sc e"
  shows "wp (begin_session K runtime sc sn e ph) (\<lambda>_. progress K runtime sc None s) (\<lambda>_. progress K runtime sc None s) s"
  unfolding begin_session_def session_require_def
proof (rule step_eseq, rule step_need, rule step_ebind, rule wp_keeps [OF files_access], goal_cases)
  case (1 ns t1)
  note ns = access_result [OF 1(2)]
  show ?case
  proof (rule step_ebind, rule wp_keeps [OF files_load_record], goal_cases)
    case load: (1 current t2)
    show ?case
    proof (rule step_eseq, rule step_need, rule step_ebind, rule wp_keeps [OF files.read_snapshot], goal_cases)
      case snap: (1 cloud t)
      then have t: "files_view t = files_view s" using 1 load by simp
      have empty: "journal s = None"
        using load_record_result [OF load(1)] snap(1) 1(3) by (simp add: files_view_def)
      have val: "snapshot_value K runtime (scope_binding (sha K) sc) sn (bt_get (snapshots t) (last (sn_path sn))) = Inr cloud"
        using snapshot_result [OF snap(2)] snap(3) by (simp add: files_view_def)
      show ?case
        by (rule wp_begin_writes [OF assms t empty ns(1) _ _ val, unfolded first_record_def]) (use ns(2) [OF refl] in simp_all)
    next
      case (2 e t)
      then show ?case using progress_files [OF assms(3)] 1 load by simp
    next
      case 3
      then show ?case using progress_files [OF assms(3)] 1 load by simp
    qed
  next
    case (2 e t)
    then show ?case using progress_files [OF assms(3)] 1 by simp
  qed
next
  case (2 e t)
  then show ?case using progress_files [OF assms(3)] by simp
next
  case 3
  then show ?case using progress_files [OF assms(3)] by simp
qed

section \<open>Histories\<close>

text \<open>
  One thing that happens to the storage during a session: an operation on the journal, with whatever
  its caller passes it and an export taken from the storage as it was at some time; or anything else
  that leaves the journal, and only adds backups and snapshots (the game writing the save, a
  download, an import).
\<close>

inductive session_step :: "kit \<Rightarrow> string list \<Rightarrow> scope \<Rightarrow> receipt option \<Rightarrow> session store \<Rightarrow> session store \<Rightarrow> bool"
  for K runtime sc where
  begins: "export_local K runtime sc (v :: session store) = (Inr e, v') \<Longrightarrow> begin_session K runtime sc sn e ph s = (res, t) \<Longrightarrow>
     session_step K runtime sc None s t"
| updates: "update_session K runtime sc r ph None s = (res, t) \<Longrightarrow> session_step K runtime sc None s t"
| retargets: "export_local K runtime sc (v :: session store) = (Inr e, v') \<Longrightarrow> update_session K runtime sc r ph (Some e) s = (res, t) \<Longrightarrow>
     session_step K runtime sc None s t"
| checkpoints: "checkpoint K runtime sc r e rc s = (res, t) \<Longrightarrow> session_step K runtime sc (Some rc) s t"
| completes: "complete_session K runtime sc r e rc s = (res', t) \<Longrightarrow> session_step K runtime sc (Some rc) s t"
| elsewhere: "grown s t \<Longrightarrow> journal t = journal s \<Longrightarrow> session_step K runtime sc None s t"

inductive session_run :: "kit \<Rightarrow> string list \<Rightarrow> scope \<Rightarrow> session store \<Rightarrow> receipt list \<Rightarrow> session store \<Rightarrow> bool"
  for K runtime sc where
  no_steps: "session_run K runtime sc s [] s"
| more: "session_run K runtime sc s rcs t \<Longrightarrow> session_step K runtime sc rc t u \<Longrightarrow>
     session_run K runtime sc s (rcs @ (case rc of None \<Rightarrow> [] | Some c \<Rightarrow> [c])) u"

lemma wp_case_sum: "wp m (\<lambda>_. P) (\<lambda>_. P) s \<Longrightarrow> m s = (res, t) \<Longrightarrow> P t"
  by (cases res) (simp_all add: wp_def)

lemma step_progress:
  assumes "session_step K runtime sc rc s t" "sound_kit K" "uuids s" "journal_sound K runtime sc s"
  shows "progress K runtime sc rc s t"
  using assms
proof (induction rule: session_step.induct)
  case (begins v e v' sn ph s res t)
  from wp_case_sum [OF wp_begin [OF begins(3-5) export_local_ok [OF begins(3,1)]] begins(2)] show ?case .
next
  case (updates r ph s res t)
  from wp_case_sum [OF wp_update [OF updates(2-4)] updates(1)] show ?case by simp
next
  case (retargets v e v' r ph s res t)
  from wp_case_sum [OF wp_update [OF retargets(3-5)] retargets(2)] export_local_ok [OF retargets(3,1)] show ?case by simp
next
  case (checkpoints r e rc s res t)
  from wp_case_sum [OF wp_checkpoint [OF checkpoints(4)] checkpoints(1)] show ?case .
next
  case (completes r e rc s res t)
  from wp_case_sum [OF wp_complete [OF completes(4)] completes(1)] show ?case .
next
  case (elsewhere s t)
  then show ?case by (intro progress_same) simp_all
qed

lemma run_sound:
  assumes "session_run K runtime sc s rcs t" "sound_kit K" "uuids s" "journal_sound K runtime sc s"
  shows "grown s t \<and> uuids t \<and> journal_sound K runtime sc t"
  using assms
proof (induction rule: session_run.induct)
  case (more s rcs t rc u)
  then have t: "grown s t" "uuids t" "journal_sound K runtime sc t" by simp_all
  from step_progress [OF more(2,4) t(2,3)] t show ?case
    using grown_trans [of s t u] by (auto simp: progress_def uuids_def grown_def)
qed simp

text \<open>A calm run of \<open>load_session\<close>.\<close>

lemma calm_load:
  assumes "calm s" "journal_sound K runtime sc s" "scope_namespace (sha K) (uuid_of K) sc = Inr ns"
    and "\<And>r. journal s = map_option Parsed r \<Longrightarrow> Q r s"
  shows "wp (load_session K runtime sc) Q E s"
proof (cases "journal s")
  case None
  with assms(1,3) assms(4) [of None] show ?thesis
    by (simp add: load_session_def access_def load_record_def wp_simps calm_wp)
next
  case (Some f)
  then obtain r where r: "journal s = Some (Parsed r)"
    using assms(2) by (cases f) (auto simp: journal_sound_def)
  with assms(2,3) have ok: "session_ok K runtime (scope_binding (sha K) sc) ns r s"
    using journal_sound_parsed [OF r] by auto
  show ?thesis
    unfolding load_session_def access_def load_record_def
    by (simp add: wp_simps calm_wp assms(1,3) r, rule calm_validated [OF assms(1) ok])
      (use assms(1) assms(4) [of "Some r"] r in \<open>simp add: wp_simps calm_wp\<close>)
qed

lemma fresh_sound: "journal s = None \<Longrightarrow> journal_sound K runtime sc s"
  by (simp add: journal_sound_def)

text \<open>C29. The journal never becomes unreadable: after any history of sessions - their operations, each
  possibly cut short at any system call, with whatever the game, downloads and imports do in
  between - the journal is either absent or a record, and loading it checks it against its snapshot
  and its backups and returns exactly that.\<close>

theorem journal_loads:
  assumes "sound_kit K" "uuids s" "journal s = None" "scope_namespace (sha K) (uuid_of K) sc = Inr ns"
    and "session_run K runtime sc s rcs t"
  shows "\<exists>r. journal t = map_option Parsed r \<and> load_session K runtime sc (calmed t) = (Inr r, calmed t)"
proof -
  have "journal_sound K runtime sc t"
    using run_sound [OF assms(5,1,2) fresh_sound [OF assms(3)]] by blast
  then have "journal_sound K runtime sc (calmed t)"
    by (rule journal_sound_grown) (simp_all add: grown_def)
  from calm_load [OF calmed_sel(1) this assms(4), of "\<lambda>r u. journal t = map_option Parsed r \<and> u = calmed t" "\<lambda>_ _. False"]
  show ?thesis by (auto simp: wp_def split: prod.splits sum.splits)
qed

section \<open>What the journal says of the cloud\<close>

definition receipt_for :: "kit \<Rightarrow> scope \<Rightarrow> receipt list \<Rightarrow> string \<Rightarrow> bool" where
  "receipt_for K sc rcs d \<longleftrightarrow> (\<exists>c \<in> set rcs. receipt_verifies c (scope_binding (sha K) sc) d)"

definition cloud_proven :: "kit \<Rightarrow> scope \<Rightarrow> receipt list \<Rightarrow> session store \<Rightarrow> bool" where
  "cloud_proven K sc rcs s \<longleftrightarrow> (\<forall>r. journal s = Some (Parsed r) \<longrightarrow>
     ss_confirmed r = None \<and> ss_before_remote r = ss_original_remote r \<or> receipt_for K sc rcs (ss_before_remote r))"

definition same_claims :: "session \<Rightarrow> session \<Rightarrow> bool" where
  "same_claims r r' \<longleftrightarrow> ss_id r' = ss_id r \<and> ss_snapshot r' = ss_snapshot r \<and>
     ss_original_remote r' = ss_original_remote r \<and> ss_before_remote r' = ss_before_remote r \<and>
     ss_confirmed r' = ss_confirmed r \<and> ss_pre_local r' = ss_pre_local r \<and>
     ss_pre_local_sha r' = ss_pre_local_sha r \<and> ss_initial_backup r' = ss_initial_backup r"

lemma run_proven:
  assumes "session_run K runtime sc s rcs t" "sound_kit K" "uuids s" "journal s = None"
  shows "cloud_proven K sc rcs t"
  using assms
proof (induction rule: session_run.induct)
  case (no_steps s)
  then show ?case by (simp add: cloud_proven_def)
next
  case (more s rcs t rc u)
  have t: "uuids t" "journal_sound K runtime sc t"
    using run_sound [OF more(1,4,5) fresh_sound [OF more(6)]] by simp_all
  have "moves K sc rc (journal t) (journal u)"
    using step_progress [OF more(2,4) t] by (simp add: progress_def)
  moreover have "cloud_proven K sc rcs t" using more by simp
  ultimately show ?case
    unfolding cloud_proven_def receipt_for_def moves_def proven_def keeps_start_def
    by (cases rc) (simp_all, auto)
qed

lemma run_keeps_claims:
  assumes "session_run K runtime sc s rcs t" "sound_kit K" "uuids s" "journal_sound K runtime sc s"
    and "journal s = Some (Parsed r)" "\<And>d. \<not> receipt_for K sc rcs d"
  shows "\<exists>r'. journal t = Some (Parsed r') \<and> same_claims r r'"
  using assms
proof (induction rule: session_run.induct)
  case (no_steps s)
  then show ?case by (simp add: same_claims_def)
next
  case (more s rcs t rc u)
  have t: "uuids t" "journal_sound K runtime sc t"
    using run_sound [OF more(1,4-6)] by simp_all
  have m: "moves K sc rc (journal t) (journal u)"
    using step_progress [OF more(2,4) t] by (simp add: progress_def)
  have none: "\<not> receipt_for K sc rcs d" "\<not> proven K sc rc r'" for d r'
    using more(8) [of d] more(8) [of "ss_target r'"] by (auto simp: receipt_for_def proven_def)
  obtain r' where "journal t = Some (Parsed r')" "same_claims r r'"
    using more(3) [OF more(4-7) none(1)] by blast
  with m none(2) show ?case by (auto simp: moves_def same_claims_def keeps_start_def)
qed

text \<open>C30. What the journal says of the cloud needs a receipt: in a history that starts with no session, the
  cloud content a record claims is the one that was downloaded, with nothing confirmed, or a receipt
  of this account for exactly that content was given in it; and as long as no receipt of this
  account is given, no operation or failure drops the record or changes what it claims.\<close>

theorem cloud_needs_receipt:
  assumes "sound_kit K" "uuids s" "journal s = None" "session_run K runtime sc s rcs t"
    and "journal t = Some (Parsed r)"
    and "session_run K runtime sc t later u" "\<forall>c \<in> set later. receipt_binding c \<noteq> scope_binding (sha K) sc"
  shows "(ss_confirmed r = None \<and> ss_before_remote r = ss_original_remote r \<or>
      (\<exists>c \<in> set rcs. receipt_binding c = scope_binding (sha K) sc \<and> receipt_source c = ss_before_remote r)) \<and>
    (\<exists>r'. journal u = Some (Parsed r') \<and> ss_id r' = ss_id r \<and> ss_snapshot r' = ss_snapshot r \<and>
      ss_before_remote r' = ss_before_remote r \<and> ss_confirmed r' = ss_confirmed r \<and>
      ss_initial_backup r' = ss_initial_backup r)"
proof -
  note t = run_sound [OF assms(4,1,2) fresh_sound [OF assms(3)]]
  have "\<not> receipt_for K sc later d" for d
    using assms(7) by (auto simp: receipt_for_def receipt_verifies_def)
  then obtain r' where "journal u = Some (Parsed r')" "same_claims r r'"
    using run_keeps_claims [OF assms(6,1) _ _ assms(5)] t by blast
  moreover have "cloud_proven K sc rcs t" by (rule run_proven [OF assms(4,1-3)])
  ultimately show ?thesis
    using assms(5) by (auto simp: cloud_proven_def receipt_for_def receipt_verifies_def same_claims_def)
qed

section \<open>Example\<close>

text \<open>A session that begins on an empty save with the snapshot of the example of imports.\<close>

definition trial_disk :: "session store" where
  "trial_disk = \<lparr>enabled = True, has_folder = False, state_file = None, baseline_file = None, backups = [], receipts = [],
     snapshots = snapshots trial_store, journal = None, id_supply = id_supply trial_store, drawn = 0, io_script = []\<rparr>"

definition trial_export :: "(failure + local_export) \<times> session store" where
  "trial_export = export_local trial_kit [] trial_scope trial_disk"

definition trial_begin :: "(failure + session) \<times> session store" where
  "trial_begin = (case trial_export of (Inr e, t) \<Rightarrow> begin_session trial_kit [] trial_scope trial_snapshot e Prepared t
     | (Inl f, t) \<Rightarrow> (Inl f, t))"

lemma trial_begins: "case trial_begin of (Inr r, t) \<Rightarrow> ss_phase r = Prepared \<and> journal t \<noteq> None | _ \<Rightarrow> False"
  by code_simp

lemma trial_history: "uuids trial_disk" "journal trial_disk = None" "session_run trial_kit [] trial_scope trial_disk [] (snd trial_begin)"
proof -
  show u: "uuids trial_disk" using trial_sound(2) by (simp add: uuids_def trial_disk_def)
  show j: "journal trial_disk = None" by (simp add: trial_disk_def)
  obtain x v where x: "trial_export = (x, v)" by (rule prod.exhaust)
  then obtain e where e: "trial_export = (Inr e, v)"
    using trial_begins unfolding trial_begin_def x by (cases x) auto
  have run: "export_local trial_kit [] trial_scope trial_disk = (Inr e, v)" using e by (simp add: trial_export_def)
  have "files_view v = files_view trial_disk" by (rule keepsD [OF files.export_local run])
  then have "session_step trial_kit [] trial_scope None trial_disk v" using files_grown by (intro elsewhere) blast+
  from more [OF no_steps this] have a: "session_run trial_kit [] trial_scope trial_disk [] v" by simp
  have "begin_session trial_kit [] trial_scope trial_snapshot e Prepared v = (fst trial_begin, snd trial_begin)"
    unfolding trial_begin_def e by simp
  from more [OF a begins [OF run this]]
  show "session_run trial_kit [] trial_scope trial_disk [] (snd trial_begin)" by simp
qed

lemma trial_record: "\<exists>r. journal (snd trial_begin) = Some (Parsed r)"
proof -
  from run_sound [OF trial_history(3) trial_sound(1) trial_history(1) fresh_sound [OF trial_history(2)]]
  have "journal_sound trial_kit [] trial_scope (snd trial_begin)" by blast
  moreover obtain x t where x: "trial_begin = (x, t)" by (rule prod.exhaust)
  then have "journal (snd trial_begin) \<noteq> None" using trial_begins unfolding x by (simp split: sum.splits)
  ultimately show ?thesis by (auto simp: journal_sound_def split: option.splits json_file.splits)
qed

lemma journal_loads_witness:
  "\<exists>r. journal (snd trial_begin) = Some (Parsed r) \<and>
     load_session trial_kit [] trial_scope (calmed (snd trial_begin)) = (Inr (Some r), calmed (snd trial_begin))"
  using journal_loads [OF trial_sound(1) trial_history(1,2) trial_namespace trial_history(3)] trial_record by auto

text \<open>Before it is closed this session moves to another phase and back.\<close>

lemma cloud_needs_receipt_witness:
  "\<exists>r r' u. journal (snd trial_begin) = Some (Parsed r) \<and> ss_confirmed r = None \<and>
     u = snd (update_session trial_kit [] trial_scope r Pending None (snd trial_begin)) \<and>
     journal u = Some (Parsed r') \<and> ss_before_remote r' = ss_original_remote r"
proof -
  obtain r where r: "journal (snd trial_begin) = Some (Parsed r)" using trial_record by blast
  let ?u = "update_session trial_kit [] trial_scope r Pending None (snd trial_begin)"
  have "session_step trial_kit [] trial_scope None (snd trial_begin) (snd ?u)"
    by (rule updates [where res = "fst ?u"]) simp
  from more [OF no_steps this] have "session_run trial_kit [] trial_scope (snd trial_begin) [] (snd ?u)" by simp
  from cloud_needs_receipt [OF trial_sound(1) trial_history r this] r show ?thesis by auto
qed

end
