(* ===== verification/FlowRules.thy ===== *)
theory FlowRules
  imports CloudFlow SessionHistory
begin

text \<open>
  What a run over service and storage may change at most, as a relation between the state before and
  after: reflexive and transitive, so an operation stays within it when its steps do. The rules are
  proved once for any client and then interpreted for the one of \<^verbatim>\<open>cloud_runtime.rs\<close>.
\<close>

named_theorems within_intros "operations that stay within a relation"

section \<open>Staying within a relation\<close>

definition within :: "('s \<Rightarrow> 's \<Rightarrow> bool) \<Rightarrow> ('s, 'e, 'a) eff \<Rightarrow> bool" where
  "within R m \<longleftrightarrow> (\<forall>s. R s (snd (m s)))"

lemma withinD: "within R m \<Longrightarrow> m s = (r, t) \<Longrightarrow> R s t"
  by (metis within_def snd_conv)

lemma within_if [within_intros]: "within R m \<Longrightarrow> within R n \<Longrightarrow> within R (if c then m else n)"
  by simp

lemma within_option [within_intros]:
  "within R m \<Longrightarrow> (\<And>x. within R (f x)) \<Longrightarrow> within R (case e of None \<Rightarrow> m | Some x \<Rightarrow> f x)"
  by (cases e) auto

lemma within_sum [within_intros]:
  "(\<And>x. within R (f x)) \<Longrightarrow> (\<And>x. within R (g x)) \<Longrightarrow> within R (case e of Inl x \<Rightarrow> f x | Inr x \<Rightarrow> g x)"
  by (cases e) auto

lemma within_prod [within_intros]: "(\<And>x y. within R (f x y)) \<Longrightarrow> within R (case e of (x, y) \<Rightarrow> f x y)"
  by (cases e) auto

lemma within_prod_app [within_intros]:
  "(\<And>x y. within R (f x y g)) \<Longrightarrow> within R ((case e of (x, y) \<Rightarrow> f x y) g)"
  by (cases e) auto

lemma within_outcome [within_intros]:
  "within R m \<Longrightarrow> (\<And>x. within R (f x)) \<Longrightarrow> (\<And>x. within R (g x)) \<Longrightarrow>
    within R (case e of Fine \<Rightarrow> m | Refused x \<Rightarrow> f x | Unsynced x \<Rightarrow> g x)"
  by (cases e) auto

lemma within_wp: "within R m \<Longrightarrow> (\<And>a t. m s = (Inr a, t) \<Longrightarrow> R s t \<Longrightarrow> Q a t) \<Longrightarrow>
    (\<And>e t. m s = (Inl e, t) \<Longrightarrow> R s t \<Longrightarrow> E e t) \<Longrightarrow> wp m Q E s"
  by (rule wpI) (auto dest: withinD)

locale steps_of =
  fixes R :: "'s \<Rightarrow> 's \<Rightarrow> bool"
  assumes refl: "R s s" and trans: "R s t \<Longrightarrow> R t u \<Longrightarrow> R s u"
begin

lemma eret [within_intros]: "within R (eret a)"
  by (simp add: within_def eret_def refl)

lemma efail [within_intros]: "within R (efail e)"
  by (simp add: within_def efail_def refl)

lemma elift [within_intros]: "within R (elift r)"
  by (simp add: within_def elift_def refl)

lemma eget [within_intros]: "within R (eget f)"
  by (simp add: within_def eget_def refl)

lemma emod [within_intros]: "(\<And>s. R s (f s)) \<Longrightarrow> within R (emod f)"
  by (simp add: within_def emod_def)

lemma ebind [within_intros]: "within R m \<Longrightarrow> (\<And>a. within R (f a)) \<Longrightarrow> within R (ebind m f)"
  unfolding within_def ebind_def by (auto split: prod.split sum.split) (metis snd_conv trans)+

lemma eseq [within_intros]: "within R m \<Longrightarrow> within R n \<Longrightarrow> within R (eseq m n)"
  by (simp add: eseq_def ebind)

lemma etry [within_intros]: "within R m \<Longrightarrow> within R (etry m)"
  by (auto simp: within_def etry_def split: prod.split) (metis snd_conv)

lemma efor [within_intros]: "(\<And>x a. within R (f x a)) \<Longrightarrow> within R (efor f xs a)"
proof (induction xs arbitrary: a)
  case (Cons x xs)
  then show ?case by (simp add: ebind)
qed (simp add: eret)

end

section \<open>Reading the service\<close>

text \<open>Operations on the disk that only use up its script and its random identifiers.\<close>

definition rest_view :: "'j store \<Rightarrow> 'j store" where
  "rest_view s = s\<lparr>io_script := [], drawn := 0\<rparr>"

interpretation rests: plain_view rest_view
  by unfold_locales (auto simp: rest_view_def)

lemma rest_view_eq: "rest_view t = rest_view s \<Longrightarrow> t = s\<lparr>io_script := io_script t, drawn := drawn t\<rparr>"
  by (cases s; cases t) (simp add: rest_view_def)

lemma keeps_rest: "keeps rest_view m \<Longrightarrow> \<exists>x k. snd (m s) = s\<lparr>io_script := x, drawn := k\<rparr>"
  using rest_view_eq by (metis keeps_def)

locale disk_steps = steps_of R for R :: "'w flow \<Rightarrow> 'w flow \<Rightarrow> bool" +
  assumes script: "R s (s\<lparr>disk := (disk s)\<lparr>io_script := x\<rparr>\<rparr>)"
    and drawing: "R s (s\<lparr>disk := (disk s)\<lparr>drawn := k\<rparr>\<rparr>)"
begin

lemma on_disk [within_intros]:
  assumes "keeps rest_view m"
  shows "within R (on_disk m)"
  unfolding within_def
proof
  fix s :: "'w flow"
  obtain x k where "snd (m (disk s)) = (disk s)\<lparr>io_script := x, drawn := k\<rparr>"
    using keeps_rest [OF assms] by blast
  moreover have "R s (s\<lparr>disk := (disk s)\<lparr>io_script := x, drawn := k\<rparr>\<rparr>)"
    using trans [OF script [of s x] drawing [of "s\<lparr>disk := (disk s)\<lparr>io_script := x\<rparr>\<rparr>" k]] by simp
  ultimately show "R s (snd (on_disk m s))" by (auto simp: on_disk_def split: prod.split)
qed

lemma freq [within_intros]: "within R (freq c m)"
  unfolding freq_def by (rule elift)

end

locale reader_steps = disk_steps R for R :: "'w flow \<Rightarrow> 'w flow \<Rightarrow> bool" +
  fixes T :: "('w flow, 'z) transport_scheme"
  assumes read: "within R (read_op T p timeout_ns maximum)"
    and cancelling: "R s (snd (load_cancel T s))"
    and timing: "R s (snd (clock T s))"
    and adding: "\<not> bt_has (snapshots (disk s)) n \<Longrightarrow>
      R s (s\<lparr>disk := (disk s)\<lparr>snapshots := bt_put n f (snapshots (disk s))\<rparr>\<rparr>)"
    and pointing: "R s (s\<lparr>cache_file := c\<rparr>)"
begin

lemma check_time [within_intros]: "within R (check_time T d)"
proof -
  have "R s (snd (check_time T d s))" for s
    using cancelling [of s] trans [OF cancelling timing, of s] by (auto simp: check_time_def split: prod.split)
  then show ?thesis by (simp add: within_def)
qed

lemma due_in [within_intros]: "within R (due_in T d)"
  unfolding within_def due_in_def using timing by (auto split: prod.split) (metis snd_conv)

lemma reader_get [within_intros]: "within R (reader_get T L d p m)"
  unfolding reader_get_def by (intro within_intros read)

lemma list_pages [within_intros]: "within R (list_pages T parse seconds L d n g)"
proof (induction n arbitrary: g)
  case (Suc n)
  show ?case unfolding list_pages.simps by (intro within_intros Suc.IH)
qed (simp add: efail)

lemma reader_inventory [within_intros]: "within R (reader_inventory T parse seconds L d)"
  unfolding reader_inventory_pages by (rule list_pages)

lemma reader_atoms [within_intros]: "within R (reader_atoms T parse L d c)"
  unfolding reader_atoms_def by (intro within_intros)

lemma fetch_atom [within_intros]: "within R (fetch_atom T K L d c previous p g)"
  by (cases p; cases g) (simp add: Let_def, intro within_intros rests.io)

lemma fetch_container [within_intros]: "within R (fetch_container T K W L d cache c g)"
  unfolding fetch_container_def Let_def by (intro within_intros)

lemma recheck_container [within_intros]: "within R (recheck_container T W L d g c u)"
  unfolding recheck_container_def by (intro within_intros)

lemma publish_snapshot [within_intros]: "within R (on_disk (publish_snapshot n f))"
  unfolding within_def
proof
  fix s :: "'w flow"
  show "R s (snd (on_disk (publish_snapshot n f) s))"
    using script [of s] trans [OF script [of s] adding [of "s\<lparr>disk := (disk s)\<lparr>io_script := _\<rparr>\<rparr>" n f]] refl
    by (auto simp: on_disk_def publish_snapshot_def landing_def next_io_def ebind_def eseq_def eget_def emod_def efail_def
        split: io_outcome.split list.split)
qed

lemma download_cached [within_intros]: "within R (download_cached T K W L runtime cache)"
  unfolding download_cached_def Let_def by (intro within_intros rests.io rests.new_id)

lemma flow_landing: "(\<And>s. R s (f s)) \<Longrightarrow> within R (flow_landing f)"
  unfolding flow_landing_def by (intro within_intros rests.next_io)

lemma cache_load [within_intros]: "within R (cache_load K runtime sc)"
  unfolding cache_load_def Let_def by (intro within_intros rests.io rests.parsed rests.read_snapshot)

lemma remember [within_intros]: "within R (remember K runtime sc sn)"
  unfolding remember_def Let_def by (intro within_intros rests.io rests.read_snapshot flow_landing pointing)

lemma forget [within_intros]: "within R (forget n c)"
  unfolding forget_def by (intro within_intros)

lemma cache_download [within_intros]: "within R (cache_download T K W L runtime force)"
  unfolding cache_download_def by (intro within_intros rests.io)

end

section \<open>The whole client\<close>

locale service_steps = reader_steps R T for R :: "'w flow \<Rightarrow> 'w flow \<Rightarrow> bool" and T :: "'w flow operations" +
  assumes acquiring: "within R (acquire T n)"
    and renewing: "within R (renew_lease T n)"
    and releasing: "within R (release T n)"
    and sending: "within R (upload_atom T bytes n)"
    and putting: "within R (put_container T name_text shown at atoms n)"
    and deleting: "within R (delete_container T name_text n)"
    and downloading: "within R (remote_state T n force)"
begin

sublocale run: steps_of "\<lambda>r r'. R (world r) (world r')"
  by unfold_locales (auto intro: refl trans)

lemma call: "within R m \<Longrightarrow> within (\<lambda>r r'. R (world r) (world r')) (call m)"
  by (auto simp: within_def call_def split: prod.split) (metis snd_conv)

lemma upload_run:
  assumes "ops S = T" "within R (assert_local S)"
  shows "within (\<lambda>r r'. R (world r) (world r')) (upload_run S st want source n)"
proof -
  have check: "within (\<lambda>r r'. R (world r) (world r')) (write_check S)"
    unfolding write_check_def assms(1) by (intro within_intros call check_time assms(2))
  have spend: "within (\<lambda>r r'. R (world r) (world r')) (budget S)"
    unfolding budget_def by (intro within_intros check) (simp add: refl)
  have claim: "within (\<lambda>r r'. R (world r) (world r')) (CloudWrite.lease S reply first)" for reply first
    unfolding CloudWrite.lease_def set_acquired_def Let_def by (intro within_intros check) (simp_all add: refl)
  have again: "within (\<lambda>r r'. R (world r) (world r')) (renew S)"
    unfolding renew_def set_acquired_def assms(1) by (intro within_intros spend claim call renewing) (simp add: refl)
  have fetch: "within (\<lambda>r r'. R (world r) (world r')) (CloudWrite.remote S force)" for force
    unfolding CloudWrite.remote_def assms(1) by (intro within_intros check call downloading)
  have confirming: "within (\<lambda>r r'. R (world r) (world r')) (confirm S k w)" for k w
    unfolding confirm_def by (intro within_intros again fetch) (simp add: refl)
  have committing: "within (\<lambda>r r'. R (world r) (world r')) (commit S k w atoms)" for k w atoms
    unfolding commit_def mutate_def mutation_reply_def set_acquired_def assms(1)
    by (intro within_intros again check spend confirming call putting deleting) (simp_all add: refl)
  have atoms: "within (\<lambda>r r'. R (world r) (world r')) (upload_atoms S w)" for w
    unfolding upload_atoms_def upload_blob_def assms(1) by (intro within_intros again check spend call sending)
  have container: "within (\<lambda>r r'. R (world r) (world r')) (upload_container S local rem k u)" for local rem k u
    unfolding upload_container_def Let_def by (intro within_intros atoms committing)
  show ?thesis
    unfolding upload_run_def assms(1) by (intro within_intros spend claim fetch again container call acquiring)
qed

lemma finish_run:
  assumes "ops S = T" "finish_run S (res, r) = (res', rel, r')"
  shows "R (world r) (world r')"
  using assms withinD [OF releasing, of "cleanup (wlimits S)" "world r"] refl
  by (auto simp: finish_run_def call_def Let_def split: sum.splits option.splits if_splits prod.splits)

lemma upload [within_intros]:
  assumes "within R unchanged"
  shows "within R (upload H sc T st want unchanged L)"
  unfolding within_def
proof
  fix w
  let ?S = "\<lambda>now. \<lparr>ops = T, assert_local = unchanged, wlimits = L, due = now + run_deadline L, hash = H\<rparr>"
  have clocked: "R w w1" if "clock T w = (now, w1)" for now w1
    using timing [of w] that by simp
  have ran: "R w (world r)" if "clock T w = (now, w1)"
    "finish_run (?S now) (upload_run (?S now) st want source n (run_start w1)) = (res, rel, r)" for now w1 source n res rel r
  proof -
    obtain res1 r1 where r1: "upload_run (?S now) st want source n (run_start w1) = (res1, r1)" by fastforce
    have "R w1 (world r1)"
      using withinD [OF upload_run [of "?S now"] r1] assms by (simp add: run_start_def)
    moreover have "R (world r1) (world r)"
      using finish_run [of "?S now"] that(2) r1 by simp
    ultimately show ?thesis using clocked [OF that(1)] trans by blast
  qed
  show "R w (snd (upload H sc T st want unchanged L w))"
    unfolding upload_def by (auto simp: refl Let_def intro: ran clocked split: sum.split prod.split)
qed

end

end
