(* ===== verification/ClientRules.thy ===== *)
theory ClientRules
  imports FlowRules
begin

text \<open>
  The client of \<^verbatim>\<open>cloud_runtime.rs\<close> provides the service the flow relies on: whatever relation its
  exchanges stay within, so do a download and an upload through it.
\<close>

definition asks_to_read :: "json \<Rightarrow> bool" where
  "asks_to_read request \<longleftrightarrow> jget request ''op'' \<in> {JStr ''index'', JStr ''container'', JStr ''atom''}"

lemma read_request_asks: "read_request p = Inr j \<Longrightarrow> asks_to_read (jset ''max_bytes'' x j)"
  by (auto simp: read_request_def asks_to_read_def result_simps jget_jset jset_def jget_def split: read_operation.splits option.splits if_splits)

locale client_reads = disk_steps R for R :: "'w flow \<Rightarrow> 'w flow \<Rightarrow> bool" +
  fixes H :: "'w helper"
  assumes asking: "asks_to_read request \<Longrightarrow> within R (on_net (exchange H request [] maximum wait_ns False))"
    and failing: "R s (s\<lparr>net := pipe_fail H (net s)\<rparr>)"
    and cancelling: "R s (s\<lparr>net := snd (helper_cancel H (net s))\<rparr>)"
    and timing: "R s (s\<lparr>net := snd (helper_clock H (net s))\<rparr>)"
    and adding: "\<not> bt_has (snapshots (disk s)) n \<Longrightarrow>
      R s (s\<lparr>disk := (disk s)\<lparr>snapshots := bt_put n f (snapshots (disk s))\<rparr>\<rparr>)"
    and pointing: "R s (s\<lparr>cache_file := c\<rparr>)"
begin

lemma client_response [within_intros]:
  "within R (on_net (exchange H request payload maximum n clean)) \<Longrightarrow>
    within R (client_response H request payload maximum n clean)"
  unfolding client_response_def client_exchange_def
  by (intro within_intros rests.check_lease failing)

lemma client_read: "within R (client_read H p n maximum)"
proof -
  have "within R (ebind (elift (read_request p)) (\<lambda>request.
      client_response H (jset ''max_bytes'' (jnum maximum) request) [] maximum n False))"
  proof (cases "read_request p")
    case (Inl e)
    then show ?thesis by (simp add: within_def ebind_def elift_def refl)
  next
    case (Inr j)
    have "within R (client_response H (jset ''max_bytes'' (jnum maximum) j) [] maximum n False)"
      by (intro client_response asking read_request_asks [OF Inr])
    with Inr show ?thesis by (simp add: within_def ebind_def elift_def)
  qed
  then show ?thesis unfolding client_read_def by (intro eseq freq)
qed

sublocale reads: reader_steps R "client_transport H"
proof unfold_locales
  show "within R (read_op (client_transport H) p n m)" for p n m
    by (simp add: client_transport_def client_read)
  show "R s (snd (load_cancel (client_transport H) s))" "R s (snd (clock (client_transport H) s))" for s
    using cancelling [of s] timing [of s] by (auto simp: client_transport_def split: prod.split)
qed (simp_all add: adding pointing)

sublocale calls: reader_steps R "client_ops K W runtime H"
  by unfold_locales (simp_all add: client_ops_def reads.read reads.cancelling reads.timing adding pointing)

end

locale client_steps = client_reads R H for R :: "'w flow \<Rightarrow> 'w flow \<Rightarrow> bool" and H +
  assumes talking: "R s (s\<lparr>net := w\<rparr>)"
begin

lemma on_net [within_intros]: "within R (on_net m)"
  using talking by (simp add: within_def on_net_def split: prod.split)

lemma client_write [within_intros]: "within R (client_write H request payload n clean)"
  unfolding client_write_def by (intro within_intros)

lemma client_remote: "within R (client_remote K W runtime H n force)"
  unfolding client_remote_def by (intro within_intros rests.read_snapshot)

sublocale ops: service_steps R "client_ops K W runtime H"
proof unfold_locales
qed (auto simp: client_ops_def client_lease_reply_def client_release_def client_upload_atom_def client_put_def
    client_delete_def client_remote reads.read reads.cancelling reads.timing reads.adding reads.pointing intro!: within_intros)

end

end
