(* ===== verification/FlowSafety.thy ===== *)
theory FlowSafety
  imports ClientRules
begin

text \<open>
  The session flow composed: whatever the helper answers and however system calls end, a run before
  or after a game is a history of the session journal, and loses no save.
\<close>

section \<open>The storage\<close>

definition guarded :: "'j store \<Rightarrow> 'j store \<Rightarrow> bool" where
  "guarded s t \<longleftrightarrow> grown s t \<and> stored_state t = stored_state s"

definition spared :: "'j store \<Rightarrow> 'j store \<Rightarrow> bool" where
  "spared s t \<longleftrightarrow> grown s t \<and> journal t = journal s"

definition kept :: "'j store \<Rightarrow> 'j store \<Rightarrow> bool" where
  "kept s t \<longleftrightarrow> guarded s t \<and> spared s t"

interpretation guardeds: steps_of guarded
  by unfold_locales (auto simp: guarded_def intro: grown_trans)

interpretation spareds: steps_of spared
  by unfold_locales (auto simp: spared_def intro: grown_trans)

interpretation kepts: steps_of kept
  by unfold_locales (auto simp: kept_def intro: guardeds.refl spareds.refl guardeds.trans spareds.trans)

lemma within_mono: "within R m \<Longrightarrow> (\<And>s t. R s t \<Longrightarrow> R' s t) \<Longrightarrow> within R' m"
  by (auto simp: within_def)

lemma kept_guarded: "within kept m \<Longrightarrow> within guarded m"
  by (erule within_mono) (simp add: kept_def)

lemma kept_spared: "within kept m \<Longrightarrow> within spared m"
  by (erule within_mono) (simp add: kept_def)

lemma keeps_kept:
  assumes "keeps files_view m" "keeps save_view m"
  shows "within kept m"
  unfolding within_def
proof
  fix s
  have "grown s (snd (m s)) \<and> journal (snd (m s)) = journal s"
    by (rule files_grown) (use assms(1) in \<open>simp add: keeps_def\<close>)
  moreover have "stored_state (snd (m s)) = stored_state s" using assms(2) by (simp add: keeps_def save_view_def)
  ultimately show "kept s (snd (m s))" by (simp add: kept_def guarded_def spared_def)
qed

lemma keeps_spared: "keeps files_view m \<Longrightarrow> within spared m"
  unfolding within_def spared_def keeps_def by (metis files_grown)

lemma kept_ops [within_intros]: "within kept io" "within kept next_io" "within kept check_lease" "within kept check_cancel"
    "within kept (new_id p)" "within kept (need c m)" "within kept (parsed f)" "within kept (recheck l)"
    "within kept (local_state K)" "within kept (read_snapshot K runtime b sn)" "within kept (backup_data K b ns n)"
    "within kept (assert_unchanged K e)" "within kept (open_local l c ns)" "within kept (prepare K runtime sc sn bl)"
    "within kept (load_baseline K sc)" "within kept (export_local K runtime sc)"
  by (intro keeps_kept files.next_io saves.next_io files.io saves.io files.check_lease saves.check_lease
      files.check_cancel saves.check_cancel files.new_id saves.new_id files.need saves.need files.parsed saves.parsed
      files.recheck saves.recheck files.local_state saves.local_state files.read_snapshot saves.read_snapshot
      files.backup_data saves.backup_data files.assert_unchanged saves.assert_unchanged files.open_local saves.open_local
      files.prepare saves.prepare files.load_baseline saves.load_baseline files.export_local saves.export_local)+

lemma kept_publish_common [within_intros]: "within kept (publish_common K b ns n e k)"
  by (intro keeps_kept files.publish_common saves.publish_common) (simp_all add: files_view_def save_view_def)

text \<open>A change that only lands where nothing is yet.\<close>

lemma within_fresh:
  assumes "\<And>s. \<not> bt_has (f s) n \<Longrightarrow> within R (m :: ('s, 'e, 'a) eff) \<or> R s (snd (m s))" "\<And>s. R s s"
  shows "within R (ebind (eget (\<lambda>s. bt_has (f s) n)) (\<lambda>taken. if taken then efail e else m))"
  using assms by (auto simp: within_def ebind_def eget_def efail_def)

lemma kept_backup [within_intros]: "within kept (backup K b ns raw i snap)"
  unfolding backup_def Let_def
proof (intro within_fresh disjI2 within_intros)
  fix n :: string and files and s :: "'j store"
  assume free: "\<not> bt_has (backups s) n"
  have "kept s (s\<lparr>io_script := x, backups := bt_put n files (backups s)\<rparr>)" for x
    using free by (auto simp: kept_def guarded_def spared_def grown_def bt_get_put bt_has_def)
  then show "kept s (snd (eseq (landing (\<lambda>s. s\<lparr>backups := bt_put n files (backups s)\<rparr>)) (eret n) s))"
    by (auto simp: landing_def next_io_def ebind_def eseq_def emod_def efail_def eret_def split: io_outcome.split list.split)
      (auto simp: kept_def guarded_def spared_def grown_def)
qed (rule kepts.refl)

lemma kept_record_common [within_intros]: "within kept (record_common K e r)"
  unfolding record_common_def by (intro within_intros)

lemma kept_access [within_intros]: "within kept (access K runtime sc l e)"
  unfolding access_def session_check_def by (intro within_intros)

lemma kept_load_record [within_intros]: "within kept (load_record K runtime sc ns)"
  unfolding load_record_def validated_def check_initial_def check_target_def check_confirmed_def session_require_def Let_def
  by (intro within_intros)

lemma kept_load_session [within_intros]: "within kept (load_session K runtime sc)"
  unfolding load_session_def session_check_def by (intro within_intros)

text \<open>An import changes the save and not the journal.\<close>

lemma spared_commit: "within spared (commit_local K l p e)"
  unfolding commit_local_def
  by (intro within_intros kept_ops [THEN kept_spared]) (simp_all add: spared_def grown_def)

lemma spared_apply: "within spared (apply_plan K runtime sc p ch)"
  unfolding apply_plan_def import_selected_def settle_import_def Let_def
  by (intro within_intros spared_commit kept_backup [THEN kept_spared] kept_publish_common [THEN kept_spared]
      kept_ops [THEN kept_spared])

text \<open>The operations of the journal change the journal and not the save.\<close>

lemma guarded_journal: "within guarded (landing (\<lambda>s. s\<lparr>journal := j\<rparr>))"
  unfolding landing_def
  by (intro within_intros kept_ops [THEN kept_guarded]) (simp_all add: guarded_def grown_def)

lemma guarded_store: "within guarded (store_record l r new)"
  unfolding store_record_def session_check_def io_as_def
  by (intro within_intros guarded_journal kept_ops [THEN kept_guarded])

lemma kept_capture [within_intros]: "within kept (capture K e)"
  unfolding capture_def by (intro within_intros)

lemma kept_confirm [within_intros]: "within kept (confirm_session K v e rc)"
  unfolding confirm_session_def by (intro within_intros)

lemma kept_current [within_intros]: "within kept (current_record K runtime sc ns r)"
  unfolding current_record_def session_require_def by (intro within_intros)

lemmas guarded_kept = kept_access [THEN kept_guarded] kept_current [THEN kept_guarded] kept_load_record [THEN kept_guarded]
  kept_capture [THEN kept_guarded] kept_confirm [THEN kept_guarded] kept_ops [THEN kept_guarded]

lemma guarded_session:
  "within guarded (begin_session K runtime sc sn e ph)" "within guarded (update_session K runtime sc r ph ex)"
  "within guarded (checkpoint K runtime sc r e rc)" "within guarded (complete_session K runtime sc r e rc)"
  unfolding begin_session_def update_session_def checkpoint_def complete_session_def session_require_def session_check_def Let_def
  by (intro within_intros guarded_store guarded_journal guarded_kept)+

section \<open>The flow\<close>

definition apart :: "'w flow \<Rightarrow> 'w flow \<Rightarrow> bool" where
  "apart s t \<longleftrightarrow> kept (disk s) (disk t)"

interpretation aparts: client_steps apart H for H
proof unfold_locales
  show "within apart (on_net (exchange H request [] maximum n False))" for request maximum n
    by (auto simp: within_def on_net_def apart_def kepts.refl split: prod.split)
qed (auto simp: apart_def kept_def guarded_def spared_def grown_def bt_get_put bt_has_def stored_state_def intro: grown_trans)

lemma on_disk_within: "within Q m \<Longrightarrow> within (\<lambda>s t. Q (disk s) (disk t)) (on_disk m)"
  by (auto simp: within_def on_disk_def split: prod.split) (metis snd_conv)

lemma apart_on_disk: "within kept m \<Longrightarrow> within apart (on_disk m)"
  unfolding apart_def by (rule on_disk_within)

lemma attend_within: "within R m \<Longrightarrow> within R (attend m)"
  by (auto simp: within_def attend_def split: prod.split sum.split) (metis snd_conv)+

lemma scope_of_client: "ebind (eget (transport_scope (client_ops K W runtime H))) f = f (helper_scope H)"
  by (rule ext) (simp add: ebind_def eget_def client_ops_def client_transport_def)

text \<open>\<open>R\<close> is what a run does without an import, \<open>S\<close> what it does with one.\<close>

locale flow_steps = steps_of R for R :: "'w flow \<Rightarrow> 'w flow \<Rightarrow> bool" +
  fixes K :: kit and W :: wire and runtime :: "string list" and H :: "'w helper" and S :: "'w flow \<Rightarrow> 'w flow \<Rightarrow> bool"
  assumes quiet: "apart s t \<Longrightarrow> R s t"
    and begins: "export_local K runtime (helper_scope H) (v :: session store) = (Inr e, v') \<Longrightarrow>
      within R (on_disk (begin_session K runtime (helper_scope H) sn e ph))"
    and updates: "export_local K runtime (helper_scope H) (v :: session store) = (Inr e, v') \<Longrightarrow>
      within R (on_disk (update_session K runtime (helper_scope H) r ph (Some e)))"
    and checkpoints: "within R (on_disk (checkpoint K runtime (helper_scope H) r e rc))"
    and completes: "within R (on_disk (complete_session K runtime (helper_scope H) r e rc))"
    and sub: "R s t \<Longrightarrow> S s t" and before: "R s t \<Longrightarrow> S t u \<Longrightarrow> S s u" and after: "S s t \<Longrightarrow> R t u \<Longrightarrow> S s u"
    and importing: "within S (on_disk (apply_plan K runtime (helper_scope H) p ch))"
begin

lemma quietly: "within kept m \<Longrightarrow> within R (on_disk m)"
  using quiet apart_on_disk within_mono by blast

lemma export: "(\<And>e v v'. export_local K runtime (helper_scope H) (v :: session store) = (Inr e, v') \<Longrightarrow> within R (f e)) \<Longrightarrow>
    within R (ebind (on_disk (export_local K runtime (helper_scope H))) f)"
  unfolding within_def
proof
  fix s :: "'w flow"
  assume *: "\<And>e v v'. export_local K runtime (helper_scope H) (v :: session store) = (Inr e, v') \<Longrightarrow> \<forall>s. R s (snd (f e s))"
  obtain r d where d: "export_local K runtime (helper_scope H) (disk s) = (r, d)" by fastforce
  have "R s (s\<lparr>disk := d\<rparr>)"
    using withinD [OF quietly [OF kept_ops(16)], of K runtime "helper_scope H" s r] d by (simp add: on_disk_def)
  then show "R s (snd (ebind (on_disk (export_local K runtime (helper_scope H))) f s))"
    using * [of "disk s"] trans by (cases r) (auto simp: ebind_def on_disk_def d)
qed

lemma upload: "within kept unchanged \<Longrightarrow> within R (upload h sc (client_ops K W runtime H) st want (on_disk unchanged) L)"
  by (rule within_mono [OF aparts.ops.upload [OF apart_on_disk]]) (auto intro: quiet)

lemma downloads: "within R (cache_download (client_ops K W runtime H) K W L runtime force)"
  by (rule within_mono [OF aparts.calls.cache_download]) (auto intro: quiet)

lemma freq: "within R (freq c m)"
  unfolding freq_def by (rule elift)

lemma finish_session: "within R (finish_session K (client_ops K W runtime H) runtime r want playing)"
  unfolding finish_session_def scope_of_client
  by (rule export) (intro within_intros updates upload quietly freq checkpoints completes)

text \<open>At most one import in a run.\<close>

lemma S_of: "within R m \<Longrightarrow> within S m"
  by (erule within_mono) (rule sub)

lemma then_S: "within R m \<Longrightarrow> (\<And>a. within S (f a)) \<Longrightarrow> within S (ebind m f)"
  unfolding within_def ebind_def by (auto split: prod.split sum.split) (metis snd_conv before sub)+

lemma S_then: "within S m \<Longrightarrow> (\<And>a. within R (f a)) \<Longrightarrow> within S (ebind m f)"
  unfolding within_def ebind_def by (auto split: prod.split sum.split) (metis snd_conv after)+

lemma apply_durably: "within S (apply_durably K runtime (helper_scope H) p ch)"
  unfolding apply_durably_def by (intro S_then importing freq)

lemma export_S: "(\<And>e v v'. export_local K runtime (helper_scope H) (v :: session store) = (Inr e, v') \<Longrightarrow> within S (f e)) \<Longrightarrow>
    within S (ebind (on_disk (export_local K runtime (helper_scope H))) f)"
  unfolding within_def
proof
  fix s :: "'w flow"
  assume *: "\<And>e v v'. export_local K runtime (helper_scope H) (v :: session store) = (Inr e, v') \<Longrightarrow> \<forall>s. S s (snd (f e s))"
  obtain r d where d: "export_local K runtime (helper_scope H) (disk s) = (r, d)" by fastforce
  have "R s (s\<lparr>disk := d\<rparr>)"
    using withinD [OF quietly [OF kept_ops(16)], of K runtime "helper_scope H" s r] d by (simp add: on_disk_def)
  then show "S s (snd (ebind (on_disk (export_local K runtime (helper_scope H))) f s))"
    using * [of "disk s"] before sub by (cases r) (auto simp: ebind_def on_disk_def d)
qed

lemma S_if: "(c \<Longrightarrow> within S m) \<Longrightarrow> (\<not> c \<Longrightarrow> within S n) \<Longrightarrow> within S (if c then m else n)"
  by simp

lemma conflicting: "within R (conflicting p)"
  unfolding conflicting_def by (rule efail)

lemma before_reviewed: "within S (before_reviewed K (client_ops K W runtime H) runtime (helper_scope H) sn p record rv)"
  unfolding before_reviewed_def eseq_def
  by (intro within_intros S_of [OF conflicting] attend_within S_then apply_durably S_of [OF eret] finish_session export begins)

lemma resume_session: "within R (resume_session K (client_ops K W runtime H) runtime (helper_scope H) p d r)"
  unfolding resume_session_def
  by (intro within_intros conflicting attend_within finish_session export updates)

lemma carry_out: "within S (carry_out K runtime (helper_scope H) p act)"
  unfolding carry_out_def by (intro S_if apply_durably S_of [OF eret])

lemma begin_playing: "within R (begin_playing K runtime (helper_scope H) sn wanted)"
  unfolding begin_playing_def by (rule export) (intro within_intros freq begins updates)

lemma start_session: "within S (start_session K runtime (helper_scope H) sn p bl st st')"
proof -
  have body: "within S (attend (eseq (carry_out K runtime (helper_scope H) p act) (begin_playing K runtime (helper_scope H) sn wanted)))"
    for act wanted
    unfolding eseq_def by (intro attend_within S_then carry_out begin_playing)
  then show ?thesis
    unfolding start_session_def by (intro then_S body S_if S_of [OF conflicting]) (rule attend_within, rule elift)+
qed

lemma offline: "within R (offline False)"
  unfolding offline_def by (simp, intro within_intros quietly freq)

lemma before_decided:
  assumes "rq_runtime q = runtime"
  shows "within S (before_decided K (client_ops K W runtime H) q (helper_scope H) sn cloud_st bl p record e)"
  unfolding before_decided_def Let_def assms
  by (intro then_S attend_within within_intros before_reviewed S_of [OF resume_session] offline
      S_of [OF conflicting] start_session elift)

lemma before_game:
  assumes "rq_runtime q = runtime"
  shows "within S (before_game K W (client_ops K W runtime H) q)"
  unfolding before_game_def Let_def assms scope_of_client
  by (intro then_S attend_within downloads quietly within_intros before_decided assms)

lemma after_game:
  assumes "rq_runtime q = runtime"
  shows "within S (after_game K W (client_ops K W runtime H) q)"
  unfolding after_game_def Let_def assms scope_of_client eseq_def
  by (intro then_S attend_within downloads quietly within_intros freq elift S_then apply_durably
      S_of [OF eret] S_of [OF conflicting] S_of [OF finish_session] S_if finish_session)

end

end
