(* ===== verification/FlowHistory.thy ===== *)
theory FlowHistory
  imports FlowSafety
begin

text \<open>
  Runs before and after games over the client of \<^verbatim>\<open>cloud_runtime.rs\<close>: what they leave of the local
  save, of the journal, and of the cloud when they stop to ask the user.
\<close>

section \<open>Runs lose no save\<close>

definition protects :: "'w flow \<Rightarrow> 'w flow \<Rightarrow> bool" where
  "protects s t \<longleftrightarrow> guarded (disk s) (disk t)"

definition replaces :: "kit \<Rightarrow> scope \<Rightarrow> 'w flow \<Rightarrow> 'w flow \<Rightarrow> bool" where
  "replaces K sc s t \<longleftrightarrow> sound_kit K \<longrightarrow> (\<forall>ns. scope_namespace (sha K) (uuid_of K) sc = Inr ns \<longrightarrow>
     safe K (scope_binding (sha K) sc) ns (disk s) (disk t))"

lemma guarded_safe: "guarded s t \<Longrightarrow> safe K b ns s t"
  by (auto simp: guarded_def safe_def grown_def)

lemma replaced_before: "guarded s t \<Longrightarrow> replaced_by K b ns t u n i \<Longrightarrow> replaced_by K b ns s u n i"
  unfolding guarded_def grown_def replaced_by_def by (metis option.exhaust option.distinct(1))

lemma replaced_after: "replaced_by K b ns s t n i \<Longrightarrow> guarded t u \<Longrightarrow> replaced_by K b ns s u n i"
  unfolding guarded_def grown_def replaced_by_def by metis

lemma guarded_then_safe: "guarded s t \<Longrightarrow> safe K b ns t u \<Longrightarrow> safe K b ns s u"
  using replaced_before unfolding safe_def guarded_def grown_def by metis

lemma safe_then_guarded: "safe K b ns s t \<Longrightarrow> guarded t u \<Longrightarrow> safe K b ns s u"
  using replaced_after unfolding safe_def guarded_def grown_def by metis

lemma within_replaces: "within (replaces K sc) (on_disk (apply_plan K runtime sc p ch))"
  unfolding replaces_def
proof (rule within_mono, rule on_disk_within)
  show "within (\<lambda>s t. sound_kit K \<longrightarrow> (\<forall>ns. scope_namespace (sha K) (uuid_of K) sc = Inr ns \<longrightarrow>
      safe K (scope_binding (sha K) sc) ns s t)) (apply_plan K runtime sc p ch)"
    unfolding within_def
  proof (intro allI impI)
    fix s ns assume k: "sound_kit K" "scope_namespace (sha K) (uuid_of K) sc = Inr ns"
    obtain res t where t: "apply_plan K runtime sc p ch s = (res, t)" by fastforce
    from wp_apply [OF k, of runtime p ch s] t
    show "safe K (scope_binding (sha K) sc) ns s (snd (apply_plan K runtime sc p ch s))"
      by (cases res) (auto simp: wp_def)
  qed
qed

interpretation protecting: flow_steps protects K W runtime H "replaces K (helper_scope H)" for K W runtime H
proof unfold_locales
  fix s t u :: "'w flow"
  show "protects s t \<Longrightarrow> replaces K (helper_scope H) s t"
    by (simp add: protects_def replaces_def guarded_safe)
  show "protects s t \<Longrightarrow> replaces K (helper_scope H) t u \<Longrightarrow> replaces K (helper_scope H) s u"
    using guarded_then_safe by (fastforce simp: protects_def replaces_def)
  show "replaces K (helper_scope H) s t \<Longrightarrow> protects t u \<Longrightarrow> replaces K (helper_scope H) s u"
    using safe_then_guarded by (fastforce simp: protects_def replaces_def)
qed (auto simp: protects_def guardeds.refl apart_def kept_def intro: guardeds.trans within_replaces
    on_disk_within [OF guarded_session(1), folded protects_def] on_disk_within [OF guarded_session(2), folded protects_def]
    on_disk_within [OF guarded_session(3), folded protects_def] on_disk_within [OF guarded_session(4), folded protects_def])

section \<open>Runs are histories of the journal\<close>

lemma session_runs_trans:
  "session_run K runtime sc t rcs' u \<Longrightarrow> session_run K runtime sc s rcs t \<Longrightarrow> session_run K runtime sc s (rcs @ rcs') u"
proof (induction rule: session_run.induct)
  case (more t rcs' u rc v)
  from session_run.more [OF more.IH [OF more.prems] more.hyps(2)] show ?case by simp
qed simp

definition happens :: "kit \<Rightarrow> string list \<Rightarrow> scope \<Rightarrow> 'w flow \<Rightarrow> 'w flow \<Rightarrow> bool" where
  "happens K runtime sc s t \<longleftrightarrow> (\<exists>rcs. session_run K runtime sc (disk s) rcs (disk t))"

lemma happens_trans: "happens K runtime sc s t \<Longrightarrow> happens K runtime sc t u \<Longrightarrow> happens K runtime sc s u"
  unfolding happens_def using session_runs_trans by blast

lemma happens_step: "session_step K runtime sc rc (disk s) (disk t) \<Longrightarrow> happens K runtime sc s t"
  unfolding happens_def using more [OF no_steps] by blast

lemma happens_within:
  assumes "\<And>s res t. m s = (res, t) \<Longrightarrow> session_step K runtime sc rc s t"
  shows "within (happens K runtime sc) (on_disk m)"
  unfolding within_def
proof
  fix s :: "'w flow"
  obtain res t where "m (disk s) = (res, t)" by fastforce
  with assms [OF this] show "happens K runtime sc s (snd (on_disk m s))"
    by (intro happens_step) (simp add: on_disk_def)
qed

lemma spared_happens: "spared (disk s) (disk t) \<Longrightarrow> happens K runtime sc s t"
  by (rule happens_step [OF elsewhere]) (simp_all add: spared_def)

interpretation happening: flow_steps "happens K runtime (helper_scope H)" K W runtime H "happens K runtime (helper_scope H)"
  for K W runtime H
proof unfold_locales
  fix s t u :: "'w flow"
  show "happens K runtime (helper_scope H) s s" by (auto simp: happens_def intro: no_steps)
  show "apart s t \<Longrightarrow> happens K runtime (helper_scope H) s t"
    by (simp add: apart_def kept_def spared_happens)
qed (auto intro: happens_trans happens_within begins retargets checkpoints completes
    within_mono [OF on_disk_within [OF spared_apply] spared_happens])

section \<open>Games\<close>

text \<open>
  What happens over many games of one account and runtime: runs before and after a game, with any
  service and any review, and anything else that leaves the journal and only adds backups and
  snapshots.
\<close>

inductive games :: "kit \<Rightarrow> string list \<Rightarrow> scope \<Rightarrow> 'w flow \<Rightarrow> 'w flow \<Rightarrow> bool" for K runtime sc where
  no_games: "games K runtime sc s s"
| starts: "games K runtime sc s t \<Longrightarrow> helper_scope H = sc \<Longrightarrow> rq_runtime q = runtime \<Longrightarrow>
     before_game K W (client_ops K W runtime H) q t = (res, u) \<Longrightarrow> games K runtime sc s u"
| stops: "games K runtime sc s t \<Longrightarrow> helper_scope H = sc \<Longrightarrow> rq_runtime q = runtime \<Longrightarrow>
     after_game K W (client_ops K W runtime H) q t = (res, u) \<Longrightarrow> games K runtime sc s u"
| between: "games K runtime sc s t \<Longrightarrow> grown (disk t) (disk u) \<Longrightarrow> journal (disk u) = journal (disk t) \<Longrightarrow>
     games K runtime sc s u"

text \<open>C31. Games are histories of the session journal: whatever the services answer, the user chooses and
  the system calls do, all that runs before and after games do to the journal are the operations of
  sessions, each on an export of the local save taken by it and, where one is needed, with the
  receipt of an upload; everything else they do leaves the journal and keeps every backup and
  snapshot. So what is known of histories (the journal can be loaded, its claims on the cloud have
  receipts) is true after any number of games.\<close>

theorem games_are_histories:
  assumes "games K runtime sc s t"
  shows "\<exists>rcs. session_run K runtime sc (disk s) rcs (disk t)"
  using assms
proof (induction rule: games.induct)
  case (no_games s)
  show ?case using session_run.no_steps by blast
next
  case (starts s t H q W res u)
  have "happens K runtime (helper_scope H) t u"
    by (rule withinD [OF happening.before_game [OF starts(3)] starts(4)])
  with starts(2,5) show ?case unfolding happens_def using session_runs_trans by blast
next
  case (stops s t H q W res u)
  have "happens K runtime (helper_scope H) t u"
    by (rule withinD [OF happening.after_game [OF stops(3)] stops(4)])
  with stops(2,5) show ?case unfolding happens_def using session_runs_trans by blast
next
  case (between s t u)
  then show ?case using session_run.more [OF _ elsewhere] by blast
qed

text \<open>C32. A run before or after a game loses no save, whatever the service answers, the user chose and
  the system calls do: every backup stays, and the local save is untouched or one new backup gives
  back exactly its bytes and names the bytes that replaced it.\<close>

theorem run_keeps_save:
  assumes "sound_kit K" "uuids (disk s)" "scope_namespace (sha K) (uuid_of K) (helper_scope H) = Inr ns" "rq_runtime q = runtime"
    and "before_game K W (client_ops K W runtime H) q s = (res, t) \<or> after_game K W (client_ops K W runtime H) q s = (res, t)"
  shows "(\<forall>n f. bt_get (backups (disk s)) n = Some f \<longrightarrow> bt_get (backups (disk t)) n = Some f) \<and>
    (stored_state (disk t) = stored_state (disk s) \<or>
     (\<exists>n i. bt_get (backups (disk s)) n = None \<and> stored_state (disk t) = Some i \<and>
        accepted K (scope_binding (sha K) (helper_scope H)) ns n (stored_state (disk s)) i (calmed (disk t))))"
proof -
  have "replaces K (helper_scope H) s t"
    using assms(5) withinD [OF protecting.before_game [OF assms(4)]] withinD [OF protecting.after_game [OF assms(4)]] by blast
  then have "safe K (scope_binding (sha K) (helper_scope H)) ns (disk s) (disk t)"
    using assms(1,3) by (simp add: replaces_def)
  then show ?thesis
    using replaced_accepted [OF assms(1,2) _ calmed_sel(1,2)] replaced_sel unfolding safe_def by blast
qed

section \<open>Example\<close>

text \<open>
  An empty save and an empty cloud. The service of the example counts the requests that are not
  requests to read.
\<close>

definition calm_kit :: kit where
  "calm_kit = trial_kit\<lparr>manifest_of := (\<lambda>_. Some (trial_manifest\<lparr>mf_containers := []\<rparr>))\<rparr>"

definition calm_wire :: wire where
  "calm_wire = \<lparr>json_of = (\<lambda>b. if b = [0] then Some (JObj [(''blobs'', JArr []),
         (''pagingInfo'', JObj [(''continuationToken'', JNull), (''totalItems'', JNum ''0'')])]) else None),
     seconds_of = (\<lambda>_. None), rfc3339 = (\<lambda>_. None), manifest_text = (\<lambda>_. [])\<rparr>"

definition calm_helper :: "nat helper" where
  "calm_helper = \<lparr>helper_scope = trial_scope, can_write = True,
     exchange = (\<lambda>request _ _ _ _ w. (Inr (JObj [(''status'', JNum ''200''), (''headers'', JObj [])], [0]),
       if asks_to_read request then w else Suc w)),
     pipe_fail = id, helper_cancel = (\<lambda>w. (False, w)), helper_clock = (\<lambda>w. (0, w))\<rparr>"

definition calm_request :: "(plan \<times> choice) option \<Rightarrow> flow_request" where
  "calm_request review = \<lparr>rq_runtime = [], rq_review = review, rq_binding = None\<rparr>"

definition calm_flow :: "nat flow" where
  "calm_flow = \<lparr>net = 0, disk = trial_disk, cache_file = None, offline_file = None\<rparr>"

definition calm_run :: "(plan \<times> choice) option \<Rightarrow> (attention + unit) \<times> nat flow" where
  "calm_run review = before_game calm_kit calm_wire (client_ops calm_kit calm_wire [] calm_helper) (calm_request review) calm_flow"

lemma calm_sound: "sound_kit calm_kit"
  by (simp add: sound_kit_def calm_kit_def trial_kit_def is_sha256_def len_hash_def trial_manifest_def)

lemma calm_start: "uuids (disk calm_flow)" "rq_runtime (calm_request review) = []"
    "scope_namespace (sha calm_kit) (uuid_of calm_kit) (helper_scope calm_helper) = Inr (trial_d 47)"
  using trial_history(1) trial_namespace by (simp_all add: calm_flow_def calm_request_def calm_kit_def calm_helper_def)

lemma games_are_histories_witness:
  "\<exists>rcs. session_run calm_kit [] trial_scope trial_disk rcs (disk (snd (calm_run None)))"
proof -
  have "helper_scope calm_helper = trial_scope" by (simp add: calm_helper_def)
  from starts [OF no_games this calm_start(2)]
  have "games calm_kit [] trial_scope calm_flow (snd (calm_run None))"
    unfolding calm_run_def by (metis prod.collapse)
  from games_are_histories [OF this] show ?thesis by (simp add: calm_flow_def)
qed

lemma run_keeps_save_witness:
  "stored_state (disk (snd (calm_run None))) = None \<or>
     (\<exists>n i. stored_state (disk (snd (calm_run None))) = Some i \<and>
        accepted calm_kit (scope_binding len_hash trial_scope) (trial_d 47) n None i (calmed (disk (snd (calm_run None)))))"
proof -
  let ?before = "before_game calm_kit calm_wire (client_ops calm_kit calm_wire [] calm_helper) (calm_request None) calm_flow"
  have "?before = (fst ?before, snd ?before)" by simp
  from run_keeps_save [OF calm_sound calm_start(1,3,2), OF disjI1 [OF this]] show ?thesis
    by (auto simp: calm_run_def calm_flow_def trial_disk_def stored_state_def calm_kit_def trial_kit_def calm_helper_def)
qed

end
