(* ===== verification/FlowOutcomes.thy ===== *)
theory FlowOutcomes
  imports FlowHistory
begin

text \<open>
  How runs before and after games end: a run that asks the user has changed nothing, and one that
  succeeds leaves the journal and the cloud as the next step relies on.
\<close>

section \<open>Asking the user\<close>

definition stored_baseline :: "'j store \<Rightarrow> pointer json_file option" where
  "stored_baseline s = (if has_folder s then baseline_file s else None)"

definition pause_view :: "'j store \<Rightarrow> u8 list option \<times> (string, backup_folder) btree \<times>
    (string, common_receipt json_file) btree \<times> pointer json_file option \<times> 'j json_file option" where
  "pause_view s = (stored_state s, backups s, receipts s, stored_baseline s, journal s)"

interpretation pauses: view pause_view
  by unfold_locales (auto simp: pause_view_def add_folder_def stored_state_def stored_baseline_def)

lemma pause_load_session: "keeps pause_view (load_session K runtime sc)"
  unfolding load_session_def access_def session_check_def load_record_def validated_def check_initial_def check_target_def
    check_confirmed_def session_require_def Let_def
  by (intro keeps_intros)

text \<open>A view of the service that requests to read leave alone: what it stores.\<close>

definition stored_by :: "'w helper \<Rightarrow> ('w \<Rightarrow> 'v) \<Rightarrow> bool" where
  "stored_by H v \<longleftrightarrow> (\<forall>request maximum n w. asks_to_read request \<longrightarrow> v (snd (exchange H request [] maximum n False w)) = v w) \<and>
     (\<forall>w. v (pipe_fail H w) = v w \<and> v (snd (helper_cancel H w)) = v w \<and> v (snd (helper_clock H w)) = v w)"

definition untouched :: "'w helper \<Rightarrow> ('w \<Rightarrow> 'v) \<Rightarrow> 'w flow \<Rightarrow> 'w flow \<Rightarrow> bool" where
  "untouched H v s t \<longleftrightarrow> (stored_by H v \<longrightarrow> v (net t) = v (net s)) \<and> pause_view (disk t) = pause_view (disk s)"

interpretation untouching: client_reads "untouched H v" H for H v
proof unfold_locales
  show "within (untouched H v) (on_net (exchange H request [] maximum n False))" if "asks_to_read request" for request maximum n
    using that by (auto simp: within_def on_net_def untouched_def stored_by_def split: prod.split) (metis snd_conv)
qed (auto simp: untouched_def stored_by_def pauses.script pauses.drawn, auto simp: pause_view_def stored_state_def stored_baseline_def)

lemma untouched_on_disk: "keeps pause_view m \<Longrightarrow> within (untouched H v) (on_disk m)"
  by (auto simp: within_def on_disk_def untouched_def keeps_def split: prod.split) (metis snd_conv)+

text \<open>\<open>settled\<close>: an outcome that never asks; \<open>asks_first\<close>: one that asks only after doing no more than \<open>R\<close>.\<close>

definition settled :: "('w, 'a) outcome \<Rightarrow> bool" where
  "settled m \<longleftrightarrow> (\<forall>s a t. m s = (Inl a, t) \<longrightarrow> at_plan a = None)"

definition asks_first :: "('w flow \<Rightarrow> 'w flow \<Rightarrow> bool) \<Rightarrow> ('w, 'a) outcome \<Rightarrow> bool" where
  "asks_first R m \<longleftrightarrow> (\<forall>s a t. m s = (Inl a, t) \<longrightarrow> at_plan a \<noteq> None \<longrightarrow> R s t)"

lemma settled_attend: "settled (attend m)"
  by (auto simp: settled_def attend_def split: prod.splits sum.splits)

lemma settled_ebind: "settled m \<Longrightarrow> (\<And>a. settled (f a)) \<Longrightarrow> settled (ebind m f)"
  by (auto simp: settled_def ebind_def split: prod.splits sum.splits)

lemma settled_asks: "settled m \<Longrightarrow> asks_first R m"
  unfolding settled_def asks_first_def by metis

lemma asks_if: "asks_first R m \<Longrightarrow> asks_first R n \<Longrightarrow> asks_first R (if c then m else n)"
  by simp

lemma asks_option: "asks_first R m \<Longrightarrow> (\<And>x. asks_first R (f x)) \<Longrightarrow> asks_first R (case e of None \<Rightarrow> m | Some x \<Rightarrow> f x)"
  by (cases e) auto

lemma asks_prod: "(\<And>x y. asks_first R (f x y)) \<Longrightarrow> asks_first R (case e of (x, y) \<Rightarrow> f x y)"
  by (cases e) auto

context disk_steps
begin

lemma asks_ebind: "within R m \<Longrightarrow> (\<And>a. asks_first R (f a)) \<Longrightarrow> asks_first R (ebind (attend m) f)"
  unfolding asks_first_def
proof (intro allI impI)
  fix s a t
  assume m: "within R m" and f: "\<And>x. \<forall>s a t. f x s = (Inl a, t) \<longrightarrow> at_plan a \<noteq> None \<longrightarrow> R s t"
    and run: "ebind (attend m) f s = (Inl a, t)" "at_plan a \<noteq> None"
  obtain r u where u: "m s = (r, u)" by fastforce
  with run obtain x where "r = Inr x" "f x u = (Inl a, t)"
    by (cases r) (auto simp: ebind_def attend_def)
  with f run(2) have "R u t" by blast
  with withinD [OF m u] show "R s t" by (rule trans)
qed

lemma asks_conflicting: "asks_first R (conflicting p)"
  by (simp add: asks_first_def conflicting_def efail_def refl)

lemma asks_resume: "asks_first R (resume_session K T runtime sc p d r)"
  unfolding resume_session_def by (intro asks_if asks_conflicting settled_asks settled_attend)

lemma asks_reviewed: "asks_first R (before_reviewed K T runtime sc sn p record rv)"
  unfolding before_reviewed_def by (intro asks_prod asks_if asks_conflicting settled_asks settled_attend)

lemma asks_start: "asks_first R (start_session K runtime sc sn p bl st st')"
  unfolding start_session_def
  by (intro asks_ebind elift asks_if asks_conflicting settled_asks settled_attend)

end

lemmas asking = untouching.asks_ebind untouching.elift untouching.asks_conflicting asks_if asks_option asks_prod

lemma untouched_offline: "within (untouched H v) (offline False)"
  unfolding offline_def if_False
  by (intro untouching.eseq untouching.ebind untouching.eget within_option untouching.eret untouching.freq
      untouched_on_disk pauses.io pauses.check_lease)

lemma before_asks: "asks_first (untouched H v) (before_game K W (client_ops K W runtime H) q)"
  unfolding before_game_def before_decided_def Let_def scope_of_client
  by (intro asking untouching.asks_resume untouching.asks_reviewed untouching.asks_start untouched_offline
      untouching.calls.cache_download untouched_on_disk pauses.read_snapshot pauses.load_baseline pauses.prepare
      pauses.export_local pause_load_session untouching.elift)

lemma asks_settled_seq: "asks_first R (eseq (attend m) (attend n))"
  unfolding eseq_def by (intro settled_asks settled_ebind settled_attend)

lemma asks_start_seq: "(\<And>x. asks_first (untouched H v) (ebind (attend m) (\<lambda>_. n))) \<Longrightarrow> asks_first (untouched H v) (eseq (attend m) n)"
  by (simp add: eseq_def)

lemma after_asks: "asks_first (untouched H v) (after_game K W (client_ops K W runtime H) q)"
  unfolding after_game_def Let_def scope_of_client
  by (intro asks_start_seq asks_settled_seq asking settled_asks [OF settled_attend] untouching.freq
      untouching.calls.cache_download untouched_on_disk pauses.load_baseline pauses.prepare
      pauses.export_local pause_load_session untouching.elift)

section \<open>Success\<close>

text \<open>The export is of the save that is there.\<close>

definition save_is :: "kit \<Rightarrow> local_export \<Rightarrow> 'j store \<Rightarrow> bool" where
  "save_is K e s \<longleftrightarrow> ex_raw_digest e = raw_digest K (stored_state s) \<and>
     (\<exists>st. import_decode K (ex_encoded e) = Inr st \<and> decode_or_default K (stored_state s) = Inr st \<and>
        import_digest (sha K) st = Inr (ex_content e))"

lemma save_is_guarded: "save_is K e s \<Longrightarrow> guarded s t \<Longrightarrow> save_is K e t"
  by (simp add: save_is_def guarded_def)

lemma export_save_is:
  assumes "sound_kit K" "export_local K runtime sc s = (Inr e, t)"
  shows "save_is K e t"
proof -
  have "wp (export_local K runtime sc) (save_is K) (\<lambda>_ _. True) s"
    unfolding export_local_def
  proof (intro steps wp_keeps [OF saves.check_cancel] wp_keeps [OF saves.open_local] wp_local_state, goal_cases)
    case (1 a t ns b u st v d encoded)
    then show ?case
    proof (cases "stored_state u")
      case None
      with 1 have st: "st = no_state" and e: "import_encode K st = Inr encoded"
        by (auto simp: decode_or_default_def)
      have "is_state st" by (simp add: st is_state_map no_state_def)
      from import_decode_encode [OF assms(1) this e] show ?thesis
        using 1 None st by (simp add: save_is_def save_view_def no_state_def)
    next
      case (Some raw)
      with 1 show ?thesis
        by (auto simp: save_is_def save_view_def decode_or_default_def split: option.splits)
    qed
  qed simp_all
  from wp_Inr [OF this assms(2)] show ?thesis .
qed

lemma pass_any: "wp m (\<lambda>_ _. True) (\<lambda>_ _. True) s"
  by (auto simp: wp_def split: prod.split sum.split)

lemma pass_landing: "(\<And>t. Q () (f t)) \<Longrightarrow> wp (landing f) Q (\<lambda>_ _. True) s"
  unfolding landing_def by (rule pass_ebind) (simp add: wp_simps split: io_outcome.split)

lemma store_record_result: "wp (store_record l r new) (\<lambda>_ t. journal t = Some (Parsed r)) (\<lambda>_ _. True) s"
  unfolding store_record_def
  by (intro pass_eseq step_if pass_ebind pass_landing step_efail) simp_all

text \<open>What the journal says after each of the operations that end a run.\<close>

definition target_is :: "local_export \<Rightarrow> session \<Rightarrow> bool" where
  "target_is e r \<longleftrightarrow> ss_target_local_sha r = ex_raw_digest e \<and> ss_target r = ex_content e"

lemma update_result: "wp (update_session K runtime sc r ph (Some e))
    (\<lambda>r t. journal t = Some (Parsed r) \<and> ss_phase r = ph \<and> target_is e r) (\<lambda>_ _. True) s"
  unfolding update_session_def option.case
  by (rule pass_eseq, rule pass_ebind, rule pass_ebind, rule step_ebind, rule pass_ebind)
    (auto simp: Let_def wp_simps target_is_def intro!: wp_mono [OF store_record_result])

lemma confirm_session_result: "wp (confirm_session K v e rc)
    (\<lambda>_ _. target_is e v \<and> receipt_verifies rc (ex_binding e) (ss_target v)) (\<lambda>_ _. True) s"
  unfolding confirm_session_def by (rule pass_eseq) (auto simp: wp_simps target_is_def)

lemma checkpoint_result: "wp (checkpoint K runtime sc r e rc)
    (\<lambda>r t. journal t = Some (Parsed r) \<and> ss_phase r = Playing \<and> target_is e r) (\<lambda>_ _. True) s"
  unfolding checkpoint_def
  by (intro pass_ebind step_eseq wp_mono [OF confirm_session_result])
    (auto simp: Let_def wp_simps target_is_def intro!: wp_mono [OF store_record_result])

lemma complete_result: "wp (complete_session K runtime sc r e rc)
    (\<lambda>_ t. journal t = None \<and> receipt_verifies rc (ex_binding e) (ex_content e)) (\<lambda>_ _. True) s"
  unfolding complete_session_def
  by (intro pass_ebind step_eseq, rule wp_mono [OF confirm_session_result])
    (auto simp: target_is_def intro!: pass_eseq pass_landing)

text \<open>Along a run: what is known of an export stays known while the save stays.\<close>

lemma wp_on_disk: "wp m (\<lambda>a d. Q a (s\<lparr>disk := d\<rparr>)) (\<lambda>_ _. True) (disk s) \<Longrightarrow> wp (on_disk m) Q (\<lambda>_ _. True) s"
  by (auto simp: wp_def on_disk_def split: prod.splits sum.splits)

lemma wp_attend: "wp m Q (\<lambda>_ _. True) s \<Longrightarrow> wp (attend m) Q (\<lambda>_ _. True) s"
  by (auto simp: wp_def attend_def split: prod.splits sum.splits)

lemma pass_export:
  assumes "sound_kit K" "\<And>e t. save_is K e (disk t) \<Longrightarrow> wp (f e) Q (\<lambda>_ _. True) t"
  shows "wp (ebind (on_disk (export_local K runtime sc)) f) Q (\<lambda>_ _. True) s"
  by (rule step_ebind, rule wp_on_disk, rule wpI) (simp_all add: assms(2) export_save_is [OF assms(1)])

lemma pass_within:
  assumes "within protects m" "save_is K e (disk s)" "\<And>a t. save_is K e (disk t) \<Longrightarrow> wp (f a) Q (\<lambda>_ _. True) t"
  shows "wp (ebind m f) Q (\<lambda>_ _. True) s"
proof (rule step_ebind, rule wpI)
  fix a t assume "m s = (Inr a, t)"
  from withinD [OF assms(1) this] show "wp (f a) Q (\<lambda>_ _. True) t"
    by (intro assms(3) save_is_guarded [OF assms(2)]) (simp add: protects_def)
qed simp

definition playing :: "kit \<Rightarrow> 'w flow \<Rightarrow> bool" where
  "playing K s \<longleftrightarrow> (\<exists>r e. journal (disk s) = Some (Parsed r) \<and> ss_phase r = Playing \<and> target_is e r \<and> save_is K e (disk s))"

text \<open>The service answered an upload of the save that is there with the receipt of it.\<close>

definition uploaded :: "kit \<Rightarrow> wire \<Rightarrow> string list \<Rightarrow> 'w helper \<Rightarrow> 'w flow \<Rightarrow> bool" where
  "uploaded K W runtime H s \<longleftrightarrow> (\<exists>e st want rc u v.
     upload (sha K) (helper_scope H) (client_ops K W runtime H) st want (on_disk (assert_unchanged K e)) write_limits_default u = (Inr rc, v) \<and>
     released rc \<and> receipt_verifies rc (ex_binding e) (ex_content e) \<and>
     decode_or_default K (stored_state (disk s)) = Inr st \<and> import_digest (sha K) st = Inr (ex_content e))"

lemma playing_end:
  fixes s :: "'w flow"
  assumes "save_is K e (disk s)" "within (protects :: 'w flow \<Rightarrow> 'w flow \<Rightarrow> bool) (on_disk m)"
    "\<And>d. wp m (\<lambda>r t. journal t = Some (Parsed r) \<and> ss_phase r = Playing \<and> target_is e r) (\<lambda>_ _. True) d"
  shows "wp (eseq (on_disk m) (eret ())) (\<lambda>_. playing K) (\<lambda>_ _. True) s"
proof (rule step_eseq, rule wpI)
  fix r t assume run: "on_disk m s = (Inr r, t)"
  then have d: "m (disk s) = (Inr r, disk t)" by (auto simp: on_disk_def split: prod.splits)
  have "save_is K e (disk t)"
    using save_is_guarded [OF assms(1)] withinD [OF assms(2) run] by (simp add: protects_def)
  with wp_Inr [OF assms(3) d] show "wp (eret ()) (\<lambda>_. playing K) (\<lambda>_ _. True) t"
    by (auto simp: wp_simps playing_def)
qed simp

lemma pass_lift: "(\<And>a. r = Inr a \<Longrightarrow> wp (f a) Q (\<lambda>_ _. True) s) \<Longrightarrow> wp (ebind (elift r) f) Q (\<lambda>_ _. True) s"
  by (rule step_ebind, rule step_elift) simp_all

lemma pass_within_seq:
  assumes "within protects m" "save_is K e (disk s)" "\<And>t. save_is K e (disk t) \<Longrightarrow> wp n Q (\<lambda>_ _. True) t"
  shows "wp (eseq m n) Q (\<lambda>_ _. True) s"
  unfolding eseq_def by (rule pass_within [OF assms])

lemmas protects_session = guarded_session [THEN on_disk_within, folded protects_def]

lemma begin_playing_ends:
  assumes "sound_kit K"
  shows "wp (begin_playing K runtime (helper_scope H) sn wanted) (\<lambda>_. playing K) (\<lambda>_ _. True) s"
  unfolding begin_playing_def
  by (rule pass_export [OF assms], (rule pass_within [OF protecting.elift], assumption)+,
      rule pass_within_seq [OF protecting.freq], assumption, rule pass_within [OF protects_session(1)], assumption,
      rule playing_end [OF _ protects_session(2) update_result])

lemma finish_playing:
  assumes "sound_kit K"
  shows "wp (finish_session K (client_ops K W runtime H) runtime r want True) (\<lambda>_. playing K) (\<lambda>_ _. True) s"
  unfolding finish_session_def scope_of_client if_True
  by (rule pass_export [OF assms], rule pass_within [OF protects_session(2)], assumption,
      rule pass_within [OF protecting.elift], assumption,
      rule pass_within [OF protecting.upload [OF kept_ops(12)]], assumption,
      rule pass_within_seq [OF protecting.quietly [OF kept_record_common]], assumption,
      rule pass_within_seq [OF protecting.freq], assumption,
      rule playing_end [OF _ protects_session(3) checkpoint_result])

lemma finish_uploaded:
  fixes H :: "'w helper"
  assumes "sound_kit K"
  shows "wp (finish_session K (client_ops K W runtime H) runtime r want False)
    (\<lambda>_ t. journal (disk t) = None \<and> uploaded K W runtime H t) (\<lambda>_ _. True) s"
  unfolding finish_session_def scope_of_client if_False
proof (rule pass_export [OF assms], rule pass_within [OF protects_session(2)], assumption, goal_cases)
  case (1 e t0 r t1)
  then obtain st where st: "import_decode K (ex_encoded e) = Inr st" by (auto simp: save_is_def)
  show ?case
    unfolding st
  proof (rule pass_lift, rule step_ebind, rule wpI, goal_cases)
    case up: (1 st' rc t3)
    have s3: "save_is K e (disk t3)"
      using save_is_guarded [OF 1(2)] withinD [OF protecting.upload [OF kept_ops(12)] up(2)] by (simp add: protects_def)
    show ?case
    proof (rule pass_within_seq [OF protecting.quietly [OF kept_record_common] s3], rule step_eseq, rule wpI, goal_cases)
      case (1 t4 u t5)
      then have t5: "released rc" "t5 = t4"
        by (auto simp: freq_def elift_def cloud_require_def split: if_splits)
      show ?case
      proof (rule wp_on_disk, rule wpI)
        fix u d assume run: "complete_session K runtime (helper_scope H) r e rc (disk t5) = (Inr u, d)"
        have "save_is K e d"
          using save_is_guarded [OF 1(1)] withinD [OF guarded_session(4) run] t5(2) by simp
        moreover note wp_Inr [OF complete_result run]
        ultimately show "journal (disk (t5\<lparr>disk := d\<rparr>)) = None \<and> uploaded K W runtime H (t5\<lparr>disk := d\<rparr>)"
          unfolding uploaded_def
          by (intro conjI exI [of _ e] exI [of _ st] exI [of _ want] exI [of _ rc] exI [of _ t1] exI [of _ t3])
            (use up t5(1) st in \<open>simp_all add: save_is_def\<close>)
      qed simp
    qed simp
  qed simp
qed

lemma pass_conflicting: "wp (conflicting p) Q (\<lambda>_ _. True) s"
  by (simp add: conflicting_def wp_simps)

lemma resume_ends:
  assumes "sound_kit K"
  shows "wp (resume_session K (client_ops K W runtime H) runtime (helper_scope H) p d r) (\<lambda>_. playing K) (\<lambda>_ _. True) s"
  unfolding resume_session_def
  by (intro step_if pass_conflicting wp_attend finish_playing assms, rule pass_export [OF assms],
      rule playing_end [OF _ protects_session(2) update_result])

lemma start_ends:
  assumes "sound_kit K"
  shows "wp (start_session K runtime (helper_scope H) sn p bl st st') (\<lambda>_. playing K) (\<lambda>_ _. True) s"
  unfolding start_session_def
  by (intro pass_ebind step_if pass_conflicting wp_attend pass_eseq begin_playing_ends assms)

lemma reviewed_ends:
  assumes "sound_kit K"
  shows "wp (before_reviewed K (client_ops K W runtime H) runtime (helper_scope H) sn p record rv) (\<lambda>_. playing K) (\<lambda>_ _. True) s"
  unfolding before_reviewed_def
  by (cases rv) (simp, intro conjI impI pass_conflicting wp_attend pass_eseq pass_ebind finish_playing assms)

lemma before_ends:
  assumes "sound_kit K" "rq_runtime q = runtime"
  shows "wp (before_game K W (client_ops K W runtime H) q) (\<lambda>_. playing K) (\<lambda>_ _. True) s"
proof -
  have decided: "wp (before_decided K (client_ops K W runtime H) q (helper_scope H) sn cloud_st bl p jr e)
      (\<lambda>_. playing K) (\<lambda>_ _. True) s" for sn cloud_st bl p jr e s
    unfolding before_decided_def Let_def assms(2)
    by (rule pass_ebind, rule pass_ebind, cases "rq_review q"; cases jr)
      (simp_all add: reviewed_ends resume_ends assms(1), rule pass_ebind, simp add: start_ends pass_conflicting assms(1))
  show ?thesis
    unfolding before_game_def Let_def assms(2) scope_of_client by (intro pass_ebind decided)
qed

lemma after_ends:
  assumes "sound_kit K" "rq_runtime q = runtime"
  shows "wp (after_game K W (client_ops K W runtime H) q)
    (\<lambda>_ t. journal (disk t) = None \<and> uploaded K W runtime H t) (\<lambda>_ _. True) s"
  unfolding after_game_def Let_def assms(2) scope_of_client
  by (intro pass_eseq pass_ebind)
    (auto split: option.split intro!: pass_conflicting pass_eseq wp_attend finish_uploaded [OF assms(1)])

section \<open>How runs end\<close>

text \<open>C33. A run that stops to ask the user has changed nothing: the local save, its backups, the common
  baseline with its receipts and the journal are what they were, and so is all that the service
  stores, since it was only asked to read.\<close>

theorem asking_changes_nothing:
  assumes "stored_by H v" "at_plan a = Some p"
    and "before_game K W (client_ops K W runtime H) q s = (Inl a, t) \<or> after_game K W (client_ops K W runtime H) q s = (Inl a, t)"
  shows "v (net t) = v (net s) \<and> stored_state (disk t) = stored_state (disk s) \<and> backups (disk t) = backups (disk s) \<and>
    receipts (disk t) = receipts (disk s) \<and> stored_baseline (disk t) = stored_baseline (disk s) \<and>
    journal (disk t) = journal (disk s)"
proof -
  have "untouched H v s t"
    using assms(2,3) before_asks [of H v K W runtime q] after_asks [of H v K W runtime q]
    unfolding asks_first_def by blast
  with assms(1) show ?thesis by (simp add: untouched_def pause_view_def)
qed

text \<open>C34. A run that succeeds leaves what the next step relies on. Before a game: the journal holds a
  record in phase Playing whose target is exactly the save on disk. After it: there is no record
  any more, and the service answered an upload of exactly the save on disk with its receipt, under
  a lease that was released.\<close>

theorem success_settles:
  assumes "sound_kit K" "rq_runtime q = runtime"
  shows "(before_game K W (client_ops K W runtime H) q s = (Inr u, t) \<longrightarrow> playing K t) \<and>
    (after_game K W (client_ops K W runtime H) q s = (Inr u, t) \<longrightarrow> journal (disk t) = None \<and> uploaded K W runtime H t)"
  using wp_Inr [OF before_ends [OF assms]] wp_Inr [OF after_ends [OF assms]] by blast

section \<open>Example\<close>

lemma calm_plays: "case calm_run None of (Inr _, t) \<Rightarrow> stored_state (disk t) = None | _ \<Rightarrow> False"
  by code_simp

lemma calm_asks: "case calm_run (Some (trial_plan, ChooseCloud)) of (Inl a, t) \<Rightarrow> at_plan a \<noteq> None | _ \<Rightarrow> False"
  by code_simp

lemma calm_stored: "stored_by calm_helper id"
  by (simp add: stored_by_def calm_helper_def)

lemma asking_changes_nothing_witness:
  "\<exists>a p. fst (calm_run (Some (trial_plan, ChooseCloud))) = Inl a \<and> at_plan a = Some p \<and>
     net (snd (calm_run (Some (trial_plan, ChooseCloud)))) = 0 \<and>
     stored_state (disk (snd (calm_run (Some (trial_plan, ChooseCloud))))) = None \<and>
     journal (disk (snd (calm_run (Some (trial_plan, ChooseCloud))))) = None"
proof -
  obtain a p t where run: "calm_run (Some (trial_plan, ChooseCloud)) = (Inl a, t)" "at_plan a = Some p"
    using calm_asks by (auto split: prod.splits sum.splits)
  from asking_changes_nothing [OF calm_stored this(2), OF disjI1 [OF run(1) [unfolded calm_run_def]]] run show ?thesis
    by (simp add: calm_flow_def trial_disk_def stored_state_def)
qed

lemma success_settles_witness:
  "\<exists>r. journal (disk (snd (calm_run None))) = Some (Parsed r) \<and> ss_phase r = Playing \<and> ss_target_local_sha r = ''missing''"
proof -
  obtain u t where run: "calm_run None = (Inr u, t)" "stored_state (disk t) = None"
    using calm_plays by (auto split: prod.splits sum.splits)
  have "rq_runtime (calm_request None) = []" by (simp add: calm_request_def)
  from success_settles [OF calm_sound this, of calm_wire calm_helper calm_flow u t] run(1)
  have "playing calm_kit t" by (simp add: calm_run_def)
  with run(2) show ?thesis by (auto simp: run(1) playing_def target_is_def save_is_def raw_digest_def)
qed

end
