(* ===== verification/SaveHistory.thy ===== *)
theory SaveHistory
  imports CloudSession "HOL-Library.Product_Lexorder"
begin

text \<open>
  \<^verbatim>\<open>native/save_history.rs\<close>: which backups and snapshots are kept. The state is the private storage
  with the listings of the folders that are pruned and the raw bytes of the records that may refer
  to an entry.
\<close>

section \<open>References in a record\<close>

text \<open>\<^verbatim>\<open>windows(n).position(..)\<close>.\<close>

fun find_part :: "'a list \<Rightarrow> 'a list \<Rightarrow> nat option" where
  "find_part p xs =
     (if length xs < length p then None
      else if take (length p) xs = p then Some 0
      else (case xs of [] \<Rightarrow> None | _ # ys \<Rightarrow> map_option Suc (find_part p ys)))"

declare find_part.simps [simp del]

definition reference_at :: "u8 list \<Rightarrow> string \<Rightarrow> nat \<Rightarrow> string option" where
  "reference_at rest p at =
     (if at + length p + 32 \<le> length rest then
        Option.bind (from_utf8 (take (length p + 32) (drop at rest)))
          (\<lambda>n. if cloud_identifier n p then Some n else None)
      else None)"

text \<open>The loop for one prefix; \<^verbatim>\<open>windows(0)\<close> panics, and no prefix of the code is empty.\<close>

function scan :: "string \<Rightarrow> u8 list \<Rightarrow> string list \<Rightarrow> string list" where
  "scan p rest found =
     (if p = [] then found
      else (case find_part (bytes_of p) rest of None \<Rightarrow> found
        | Some at \<Rightarrow> scan p (drop (at + length p) rest)
            (case reference_at rest p at of None \<Rightarrow> found | Some n \<Rightarrow> n # found)))"
  by pat_completeness auto

lemma find_part_short: "length xs < length p \<Longrightarrow> find_part p xs = None"
  by (subst find_part.simps) simp

lemma find_part_Nil [simp]: "find_part p [] = (if p = [] then Some 0 else None)"
  by (subst find_part.simps) simp

lemma find_part_Cons [simp]:
  "find_part p (x # xs) = (if prefix p (x # xs) then Some 0 else map_option Suc (find_part p xs))"
  using prefix_length_le [of p "x # xs"] take_is_prefix [of "length p" "x # xs"]
  by (subst find_part.simps) (auto simp: find_part_short elim: prefixE)

lemma find_part_Some: "find_part p xs = Some i \<Longrightarrow> prefix p (drop i xs) \<and> i + length p \<le> length xs"
  by (induction xs arbitrary: i) (auto split: if_splits dest: prefix_length_le)

termination scan
proof (relation "measure (\<lambda>(p, rest, found). length rest)", goal_cases)
  case (2 p rest found i)
  then show ?case using find_part_Some [of "bytes_of p" rest i] by (cases p) auto
qed simp

declare scan.simps [simp del]

definition references :: "u8 list \<Rightarrow> string list \<Rightarrow> string list" where
  "references b found = fold (\<lambda>p. scan p b) [''snapshot-'', ''backup-''] found"

section \<open>State\<close>

record entry_meta =
  en_dir :: bool
  en_own :: bool
  en_mtime :: int

text \<open>A folder of saves stands with what \<^verbatim>\<open>statat\<close> says of it: \<open>None\<close> if its metadata cannot be read, else
  whether it is a folder. A run looks at each of them once, so this leaves the outcome of that call
  open; every other call takes its outcome from the script.\<close>

record history =
  hs_disk :: "session store"
  shelves :: "(string, (string, entry_meta) btree) btree"
  record_files :: "(string, (string, u8 list option) btree) btree"
  save_folders :: "(string, bool option \<times> u8 list option) btree option"
  pending_file :: "u8 list option"
  receipts_there :: bool

type_synonym 'a history_act = "(history, failure, 'a) eff"

definition hio :: "(session, 'a) act \<Rightarrow> 'a history_act" where
  "hio m s = (case m (hs_disk s) of (r, d) \<Rightarrow> (r, s\<lparr>hs_disk := d\<rparr>))"

definition hneed :: "bool \<Rightarrow> string \<Rightarrow> unit history_act" where
  "hneed c m = elift (cloud_require c m)"

definition KEPT :: nat where
  "KEPT = 20"

text \<open>Thirty days, in nanoseconds like every time here.\<close>

definition RECENT :: nat where
  "RECENT = 30 * 24 * 3600 * 1000000000"

definition RECORD :: nat where
  "RECORD = 1024 * 1024"

text \<open>\<^verbatim>\<open>fs::names\<close>.\<close>

definition names_of :: "(string, 'a) btree \<Rightarrow> unit history_act" where
  "names_of m = eseq (hio io) (hneed (length m \<le> 100000) ''local_storage'')"

section \<open>What is referred to\<close>

definition read_record :: "u8 list option \<Rightarrow> string list \<Rightarrow> string list history_act" where
  "read_record file found = ebind (hio (bounded_file RECORD file)) (\<lambda>b. eret (references b found))"

definition records_in :: "string \<Rightarrow> string list \<Rightarrow> string list history_act" where
  "records_in folder found =
     eseq (hio io)
     (ebind (eget (\<lambda>s. bt_get (record_files s) folder)) (\<lambda>f.
     case f of None \<Rightarrow> eret found
     | Some files \<Rightarrow>
         eseq (hio io)
         (eseq (names_of files)
         (efor (\<lambda>(_, file). read_record file) files found))))"

definition optional_record :: "u8 list option \<Rightarrow> string list \<Rightarrow> string list history_act" where
  "optional_record file found =
     eseq (hio io) (case file of None \<Rightarrow> eret found | Some b \<Rightarrow> read_record (Some b) found)"

definition baseline_in :: "string \<times> bool option \<times> u8 list option \<Rightarrow> string list \<Rightarrow> string list history_act" where
  "baseline_in = (\<lambda>(_, meta, pointer) found.
     case meta of None \<Rightarrow> eret found
     | Some folder \<Rightarrow>
         if \<not> folder then eret found
         else eseq (hio io) (optional_record pointer found))"

definition referenced :: "string list history_act" where
  "referenced =
     ebind (efor records_in [''cloud-cache'', ''cloud-sessions''] []) (\<lambda>found.
     eseq (hio io)
     (ebind (eget save_folders) (\<lambda>saves.
     ebind (case saves of None \<Rightarrow> eret found
       | Some folders \<Rightarrow>
           eseq (hio io)
           (eseq (names_of folders)
           (efor baseline_in folders found))) (\<lambda>found.
     ebind (eget pending_file) (\<lambda>file.
     optional_record file found)))))"

section \<open>Removing\<close>

record kind =
  kd_folder :: string
  kd_entry :: "string \<Rightarrow> bool"
  kd_sealed :: bool

definition save_backup :: "string \<Rightarrow> bool" where
  "save_backup n = (case split_on (CHR ''-'') n of
       [b, date, t, serial] \<Rightarrow> b = ''backup'' \<and>
         list_all (\<lambda>(part, len). length part = len \<and> list_all is_digit part) [(date, 8), (t, 6), (serial, 6)]
     | _ \<Rightarrow> False)"

definition kinds :: "kind list" where
  "kinds = [
     \<lparr>kd_folder = ''save-backups'', kd_entry = save_backup, kd_sealed = False\<rparr>,
     \<lparr>kd_folder = ''cloud-saves'', kd_entry = (\<lambda>n. cloud_identifier n ''snapshot-''), kd_sealed = False\<rparr>,
     \<lparr>kd_folder = ''cloud-import-backups'', kd_entry = (\<lambda>n. cloud_identifier n ''backup-''), kd_sealed = True\<rparr>]"

text \<open>What a removal that fails part-way leaves of an entry.\<close>

record damage =
  broken_snapshot :: "snapshot_folder \<Rightarrow> snapshot_folder"
  broken_backup :: "backup_folder \<Rightarrow> backup_folder"

definition drop_entry :: "string \<Rightarrow> string \<Rightarrow> history \<Rightarrow> history" where
  "drop_entry folder n s =
     s\<lparr>shelves := map (\<lambda>(f, m). (f, if f = folder then bt_del n m else m)) (shelves s),
       hs_disk := (if folder = ''cloud-saves'' then (hs_disk s)\<lparr>snapshots := bt_del n (snapshots (hs_disk s))\<rparr>
         else if folder = ''cloud-import-backups'' then (hs_disk s)\<lparr>backups := bt_del n (backups (hs_disk s))\<rparr>
         else hs_disk s)\<rparr>"

definition break_entry :: "damage \<Rightarrow> string \<Rightarrow> string \<Rightarrow> history \<Rightarrow> history" where
  "break_entry D folder n s =
     s\<lparr>hs_disk := (if folder = ''cloud-saves'' then (hs_disk s)\<lparr>snapshots :=
           map (\<lambda>(k, f). (k, if k = n then broken_snapshot D f else f)) (snapshots (hs_disk s))\<rparr>
         else if folder = ''cloud-import-backups'' then (hs_disk s)\<lparr>backups :=
           map (\<lambda>(k, f). (k, if k = n then broken_backup D f else f)) (backups (hs_disk s))\<rparr>
         else hs_disk s)\<rparr>"

text \<open>\<^verbatim>\<open>remove_tree\<close>: refused at its first check, or part-way.\<close>

definition remove_tree :: "damage \<Rightarrow> string \<Rightarrow> string \<Rightarrow> unit history_act" where
  "remove_tree D folder n =
     ebind (hio next_io) (\<lambda>x. case x of Fine \<Rightarrow> emod (drop_entry folder n)
     | Refused f \<Rightarrow> efail f
     | Unsynced f \<Rightarrow> eseq (emod (break_entry D folder n)) (efail f))"

definition remove_receipt :: "string \<Rightarrow> unit history_act" where
  "remove_receipt n =
     eseq (hio io)
     (ebind (eget receipts_there) (\<lambda>there.
     if there then
       eseq (hio io)
       (ebind (eget (\<lambda>s. bt_has (receipts (hs_disk s)) (n @ ''.json''))) (\<lambda>present.
       if present then hio (landing (\<lambda>s. s\<lparr>receipts := bt_del (n @ ''.json'') (receipts s)\<rparr>))
       else eret ()))
     else eret ()))"

definition remove_entry :: "damage \<Rightarrow> kind \<Rightarrow> string \<Rightarrow> unit history_act" where
  "remove_entry D k n =
     eseq (if kd_sealed k then hio io else eret ())
     (eseq (remove_tree D (kd_folder k) n)
     (if kd_sealed k then remove_receipt n else eret ()))"

definition modified_time :: "entry_meta \<Rightarrow> nat" where
  "modified_time m = nat (en_mtime m) * 1000000000"

definition list_entry :: "kind \<Rightarrow> string \<times> entry_meta \<Rightarrow> (nat \<times> string) list \<Rightarrow> (nat \<times> string) list history_act" where
  "list_entry k = (\<lambda>(n, m) out.
     if \<not> kd_entry k n then eret out
     else eseq (hio io) (eret (if en_dir m \<and> en_own m then out @ [(modified_time m, n)] else out)))"

definition recent :: "nat \<Rightarrow> nat \<Rightarrow> bool" where
  "recent now since \<longleftrightarrow> now < since \<or> now - since \<le> RECENT"

definition prune_entry ::
  "damage \<Rightarrow> nat \<Rightarrow> string list \<Rightarrow> kind \<Rightarrow> nat \<times> nat \<times> string \<Rightarrow> nat \<Rightarrow> nat history_act" where
  "prune_entry D now kept k = (\<lambda>(i, since, n) removed.
     if i < KEPT \<or> recent now since \<or> n \<in> set kept then eret removed
     else ebind (etry (remove_entry D k n)) (\<lambda>r. eret (if is_ok r then removed + 1 else removed)))"

definition prune_kind :: "damage \<Rightarrow> nat \<Rightarrow> string list \<Rightarrow> kind \<Rightarrow> (string, entry_meta) btree \<Rightarrow> nat history_act" where
  "prune_kind D now kept k shelf =
     eseq (names_of shelf)
     (ebind (efor (list_entry k) shelf []) (\<lambda>entries.
     ebind (efor (prune_entry D now kept k) (List.enumerate 0 (rev (sort entries))) 0) (\<lambda>removed.
     eseq (if 0 < removed then hio io else eret ()) (eret removed))))"

definition prune_shelf :: "damage \<Rightarrow> nat \<Rightarrow> string list \<Rightarrow> kind \<Rightarrow> nat list \<Rightarrow> nat list history_act" where
  "prune_shelf D now kept k tally =
     eseq (hio io)
     (ebind (eget (\<lambda>s. bt_get (shelves s) (kd_folder k))) (\<lambda>f.
     case f of None \<Rightarrow> eret (tally @ [0])
     | Some shelf \<Rightarrow>
         eseq (hio io)
         (ebind (prune_kind D now kept k shelf) (\<lambda>n.
         eseq (hio io) (eret (tally @ [n]))))))"

text \<open>The tally are in the order of \<open>kinds\<close>.\<close>

definition prune :: "damage \<Rightarrow> nat \<Rightarrow> string list \<Rightarrow> nat list history_act" where
  "prune D now held =
     eseq (hio io)
     (eseq (hio io)
     (eseq (hio check_lease)
     (ebind referenced (\<lambda>kept.
     ebind (efor (prune_shelf D now (kept @ held)) kinds []) (\<lambda>removed.
     eseq (hio check_lease)
     (eseq (hio io)
     (eret removed)))))))"

end
