(* ===== verification/HistoryRetention.thy ===== *)
theory HistoryRetention
  imports SaveHistory SessionHistory
begin

text \<open>
  What a run of the retention may remove. First the search for references is given its meaning,
  then the effect of a run is bounded for every outcome of its system calls.
\<close>

section \<open>The search for references\<close>

definition named_in :: "u8 list \<Rightarrow> string set" where
  "named_in b = {n. sublist (bytes_of n) b \<and> (\<exists>p \<in> {''snapshot-'', ''backup-''}. cloud_identifier n p)}"

lemma find_part_least: "find_part p xs = Some i \<Longrightarrow> j < i \<Longrightarrow> \<not> prefix p (drop j xs)"
proof (induction xs arbitrary: i j)
  case (Cons x xs)
  then show ?case by (cases j) (auto split: if_splits)
qed (simp split: if_splits)

lemma find_part_None: "find_part p xs = None \<Longrightarrow> \<not> sublist p xs"
  by (induction xs) (auto simp: sublist_Cons_right split: if_splits)

lemma sublist_drop: "sublist w xs \<longleftrightarrow> (\<exists>j. prefix w (drop j xs))"
proof
  assume "sublist w xs"
  then obtain a c where "xs = a @ w @ c" by (auto simp: sublist_def)
  then show "\<exists>j. prefix w (drop j xs)" by (intro exI [of _ "length a"]) simp
next
  assume "\<exists>j. prefix w (drop j xs)"
  then obtain j c where "drop j xs = w @ c" by (auto elim: prefixE)
  then have "xs = take j xs @ w @ c" using append_take_drop_id [of j xs] by simp
  then show "sublist w xs" unfolding sublist_def by blast
qed

lemma sublist_appendD: "sublist (q @ v) b \<Longrightarrow> sublist q b"
  by (auto simp: sublist_def)

text \<open>A prefix whose last byte is nowhere else in it does not overlap itself.\<close>

lemma no_overlap:
  assumes "find_part q b = Some i" "prefix (q @ v) (drop j b)" "q \<noteq> []" "last q \<notin> set (butlast q)"
  shows "j = i \<or> i + length q \<le> j"
proof (rule ccontr)
  assume "\<not> ?thesis"
  moreover have "\<not> j < i"
    using find_part_least [OF assms(1)] append_prefixD [OF assms(2)] by blast
  ultimately have j: "i < j" "j < i + length q" by auto
  obtain r where r: "drop i b = q @ r" "i + length q \<le> length b"
    using find_part_Some [OF assms(1)] by (auto elim: prefixE)
  obtain r' where r': "drop j b = q @ r'"
    using assms(2) by (auto elim: prefixE)
  let ?k = "i + length q - 1"
  have "b ! ?k = drop i b ! (length q - 1)" using r(2) assms(3) by (simp add: Suc_leI)
  also have "\<dots> = last q" using assms(3) by (simp add: r(1) nth_append last_conv_nth)
  finally have "last q = b ! ?k" by simp
  also have "\<dots> = drop j b ! (?k - j)" using r(2) j by simp
  also have "\<dots> = butlast q ! (?k - j)"
    using j by (subst nth_butlast) (auto simp: r' nth_append)
  also have "\<dots> \<in> set (butlast q)" using j by (intro nth_mem) auto
  finally show False using assms(4) by simp
qed

definition tag :: "string \<Rightarrow> bool" where
  "tag p \<longleftrightarrow> p \<noteq> [] \<and> (\<forall>c \<in> set p. ord c < 128) \<and> last p \<notin> set (butlast p)"

lemma tags: "tag ''snapshot-''" "tag ''backup-''"
  by (simp_all add: tag_def)

lemma bytes_of_inject [simp]: "bytes_of a = bytes_of b \<longleftrightarrow> a = b"
  by (metis str_of_bytes_of)

lemma tag_bytes:
  assumes "tag p"
  shows "bytes_of p \<noteq> []" "last (bytes_of p) \<notin> set (butlast (bytes_of p))"
proof -
  have p: "p \<noteq> []" "last p \<notin> set (butlast p)" using assms by (simp_all add: tag_def)
  show "bytes_of p \<noteq> []" using p(1) by (simp add: bytes_of_def)
  have "inj (\<lambda>c. word_of_nat (of_char c) :: u8)" by (rule injI) (metis char_u8_roundtrip)
  then show "last (bytes_of p) \<notin> set (butlast (bytes_of p))"
    using p by (auto simp: bytes_of_def last_map map_butlast [symmetric] dest: injD)
qed

lemma identifier_string: "tag p \<Longrightarrow> cloud_identifier n p \<Longrightarrow> is_string n"
  by (rule is_string_ascii) (fastforce simp: tag_def cloud_identifier_iff list_all_iff is_lower_hex_def is_digit_def)

lemma reference_at_iff:
  assumes "tag p"
  shows "reference_at b p i = Some n \<longleftrightarrow> prefix (bytes_of n) (drop i b) \<and> cloud_identifier n p"
proof
  assume "reference_at b p i = Some n"
  then show "prefix (bytes_of n) (drop i b) \<and> cloud_identifier n p"
    by (auto simp: reference_at_def bind_eq_Some_conv take_is_prefix split: if_splits dest!: from_utf8_Some)
next
  assume n: "prefix (bytes_of n) (drop i b) \<and> cloud_identifier n p"
  then have len: "length n = length p + 32" by (auto simp: cloud_identifier_iff)
  obtain r where r: "drop i b = bytes_of n @ r" using n by (auto elim: prefixE)
  have "length b - i = length p + 32 + length r"
    using arg_cong [OF r, of length] len by simp
  then have "i + length p + 32 \<le> length b" by simp
  then show "reference_at b p i = Some n"
    using n r len from_utf8_bytes_of [OF identifier_string [OF assms]] by (simp add: reference_at_def)
qed

lemma occurs_split:
  assumes "tag p" "find_part (bytes_of p) b = Some i" "cloud_identifier n p"
  shows "sublist (bytes_of n) b \<longleftrightarrow> reference_at b p i = Some n \<or> sublist (bytes_of n) (drop (i + length p) b)"
proof -
  obtain v where v: "bytes_of n = bytes_of p @ v" using assms(3) by (auto simp: cloud_identifier_iff bytes_of_append)
  have "prefix (bytes_of n) (drop j b) \<Longrightarrow> j = i \<or> (\<exists>k. j = k + (i + length p))" for j
    using no_overlap [OF assms(2) _ tag_bytes [OF assms(1)], of v j] v by (auto simp: le_iff_add add.commute)
  then have "(\<exists>j. prefix (bytes_of n) (drop j b)) \<longleftrightarrow>
      prefix (bytes_of n) (drop i b) \<or> (\<exists>k. prefix (bytes_of n) (drop k (drop (i + length p) b)))"
    unfolding drop_drop by blast
  then show ?thesis
    unfolding sublist_drop reference_at_iff [OF assms(1)] using assms(3) by simp
qed

lemma set_scan: "tag p \<Longrightarrow> set (scan p b found) = set found \<union> {n. sublist (bytes_of n) b \<and> cloud_identifier n p}"
proof (induction p b found rule: scan.induct)
  case (1 p b found)
  note [simp] = 1(2) tag_bytes(1) [OF 1(2), simplified]
  have p: "p \<noteq> []" using 1(2) by (simp add: tag_def)
  show ?case
  proof (cases "find_part (bytes_of p) b")
    case None
    have "\<not> sublist (bytes_of n) b" if "cloud_identifier n p" for n
      using that find_part_None [OF None] by (auto simp: cloud_identifier_iff bytes_of_append dest: sublist_appendD)
    then show ?thesis using p None by (subst scan.simps) auto
  next
    case (Some i)
    have "cloud_identifier n p" if "reference_at b p i = Some n" for n
      using that reference_at_iff [OF 1(2)] by blast
    then show ?thesis
      using p Some 1(1) [OF p Some] occurs_split [OF 1(2) Some] by (subst scan.simps) (auto split: option.splits)
  qed
qed

lemma set_references: "set (references b found) = set found \<union> named_in b"
  by (auto simp: references_def named_in_def set_scan tags)

section \<open>Reading the records\<close>

definition idle :: "'j store \<Rightarrow> 'j store" where
  "idle d = d\<lparr>io_script := [], drawn := 0\<rparr>"

definition seen :: "history \<Rightarrow> history" where
  "seen s = s\<lparr>hs_disk := idle (hs_disk s)\<rparr>"

text \<open>Still as at the start, and with every call successful if \<open>c\<close> says that all are.\<close>

definition unread :: "bool \<Rightarrow> history \<Rightarrow> history \<Rightarrow> bool" where
  "unread c s t \<longleftrightarrow> seen t = seen s \<and> (c \<longrightarrow> calm (hs_disk t))"

lemma wp_hio:
  "wp (hio m) Q E s = wp m (\<lambda>a d. Q a (s\<lparr>hs_disk := d\<rparr>)) (\<lambda>e d. E e (s\<lparr>hs_disk := d\<rparr>)) (hs_disk s)"
  by (auto simp: wp_def hio_def split: prod.split sum.split)

lemma wp_points: "wp (eret a) Q E = Q a" "wp (eseq m n) Q' E' = wp m (\<lambda>_. wp n Q' E') E'"
  "wp (ebind m' f) Q'' E'' = wp m' (\<lambda>a. wp (f a) Q'' E'') E''" "wp (efail e) Q3 E3 = E3 e"
  by (rule ext, simp add: wp_eret wp_eseq wp_ebind wp_efail)+

lemma wp_hneed [wp_simps]: "wp (hneed c m) Q E s = (if c then Q () s else E (Failure m) s)"
  by (simp add: hneed_def wp_elift cloud_require_def)

lemma unread_refl: "(c \<Longrightarrow> calm (hs_disk s)) \<Longrightarrow> unread c s s"
  by (simp add: unread_def)

lemma unread_sel:
  assumes "unread c s t"
  shows "record_files t = record_files s" "save_folders t = save_folders s" "pending_file t = pending_file s"
    "shelves t = shelves s" "receipts_there t = receipts_there s"
    "snapshots (hs_disk t) = snapshots (hs_disk s)" "backups (hs_disk t) = backups (hs_disk s)"
    "receipts (hs_disk t) = receipts (hs_disk s)" "journal (hs_disk t) = journal (hs_disk s)"
proof -
  have e: "seen t = seen s" using assms by (simp add: unread_def)
  show "record_files t = record_files s" "save_folders t = save_folders s" "pending_file t = pending_file s"
    "shelves t = shelves s" "receipts_there t = receipts_there s"
    "snapshots (hs_disk t) = snapshots (hs_disk s)" "backups (hs_disk t) = backups (hs_disk s)"
    "receipts (hs_disk t) = receipts (hs_disk s)" "journal (hs_disk t) = journal (hs_disk s)"
    using arg_cong [OF e, of record_files] arg_cong [OF e, of save_folders] arg_cong [OF e, of pending_file]
      arg_cong [OF e, of shelves] arg_cong [OF e, of receipts_there] arg_cong [OF e, of "snapshots \<circ> hs_disk"]
      arg_cong [OF e, of "backups \<circ> hs_disk"] arg_cong [OF e, of "receipts \<circ> hs_disk"] arg_cong [OF e, of "journal \<circ> hs_disk"]
    by (simp_all add: seen_def idle_def)
qed

lemma unread_script:
  "unread c s0 s \<Longrightarrow> unread c s0 (s\<lparr>hs_disk := (hs_disk s)\<lparr>io_script := tl (io_script (hs_disk s))\<rparr>\<rparr>)"
  by (simp add: unread_def seen_def idle_def calm_def)

lemma unread_next:
  assumes "unread c s0 s" "\<And>x t. unread c s0 t \<Longrightarrow> (c \<Longrightarrow> x = Fine) \<Longrightarrow> Q x t"
  shows "wp (hio next_io) Q E s"
  using assms(1) unfolding wp_hio
  by (simp add: wp_def next_io_def, intro assms(2) unread_script)
    (auto simp: unread_def calm_def)

lemma unread_io:
  assumes "unread c s0 s" "\<And>t. unread c s0 t \<Longrightarrow> Q () t" "\<And>e t. unread c s0 t \<Longrightarrow> \<not> c \<Longrightarrow> E e t"
  shows "wp (hio io) Q E s"
proof -
  have "wp (hio next_io) (\<lambda>x t. case x of Fine \<Rightarrow> Q () t | Refused f \<Rightarrow> E f t | Unsynced f \<Rightarrow> E f t) E s"
    by (rule unread_next [OF assms(1)]) (auto intro: assms(2,3) split: io_outcome.split)
  then show ?thesis
    by (simp add: wp_hio io_def wp_ebind cong: io_outcome.case_cong)
      (rule wp_mono, assumption, auto simp: wp_simps split: io_outcome.splits)
qed

lemma unread_lease:
  assumes "unread c s0 s" "\<And>t. unread c s0 t \<Longrightarrow> Q () t" "\<And>e t. unread c s0 t \<Longrightarrow> \<not> c \<Longrightarrow> E e t"
  shows "wp (hio check_lease) Q E s"
proof -
  have "wp (hio io) Q (\<lambda>_. E (Failure ''invalid_lock'')) s"
    by (rule unread_io [OF assms(1)]) (erule assms(2), erule (1) assms(3))
  then show ?thesis by (simp add: check_lease_def io_as_def wp_hio wp_simps wp_points)
qed

lemma unread_file:
  assumes "unread c s0 s" "\<And>b t. unread c s0 t \<Longrightarrow> file = Some b \<Longrightarrow> length b \<le> n \<Longrightarrow> Q b t"
    "\<And>e t. unread c s0 t \<Longrightarrow> \<not> (c \<and> (\<exists>b. file = Some b \<and> length b \<le> n)) \<Longrightarrow> E e t"
  shows "wp (hio (bounded_file n file)) Q E s"
proof -
  have "wp (hio io) (\<lambda>_ t. case file of None \<Rightarrow> E local_failure t
      | Some b \<Rightarrow> if length b \<le> n then Q b t else E (Failure ''unsupported'') t) E s"
    by (rule unread_io [OF assms(1)]) (auto intro: assms(2,3) split: option.split)
  then show ?thesis
    by (simp add: wp_hio bounded_file_def some_file_def wp_simps)
      (rule wp_mono, assumption, auto simp: wp_simps ok_or_def need_def cloud_require_def split: option.splits if_splits)
qed

text \<open>What a search adds to its result, given the files it has to read.\<close>

definition named_by :: "u8 list option list \<Rightarrow> string set" where
  "named_by fs = {n. \<exists>b. Some b \<in> set fs \<and> n \<in> named_in b}"

lemma named_by_simps [simp]: "named_by [] = {}" "named_by (fs @ gs) = named_by fs \<union> named_by gs"
  "named_by [Some b] = named_in b"
  by (auto simp: named_by_def)

definition gathers :: "bool \<Rightarrow> u8 list option list \<Rightarrow> string list \<Rightarrow> string list \<Rightarrow> bool" where
  "gathers c fs found found' \<longleftrightarrow> set found \<subseteq> set found' \<and>
     (\<forall>f \<in> set fs. \<exists>b. f = Some b \<and> length b \<le> RECORD \<and> named_in b \<subseteq> set found') \<and>
     (c \<longrightarrow> set found' \<subseteq> set found \<union> named_by fs)"

lemma gathers_Nil [simp]: "gathers c [] found found"
  by (simp add: gathers_def)

lemma gathers_append: "gathers c fs x y \<Longrightarrow> gathers c gs y z \<Longrightarrow> gathers c (fs @ gs) x z"
proof -
  assume a: "gathers c fs x y" "gathers c gs y z"
  then have "set y \<subseteq> set z" by (simp add: gathers_def)
  then have "\<forall>f \<in> set fs. \<exists>b. f = Some b \<and> length b \<le> RECORD \<and> named_in b \<subseteq> set z"
    using a(1) unfolding gathers_def by (meson subset_trans)
  with a show ?thesis by (auto simp: gathers_def ball_Un)
qed

lemma gathers_less: "gathers c fs x y \<Longrightarrow> \<not> c \<Longrightarrow> gathers False [] x y"
  by (simp add: gathers_def)

definition all_read :: "u8 list option list \<Rightarrow> bool" where
  "all_read fs \<longleftrightarrow> (\<forall>f \<in> set fs. \<exists>b. f = Some b \<and> length b \<le> RECORD)"

lemma gathers_read: "gathers c fs x y \<Longrightarrow> all_read fs"
  unfolding gathers_def all_read_def by blast

text \<open>A folder with more names than are read.\<close>

definition crowded :: "history \<Rightarrow> bool" where
  "crowded s \<longleftrightarrow> (\<exists>f m. bt_get (record_files s) f = Some m \<and> 100000 < length m) \<or>
     (\<exists>m. save_folders s = Some m \<and> 100000 < length m) \<or>
     (\<exists>f m. bt_get (shelves s) f = Some m \<and> 100000 < length m)"

text \<open>Nothing stands in the way of reading \<open>fs\<close>.\<close>

definition plain :: "bool \<Rightarrow> history \<Rightarrow> u8 list option list \<Rightarrow> bool" where
  "plain c s fs \<longleftrightarrow> c \<and> all_read fs \<and> \<not> crowded s"

lemma plain_simps [simp]: "plain c s (fs @ gs) \<longleftrightarrow> plain c s fs \<and> plain c s gs" "\<not> plain False s fs"
  by (auto simp: plain_def all_read_def)

definition gathering :: "bool \<Rightarrow> history \<Rightarrow> u8 list option list \<Rightarrow> (string list \<Rightarrow> string list history_act) \<Rightarrow> bool" where
  "gathering c s0 fs f \<longleftrightarrow> (\<forall>found s. unread c s0 s \<longrightarrow>
     wp (f found) (\<lambda>found' t. unread c s0 t \<and> gathers c fs found found') (\<lambda>_ t. unread c s0 t \<and> \<not> plain c s0 fs) s)"

lemma gatheringI:
  "(\<And>found s. unread c s0 s \<Longrightarrow> wp (f found) (\<lambda>found' t. unread c s0 t \<and> gathers c fs found found')
      (\<lambda>_ t. unread c s0 t \<and> \<not> plain c s0 fs) s) \<Longrightarrow> gathering c s0 fs f"
  by (simp add: gathering_def)

lemma gatheringD:
  assumes "gathering c s0 fs f" "unread c s0 s"
    "\<And>found' t. unread c s0 t \<Longrightarrow> gathers c fs found found' \<Longrightarrow> Q found' t"
    "\<And>e t. unread c s0 t \<Longrightarrow> \<not> plain c s0 fs \<Longrightarrow> E e t"
  shows "wp (f found) Q E s"
  by (rule wp_mono [where Q = "\<lambda>found' t. unread c s0 t \<and> gathers c fs found found'"
        and E = "\<lambda>_ t. unread c s0 t \<and> \<not> plain c s0 fs"])
    (use assms in \<open>auto simp: gathering_def\<close>)

lemma gathering_for:
  assumes "\<And>x. x \<in> set xs \<Longrightarrow> gathering c s0 (g x) (f x)"
  shows "gathering c s0 (concat (map g xs)) (efor f xs)"
  using assms
proof (induction xs)
  case Nil
  show ?case by (rule gatheringI) (simp add: wp_eret)
next
  case (Cons x xs)
  have x: "gathering c s0 (g x) (f x)" and xs: "gathering c s0 (concat (map g xs)) (efor f xs)"
    using Cons by simp_all
  show ?case
    by (rule gatheringI, simp only: efor.simps wp_ebind, rule gatheringD [OF x], assumption)
      (auto intro!: gatheringD [OF xs] intro: gathers_append)
qed

lemma gathering_read: "gathering c s0 [file] (read_record file)"
proof (rule gatheringI)
  fix found s assume s: "unread c s0 s"
  have "plain c s0 [file] \<Longrightarrow> c \<and> (\<exists>b. file = Some b \<and> length b \<le> RECORD)" by (auto simp: plain_def all_read_def)
  then show "wp (read_record file found) (\<lambda>found' t. unread c s0 t \<and> gathers c [file] found found')
      (\<lambda>_ t. unread c s0 t \<and> \<not> plain c s0 [file]) s"
    by (auto simp: read_record_def wp_simps gathers_def set_references intro!: unread_file [OF s])
qed

definition files_in :: "history \<Rightarrow> string \<Rightarrow> u8 list option list" where
  "files_in s folder = (case bt_get (record_files s) folder of None \<Rightarrow> [] | Some files \<Rightarrow> map snd files)"

definition file_of :: "u8 list option \<Rightarrow> u8 list option list" where
  "file_of f = (case f of None \<Rightarrow> [] | Some b \<Rightarrow> [Some b])"

text \<open>The records of a runtime: a baseline counts unless the metadata of its folder cannot be read.\<close>

definition baseline_of :: "string \<times> bool option \<times> u8 list option \<Rightarrow> u8 list option list" where
  "baseline_of = (\<lambda>(_, meta, pointer). if meta = Some True then file_of pointer else [])"

definition records_of :: "history \<Rightarrow> u8 list option list" where
  "records_of s = concat (map (files_in s) [''cloud-cache'', ''cloud-sessions'']) @
     (case save_folders s of None \<Rightarrow> [] | Some folders \<Rightarrow> concat (map baseline_of folders)) @
     file_of (pending_file s)"

lemma gathering_names:
  "unread c s0 s \<Longrightarrow> (100000 < length m \<Longrightarrow> crowded s0) \<Longrightarrow> (\<And>t. unread c s0 t \<Longrightarrow> Q () t) \<Longrightarrow>
    (\<And>e t. unread c s0 t \<Longrightarrow> \<not> plain c s0 fs \<Longrightarrow> E e t) \<Longrightarrow> wp (names_of m) Q E s"
  unfolding names_of_def wp_eseq wp_hneed by (rule unread_io) (auto simp: plain_def not_le)

lemma gathering_records: "gathering c s0 (files_in s0 folder) (records_in folder)"
proof (rule gatheringI)
  fix found s assume s: "unread c s0 s"
  let ?Q = "\<lambda>found' t. unread c s0 t \<and> gathers c (files_in s0 folder) found found'"
  let ?E = "\<lambda>(_ :: failure) t. unread c s0 t \<and> \<not> plain c s0 (files_in s0 folder)"
  have "wp (efor (\<lambda>(_, file). read_record file) files found) ?Q ?E t"
    if "unread c s0 t" "bt_get (record_files s0) folder = Some files" for files t
  proof -
    have "gathering c s0 (concat (map (\<lambda>x. [snd x]) files)) (efor (\<lambda>(_, file). read_record file) files)"
      by (rule gathering_for) (auto simp: gathering_read)
    then have "gathering c s0 (files_in s0 folder) (efor (\<lambda>(_, file). read_record file) files)"
      by (simp add: files_in_def that(2) concat_map_singleton)
    then show ?thesis by (rule gatheringD [OF _ that(1)]) simp_all
  qed
  then have names: "wp (names_of files) (\<lambda>_. wp (efor (\<lambda>(_, file). read_record file) files found) ?Q ?E) ?E t"
    if "unread c s0 t" "bt_get (record_files s0) folder = Some files" for files t
    using that(2) by (intro gathering_names [OF that(1)]) (auto simp: crowded_def)
  have "wp (case bt_get (record_files t) folder of None \<Rightarrow> eret found
      | Some files \<Rightarrow> eseq (hio io) (eseq (names_of files) (efor (\<lambda>(_, file). read_record file) files found))) ?Q ?E t"
    if t: "unread c s0 t" for t
  proof (cases "bt_get (record_files s0) folder")
    case None
    with t show ?thesis by (simp add: unread_sel(1) wp_eret files_in_def)
  next
    case (Some files)
    have "wp (hio io) (\<lambda>_. wp (names_of files) (\<lambda>_. wp (efor (\<lambda>(_, file). read_record file) files found) ?Q ?E) ?E) ?E t"
      by (rule unread_io [OF t], erule names [OF _ Some]) (simp add: plain_def)
    with t show ?thesis by (simp add: unread_sel(1) Some wp_points)
  qed
  then show "wp (records_in folder found) ?Q ?E s"
    unfolding records_in_def wp_eseq wp_ebind wp_eget by (intro unread_io [OF s]) (simp_all add: plain_def)
qed

lemma gathering_optional: "gathering c s0 (file_of file) (optional_record file)"
  by (rule gatheringI, unfold optional_record_def wp_eseq, rule unread_io)
    (auto simp: wp_simps file_of_def split: option.split intro: gatheringD [OF gathering_read])

lemma gathering_baseline: "gathering c s0 (baseline_of x) (baseline_in x)"
proof (cases x)
  case (fields n meta pointer)
  show ?thesis
    unfolding fields
    by (rule gatheringI, cases meta)
      (auto simp: baseline_in_def baseline_of_def wp_simps intro!: unread_io gatheringD [OF gathering_optional])
qed

lemma wp_referenced:
  assumes "unread c s0 s"
    and "\<And>found t. unread c s0 t \<Longrightarrow> gathers c (records_of s0) [] found \<Longrightarrow> Q found t"
    and "\<And>e t. unread c s0 t \<Longrightarrow> \<not> plain c s0 (records_of s0) \<Longrightarrow> E e t"
  shows "wp referenced Q E s"
proof -
  let ?first = "concat (map (files_in s0) [''cloud-cache'', ''cloud-sessions''])"
  let ?saves = "case save_folders s0 of None \<Rightarrow> [] | Some fs \<Rightarrow> concat (map (baseline_of) fs)"
  have saves: "gathering c s0 (concat (map (baseline_of) folders)) (efor baseline_in folders)" for folders
    by (rule gathering_for) (rule gathering_baseline)
  have E: "E e t" if "unread c s0 t" "\<not> plain c s0 ?first \<or> \<not> plain c s0 ?saves \<or> \<not> plain c s0 (file_of (pending_file s0))" for e t
    using that(2) by (intro assms(3) [OF that(1)]) (simp only: records_of_def plain_simps, blast)
  have last: "wp (optional_record (pending_file v) b) Q E v"
    if "unread c s0 v" "gathers c ?first [] a" "gathers c ?saves a b" for a b v
    unfolding unread_sel(3) [OF that(1)]
    by (rule gatheringD [OF gathering_optional that(1)], rule assms(2), assumption)
      (simp only: records_of_def gathers_append [OF that(2) gathers_append [OF that(3)]], blast intro: E)
  show ?thesis
    unfolding referenced_def wp_ebind wp_eseq wp_eget
  proof (rule gatheringD [OF gathering_for [OF gathering_records] assms(1)], rule unread_io, assumption)
    fix a u assume a: "gathers c ?first [] a" and u: "unread c s0 u"
    show "wp (case save_folders u of None \<Rightarrow> eret a
        | Some folders \<Rightarrow> eseq (hio io) (eseq (names_of folders) (efor baseline_in folders a)))
      (\<lambda>found t. wp (optional_record (pending_file t) found) Q E t) E u"
    proof (cases "save_folders s0")
      case None
      then show ?thesis using last [OF u a, of a] u by (simp add: unread_sel(2) wp_simps)
    next
      case (Some folders)
      have "wp (efor baseline_in folders a) (\<lambda>found t. wp (optional_record (pending_file t) found) Q E t) E v"
        if "unread c s0 v" for v
        by (rule gatheringD [OF saves that], rule last [OF _ a]) (auto simp: Some intro: E)
      then have "wp (names_of folders) (\<lambda>_. wp (efor baseline_in folders a)
          (\<lambda>found t. wp (optional_record (pending_file t) found) Q E t) E) E v" if "unread c s0 v" for v
        by (intro gathering_names [OF that]) (auto simp: Some crowded_def intro: E)
      then show ?thesis using u
        by (auto simp: unread_sel(2) Some wp_eseq intro!: unread_io intro: E)
    qed
  qed (auto intro: E)
qed

section \<open>Removing\<close>

text \<open>How far two states agree: everywhere but at the entries \<open>Z\<close>, given by folder and name.\<close>

definition listed :: "history \<Rightarrow> string \<Rightarrow> string \<Rightarrow> entry_meta option" where
  "listed s folder n = Option.bind (bt_get (shelves s) folder) (\<lambda>m. bt_get m n)"

definition aside :: "history \<Rightarrow> history" where
  "aside s = s\<lparr>shelves := [], hs_disk := (idle (hs_disk s))\<lparr>snapshots := [], backups := [], receipts := []\<rparr>\<rparr>"

definition agree :: "(string \<times> string) set \<Rightarrow> history \<Rightarrow> history \<Rightarrow> bool" where
  "agree Z s t \<longleftrightarrow> aside t = aside s \<and>
     (\<forall>f n. (f, n) \<notin> Z \<longrightarrow> listed t f n = listed s f n) \<and>
     (\<forall>n. (''cloud-saves'', n) \<notin> Z \<longrightarrow> bt_get (snapshots (hs_disk t)) n = bt_get (snapshots (hs_disk s)) n) \<and>
     (\<forall>n. (''cloud-import-backups'', n) \<notin> Z \<longrightarrow>
        bt_get (backups (hs_disk t)) n = bt_get (backups (hs_disk s)) n \<and>
        bt_get (receipts (hs_disk t)) (n @ ''.json'') = bt_get (receipts (hs_disk s)) (n @ ''.json'')) \<and>
     (\<forall>r. (\<forall>n. r \<noteq> n @ ''.json'') \<longrightarrow> bt_get (receipts (hs_disk t)) r = bt_get (receipts (hs_disk s)) r)"

lemma agree_refl [simp]: "agree Z s s"
  by (simp add: agree_def)

lemma agree_trans: "agree Z s t \<Longrightarrow> agree Z t u \<Longrightarrow> agree Z s u"
  by (simp add: agree_def)

lemma agree_more: "agree Y s t \<Longrightarrow> Y \<subseteq> Z \<Longrightarrow> agree Z s t"
  unfolding agree_def by blast

lemma unread_agree: "unread c s t \<Longrightarrow> agree Z s t"
  using unread_sel(4,6,7,8) [of c s t]
  by (simp add: agree_def listed_def) (auto simp: unread_def seen_def aside_def idle_def dest: arg_cong [of _ _ aside])

lemma bt_get_map: "bt_get (map (\<lambda>(k, v). (k, g k v)) m) k = map_option (g k) (bt_get m k)"
  by (induction m) (auto simp: bt_get_def)

lemma bt_get_at: "bt_get (map (\<lambda>(f, m). (f, if f = folder then g m else m)) ms) f =
    (if f = folder then map_option g (bt_get ms f) else bt_get ms f)"
  using bt_get_map [of "\<lambda>f m. if f = folder then g m else m" ms f] by (auto simp: option.map_ident)

lemma drop_agree: "(folder, n) \<in> Z \<Longrightarrow> agree Z s (drop_entry folder n s)"
  by (auto simp: agree_def drop_entry_def aside_def idle_def listed_def bt_get_at bt_get_del split: bind_split)

lemma break_agree: "(folder, n) \<in> Z \<Longrightarrow> agree Z s (break_entry D folder n s)"
  by (auto simp: agree_def break_entry_def aside_def idle_def listed_def bt_get_at)

text \<open>Within the bounds \<open>Z\<close> of the start, and with \<open>W\<close> gone if every call succeeds.\<close>

definition inside :: "bool \<Rightarrow> (string \<times> string) set \<Rightarrow> (string \<times> string) set \<Rightarrow> history \<Rightarrow> history \<Rightarrow> bool" where
  "inside c Z W s t \<longleftrightarrow> agree Z s t \<and> (c \<longrightarrow> calm (hs_disk t) \<and> (\<forall>(f, n) \<in> W. listed t f n = None))"

lemma inside_unread: "inside c Z W s0 s \<Longrightarrow> unread c s t \<Longrightarrow> inside c Z W s0 t"
  unfolding inside_def using agree_trans [of Z s0 s t] unread_agree [of c s t Z] unread_sel(4) [of c s t]
  by (auto simp: listed_def unread_def)

lemma inside_start: "inside c Z W s0 s \<Longrightarrow> unread c s s"
  by (simp add: inside_def unread_def)

lemma inside_mono: "inside c Z W s t \<Longrightarrow> (c \<Longrightarrow> V \<subseteq> W) \<Longrightarrow> inside c Z V s t"
  unfolding inside_def by blast

lemma inside_io:
  assumes "inside c Z W s0 s" "\<And>t. inside c Z W s0 t \<Longrightarrow> Q () t" "\<And>e t. inside c Z W s0 t \<Longrightarrow> \<not> c \<Longrightarrow> E e t"
  shows "wp (hio io) Q E s"
  by (rule unread_io [OF inside_start [OF assms(1)]]) (blast intro: assms(2,3) inside_unread [OF assms(1)])+

lemma inside_lease:
  assumes "inside c Z W s0 s" "\<And>t. inside c Z W s0 t \<Longrightarrow> Q () t" "\<And>e t. inside c Z W s0 t \<Longrightarrow> \<not> c \<Longrightarrow> E e t"
  shows "wp (hio check_lease) Q E s"
  by (rule unread_lease [OF inside_start [OF assms(1)]]) (blast intro: assms(2,3) inside_unread [OF assms(1)])+

lemma inside_next:
  assumes "inside c Z W s0 s" "\<And>x t. inside c Z W s0 t \<Longrightarrow> (c \<Longrightarrow> x = Fine) \<Longrightarrow> Q x t"
  shows "wp (hio next_io) Q E s"
  by (rule unread_next [OF inside_start [OF assms(1)]]) (blast intro: assms(2) inside_unread [OF assms(1)])

lemma inside_landing:
  assumes "inside c Z W s0 s" "\<And>t. inside c Z W s0 t \<Longrightarrow> inside c Z W s0 (t\<lparr>hs_disk := f (hs_disk t)\<rparr>)"
    "\<And>t. inside c Z W s0 t \<Longrightarrow> Q () t" "\<And>e t. inside c Z W s0 t \<Longrightarrow> \<not> c \<Longrightarrow> E e t"
  shows "wp (hio (landing f)) Q E s"
proof -
  have "wp (hio next_io) (\<lambda>x t. case x of Fine \<Rightarrow> Q () (t\<lparr>hs_disk := f (hs_disk t)\<rparr>) | Refused e \<Rightarrow> E e t
      | Unsynced e \<Rightarrow> E e (t\<lparr>hs_disk := f (hs_disk t)\<rparr>)) E s"
    by (rule inside_next [OF assms(1)]) (auto intro: assms(2,3,4) split: io_outcome.split)
  then show ?thesis
    by (simp add: wp_hio landing_def wp_ebind)
      (rule wp_mono, assumption, auto simp: wp_simps split: io_outcome.splits)
qed

lemma listed_drop [simp]: "listed (drop_entry f n s) g m = (if g = f \<and> m = n then None else listed s g m)"
  by (cases "bt_get (shelves s) f") (auto simp: listed_def drop_entry_def bt_get_at bt_get_del)

lemma inside_drop: "inside c Z W s0 s \<Longrightarrow> (f, n) \<in> Z \<Longrightarrow> inside c Z (insert (f, n) W) s0 (drop_entry f n s)"
  unfolding inside_def using agree_trans [of Z s0 s "drop_entry f n s"] drop_agree [of f n Z s]
  by (auto simp: calm_def) (auto simp: drop_entry_def)

lemma inside_break: "inside c Z W s0 s \<Longrightarrow> (f, n) \<in> Z \<Longrightarrow> inside c Z W s0 (break_entry D f n s)"
  unfolding inside_def using agree_trans [of Z s0 s "break_entry D f n s"] break_agree [of f n Z s D]
  by (auto simp: calm_def break_entry_def listed_def)

lemma inside_receipt:
  assumes "inside c Z W s0 s" "(''cloud-import-backups'', n) \<in> Z"
  shows "inside c Z W s0 (s\<lparr>hs_disk := (hs_disk s)\<lparr>receipts := bt_del (n @ ''.json'') (receipts (hs_disk s))\<rparr>\<rparr>)"
    (is "inside _ _ _ _ ?t")
proof -
  have "agree Z s ?t"
    using assms(2) by (auto simp: agree_def aside_def idle_def listed_def bt_get_del)
  then show ?thesis
    using assms(1) agree_trans [of Z s0 s ?t] by (auto simp: inside_def calm_def listed_def)
qed

lemma inside_less: "inside c Z (insert x W) s0 t \<Longrightarrow> inside c Z W s0 t"
  by (simp add: inside_def)

lemma wp_receipt:
  assumes "inside c Z W s0 s" "(''cloud-import-backups'', n) \<in> Z"
    "\<And>t. inside c Z W s0 t \<Longrightarrow> Q () t" "\<And>e t. inside c Z W s0 t \<Longrightarrow> \<not> c \<Longrightarrow> E e t"
  shows "wp (remove_receipt n) Q E s"
proof -
  let ?change = "\<lambda>d. d\<lparr>receipts := bt_del (n @ ''.json'') (receipts d)\<rparr>"
  have a: "wp (if present then hio (landing ?change) else eret ()) Q E t" if "inside c Z W s0 t" for present t
    using that by (auto simp: wp_eret assms(3) intro!: inside_landing [OF that] inside_receipt assms(2,3,4))
  have "wp (ebind (eget (\<lambda>s. bt_has (receipts (hs_disk s)) (n @ ''.json'')))
      (\<lambda>present. if present then hio (landing ?change) else eret ())) Q E t" if "inside c Z W s0 t" for t
    using a [OF that] by (simp only: wp_ebind wp_eget)
  then have b: "wp (eseq (hio io) (ebind (eget (\<lambda>s. bt_has (receipts (hs_disk s)) (n @ ''.json'')))
      (\<lambda>present. if present then hio (landing ?change) else eret ()))) Q E t" if "inside c Z W s0 t" for t
    unfolding wp_eseq by (intro inside_io [OF that] assms(4))
  have "wp (if receipts_there t then eseq (hio io) (ebind (eget (\<lambda>s. bt_has (receipts (hs_disk s)) (n @ ''.json'')))
      (\<lambda>present. if present then hio (landing ?change) else eret ())) else eret ()) Q E t" if "inside c Z W s0 t" for t
    using that b by (simp add: wp_eret assms(3))
  then show ?thesis
    unfolding remove_receipt_def wp_eseq wp_ebind wp_eget by (intro inside_io [OF assms(1)] assms(4))
qed

lemma wp_tree:
  assumes "inside c Z W s0 s" "(f, n) \<in> Z" "\<And>t. inside c Z (insert (f, n) W) s0 t \<Longrightarrow> Q () t"
    "\<And>e t. inside c Z W s0 t \<Longrightarrow> \<not> c \<Longrightarrow> E e t"
  shows "wp (remove_tree D f n) Q E s"
  unfolding remove_tree_def wp_ebind
  by (rule inside_next [OF assms(1)])
    (auto simp: wp_simps split: io_outcome.split intro: assms(3,4) inside_drop [OF _ assms(2)] inside_break [OF _ assms(2)])

lemma wp_remove:
  assumes "inside c Z W s0 s" "(kd_folder k, n) \<in> Z" "kd_sealed k \<Longrightarrow> kd_folder k = ''cloud-import-backups''"
    and Q: "\<And>t. inside c Z (insert (kd_folder k, n) W) s0 t \<Longrightarrow> Q () t"
    and E: "\<And>e t. inside c Z W s0 t \<Longrightarrow> \<not> c \<Longrightarrow> E e t"
  shows "wp (remove_entry D k n) Q E s"
proof -
  have rest: "wp (if kd_sealed k then remove_receipt n else eret ()) Q E t"
    if "inside c Z (insert (kd_folder k, n) W) s0 t" for t
  proof (cases "kd_sealed k")
    case True
    have "(''cloud-import-backups'', n) \<in> Z" using assms(2,3) True by simp
    from wp_receipt [OF that this, of Q E] show ?thesis using True Q E inside_less by simp
  qed (use that Q in \<open>simp add: wp_eret\<close>)
  have tree: "wp (remove_tree D (kd_folder k) n) (\<lambda>_. wp (if kd_sealed k then remove_receipt n else eret ()) Q E) E t"
    if "inside c Z W s0 t" for t
    by (rule wp_tree [OF that assms(2)]) (erule rest, erule (1) E)
  have "wp (hio io) (\<lambda>_. wp (remove_tree D (kd_folder k) n)
      (\<lambda>_. wp (if kd_sealed k then remove_receipt n else eret ()) Q E) E) E s"
    by (rule inside_io [OF assms(1)]) (erule tree, erule (1) E)
  then show ?thesis
    using tree [OF assms(1)] unfolding remove_entry_def wp_eseq by (cases "kd_sealed k") (simp_all add: wp_eret)
qed

section \<open>One folder\<close>

text \<open>The entries of a folder, and how many of them are newer than one.\<close>

definition entries_of :: "kind \<Rightarrow> (string, entry_meta) btree \<Rightarrow> (nat \<times> string) list" where
  "entries_of k shelf = map (\<lambda>(n, m). (modified_time m, n)) (filter (\<lambda>(n, m). kd_entry k n \<and> en_dir m \<and> en_own m) shelf)"

definition newer :: "(nat \<times> string) list \<Rightarrow> nat \<times> string \<Rightarrow> nat" where
  "newer es e = length (filter (\<lambda>x. e < x) es)"

text \<open>An entry that neither its number nor its age keeps.\<close>

definition aged :: "nat \<Rightarrow> kind \<Rightarrow> (string, entry_meta) btree \<Rightarrow> string \<Rightarrow> bool" where
  "aged now k shelf n \<longleftrightarrow> (\<exists>since. (since, n) \<in> set (entries_of k shelf) \<and>
     KEPT \<le> newer (entries_of k shelf) (since, n) \<and> \<not> recent now since)"

lemma newer_enumerate:
  assumes "distinct es" "(i, e) \<in> set (List.enumerate 0 (rev (sort es)))"
  shows "newer es e = i" "e \<in> set es"
proof -
  let ?ys = "rev (sort es)"
  have i: "i < length ?ys" "?ys ! i = e"
    using assms(2) by (auto simp: in_set_enumerate_eq)
  have ord: "sorted_wrt (>) ?ys"
    using assms(1) by (simp add: sorted_wrt_rev strict_sorted_iff)
  have split: "?ys = take i ?ys @ e # drop (Suc i) ?ys"
    using i id_take_nth_drop by metis
  have "\<forall>x \<in> set (take i ?ys). e < x" "\<forall>x \<in> set (drop (Suc i) ?ys). x < e"
    using ord by (subst (asm) split, simp add: sorted_wrt_append)+
  then have "filter (\<lambda>x. e < x) ?ys = take i ?ys"
    by (subst split, subst filter_append) (auto simp: filter_empty_conv)
  then have "newer ?ys e = i" using i(1) by (simp add: newer_def)
  moreover have "mset ?ys = mset es" by simp
  then have "newer ?ys e = newer es e" unfolding newer_def by (metis mset_filter size_mset)
  ultimately show "newer es e = i" by simp
  show "e \<in> set es" using i by (metis nth_mem set_rev set_sort)
qed

lemma enumerate_newer:
  assumes "distinct es" "e \<in> set es"
  shows "(newer es e, e) \<in> set (List.enumerate 0 (rev (sort es)))"
proof -
  obtain i where "i < length (rev (sort es))" "rev (sort es) ! i = e"
    using assms(2) by (metis in_set_conv_nth set_rev set_sort)
  then have "(i, e) \<in> set (List.enumerate 0 (rev (sort es)))"
    by (auto simp: in_set_enumerate_eq)
  with newer_enumerate [OF assms(1) this] show ?thesis by simp
qed

lemma distinct_entries_of: "bt_ok shelf \<Longrightarrow> distinct (entries_of k shelf)"
proof -
  assume "bt_ok shelf"
  then have "distinct (map fst shelf)" by (simp add: bt_ok_def strict_sorted_iff)
  then have "distinct (map fst (filter (\<lambda>(n, m). kd_entry k n \<and> en_dir m \<and> en_own m) shelf))"
    by (rule distinct_map_filter)
  then have "distinct (map snd (entries_of k shelf))"
    by (simp add: entries_of_def comp_def case_prod_beta)
  then show ?thesis by (simp add: distinct_map)
qed

lemma wp_list:
  assumes "inside c Z W s0 s"
    and "\<And>t. inside c Z W s0 t \<Longrightarrow> Q (out @ entries_of k shelf) t" "\<And>e t. inside c Z W s0 t \<Longrightarrow> \<not> c \<Longrightarrow> E e t"
  shows "wp (efor (list_entry k) shelf out) Q E s"
  using assms(1,2)
proof (induction shelf arbitrary: out s)
  case Nil
  then show ?case by (simp add: wp_eret entries_of_def)
next
  case (Cons x shelf)
  obtain n m where x: "x = (n, m)" by (cases x)
  show ?case
  proof (cases "kd_entry k n")
    case False
    then have "entries_of k (x # shelf) = entries_of k shelf" by (simp add: entries_of_def x)
    with False Cons show ?thesis by (simp add: x list_entry_def wp_simps)
  next
    case True
    let ?out = "if en_dir m \<and> en_own m then out @ [(modified_time m, n)] else out"
    have "wp (efor (list_entry k) shelf ?out) Q E t" if "inside c Z W s0 t" for t
      using that Cons.prems(2) True by (intro Cons.IH) (auto simp: entries_of_def x)
    then have "wp (hio io) (\<lambda>_. wp (efor (list_entry k) shelf ?out) Q E) E s"
      by (rule inside_io [OF Cons.prems(1)]) (assumption, erule (1) assms(3))
    with True show ?thesis
      by (cases "en_dir m"; cases "en_own m"; simp add: x list_entry_def wp_simps wp_points)
  qed
qed

definition doomed :: "nat \<Rightarrow> string list \<Rightarrow> nat \<times> nat \<times> string \<Rightarrow> bool" where
  "doomed now kept = (\<lambda>(i, since, n). KEPT \<le> i \<and> \<not> recent now since \<and> n \<notin> set kept)"

lemma doomed_aged:
  assumes "bt_ok shelf"
  shows "(\<lambda>(_, _, n). n) ` set (filter (doomed now kept) (List.enumerate 0 (rev (sort (entries_of k shelf)))))
    = {n. aged now k shelf n \<and> n \<notin> set kept}"
proof -
  note d = distinct_entries_of [OF assms, of k]
  show ?thesis
    using newer_enumerate [OF d] enumerate_newer [OF d] by (fastforce simp: doomed_def aged_def image_iff)
qed

lemma wp_prune_kind:
  assumes "inside c Z W s0 s" "bt_ok shelf" "kd_sealed k \<Longrightarrow> kd_folder k = ''cloud-import-backups''"
    and Z: "\<And>n. aged now k shelf n \<Longrightarrow> n \<notin> set kept \<Longrightarrow> (kd_folder k, n) \<in> Z"
    and Q: "\<And>r t. inside c Z (W \<union> {(kd_folder k, n) | n. aged now k shelf n \<and> n \<notin> set kept}) s0 t \<Longrightarrow> Q r t"
    and E: "\<And>e t. inside c Z W s0 t \<Longrightarrow> \<not> (c \<and> length shelf \<le> 100000) \<Longrightarrow> E e t"
  shows "wp (prune_kind D now kept k shelf) Q E s"
proof -
  let ?es = "List.enumerate 0 (rev (sort (entries_of k shelf)))"
  let ?gone = "\<lambda>xs. (\<lambda>(_, _, n). (kd_folder k, n)) ` set (filter (doomed now kept) xs)"
  have all: "?gone ?es = {(kd_folder k, n) | n. aged now k shelf n \<and> n \<notin> set kept}"
    using doomed_aged [OF assms(2), of now kept k] by auto (force simp: image_iff)+
  have loop: "wp (efor (prune_entry D now kept k) ?es 0) (\<lambda>_. inside c Z (W \<union> ?gone ?es) s0) (\<lambda>_ _. False) t"
    if "inside c Z W s0 t" for t
  proof (rule wp_efor_step [where I = "\<lambda>ys _ _. inside c Z (W \<union> ?gone ys) s0"])
    show "inside c Z (W \<union> ?gone []) s0 t" using that by simp
  next
    fix ys x zs a u assume ys: "?es = ys @ x # zs" and u: "inside c Z (W \<union> ?gone ys) s0 u"
    obtain i since n where x: "x = (i, since, n)" by (cases x)
    show "wp (prune_entry D now kept k x a) (\<lambda>_. inside c Z (W \<union> ?gone (ys @ [x])) s0) (\<lambda>_ _. False) u"
    proof (cases "doomed now kept x")
      case False
      then have "prune_entry D now kept k x a = eret a" by (auto simp: doomed_def prune_entry_def x)
      with False u show ?thesis by (simp add: wp_eret)
    next
      case True
      then have "n \<in> (\<lambda>(_, _, n). n) ` set (filter (doomed now kept) ?es)" by (force simp: ys x)
      then have z: "(kd_folder k, n) \<in> Z" unfolding doomed_aged [OF assms(2)] by (auto intro: Z)
      have w: "W \<union> ?gone (ys @ [x]) = insert (kd_folder k, n) (W \<union> ?gone ys)"
        using True by (simp add: x)
      show ?thesis
        using True unfolding w
        by (simp add: x doomed_def prune_entry_def wp_simps)
          (rule wp_remove [OF u z assms(3)], auto simp: wp_eret inside_def doomed_def)
    qed
  qed
  have "wp (efor (prune_entry D now kept k) ?es 0) (\<lambda>r t. wp (if 0 < r then hio io else eret ()) (\<lambda>_. Q r) E t) E t"
    if "inside c Z W s0 t" for t
  proof (rule wp_mono [OF loop [OF that]])
    fix r u assume u: "inside c Z (W \<union> ?gone ?es) s0 u"
    have less: "inside c Z W s0 v" if "inside c Z (W \<union> ?gone ?es) s0 v" for v
      using that by (simp add: inside_def)
    show "wp (if 0 < r then hio io else eret ()) (\<lambda>_. Q r) E u"
    proof (cases "0 < r")
      case True
      have "wp (hio io) (\<lambda>_. Q r) E u"
        by (rule inside_io [OF u]) (rule Q, simp only: all, rule E, erule less, simp)
      with True show ?thesis by simp
    next
      case False
      have "Q r u" by (rule Q, rule u [unfolded all])
      with False show ?thesis by (simp add: wp_eret)
    qed
  qed simp
  then have "wp (efor (list_entry k) shelf []) (\<lambda>es. wp (efor (prune_entry D now kept k) (List.enumerate 0 (rev (sort es))) 0)
      (\<lambda>r t. wp (if 0 < r then hio io else eret ()) (\<lambda>_. Q r) E t) E) E t" if "inside c Z W s0 t" for t
    using that by (intro wp_list [OF that]) (auto intro: E)
  then show ?thesis
    unfolding prune_kind_def wp_eseq wp_ebind names_of_def wp_hneed wp_eret
    by (intro inside_io [OF assms(1)]) (auto intro: E)
qed

section \<open>A run\<close>

lemma keeps_hio [keeps_intros]: "(\<And>s d. v (s\<lparr>hs_disk := d\<rparr>) = v s) \<Longrightarrow> keeps v (hio m)"
  by (simp add: keeps_def hio_def split: prod.split)

lemma other_shelves:
  assumes "g \<noteq> kd_folder k"
  shows "keeps (\<lambda>s. bt_get (shelves s) g) (prune_kind D now kept k shelf)"
proof -
  have [keeps_intros]: "keeps (\<lambda>s. bt_get (shelves s) g) (emod (drop_entry (kd_folder k) n))" for n
    using assms by (intro keeps_emod) (simp add: drop_entry_def bt_get_at)
  have [keeps_intros]: "keeps (\<lambda>s. bt_get (shelves s) g) (emod (break_entry D (kd_folder k) n))" for n
    by (intro keeps_emod) (simp add: break_entry_def)
  have [keeps_intros]: "keeps (\<lambda>s. bt_get (shelves s) g) (hneed b m)" for b m
    unfolding hneed_def by (intro keeps_intros)
  have [keeps_intros]: "keeps (\<lambda>s. bt_get (shelves s) g) (prune_entry D now kept k x a)" for x a
    unfolding prune_entry_def remove_entry_def remove_tree_def remove_receipt_def
    by (cases x) (simp only: prod.case, intro keeps_intros, simp_all)
  have [keeps_intros]: "keeps (\<lambda>s. bt_get (shelves s) g) (list_entry k x a)" for x a
    unfolding list_entry_def by (cases x) (simp only: prod.case, intro keeps_intros, simp_all)
  show ?thesis
    unfolding prune_kind_def names_of_def by (intro keeps_intros, simp_all)
qed

text \<open>What a run may remove: entries that are old enough, not held, and named by no record.\<close>

definition unkept :: "nat \<Rightarrow> string list \<Rightarrow> history \<Rightarrow> (string \<times> string) set" where
  "unkept now held s = {(kd_folder k, n) | k n shelf. k \<in> set kinds \<and> bt_get (shelves s) (kd_folder k) = Some shelf \<and>
     aged now k shelf n \<and> n \<notin> set held \<and> n \<notin> named_by (records_of s)}"

lemma kinds_sealed: "k \<in> set kinds \<Longrightarrow> kd_sealed k \<Longrightarrow> kd_folder k = ''cloud-import-backups''"
  by (auto simp: kinds_def)

lemma kinds_split: "kinds = ks @ k # ls \<Longrightarrow> j \<in> set ls \<Longrightarrow> kd_folder j \<noteq> kd_folder k"
proof -
  assume a: "kinds = ks @ k # ls" "j \<in> set ls"
  have "distinct (map kd_folder kinds)" by (simp add: kinds_def)
  with a show ?thesis by (metis distinct.simps(2) distinct_append image_eqI list.set_map list.simps(9) map_append)
qed

definition chosen :: "nat \<Rightarrow> string list \<Rightarrow> history \<Rightarrow> kind \<Rightarrow> (string \<times> string) set" where
  "chosen now kept s k = {(kd_folder k, n) | n. \<exists>shelf. bt_get (shelves s) (kd_folder k) = Some shelf \<and>
     aged now k shelf n \<and> n \<notin> set kept}"

lemma wp_prune_shelf:
  assumes "inside c Z W s0 s" "k \<in> set kinds" "chosen now kept s0 k \<subseteq> Z"
    and ok: "\<And>f m. bt_get (shelves s0) f = Some m \<Longrightarrow> bt_ok m"
    and same: "bt_get (shelves s) (kd_folder k) = bt_get (shelves s0) (kd_folder k)"
    and Q: "\<And>r t. inside c Z (W \<union> chosen now kept s0 k) s0 t \<Longrightarrow> Q r t"
    and E: "\<And>e t. inside c Z W s0 t \<Longrightarrow> \<not> (c \<and> \<not> crowded s0) \<Longrightarrow> E e t"
  shows "wp (prune_shelf D now kept k a) Q E s"
proof -
  have keep: "wp (hio io) Q' E s" if "\<And>t. inside c Z W s0 t \<Longrightarrow> bt_get (shelves t) (kd_folder k) = bt_get (shelves s0) (kd_folder k) \<Longrightarrow> Q' () t"
      "inside c Z W s0 s" "bt_get (shelves s) (kd_folder k) = bt_get (shelves s0) (kd_folder k)" for Q' s
    by (rule unread_io [OF inside_start [OF that(2)]])
      (auto intro!: that(1) E inside_unread [OF that(2)] simp: unread_sel(4) that(3))
  show ?thesis
  proof (cases "bt_get (shelves s0) (kd_folder k)")
    case None
    then have "chosen now kept s0 k = {}" by (simp add: chosen_def)
    then show ?thesis
      unfolding prune_shelf_def wp_eseq wp_ebind wp_eget
      by (intro keep assms(1) same) (use None Q in \<open>auto simp: wp_eret\<close>)
  next
    case (Some shelf)
    have c: "chosen now kept s0 k = {(kd_folder k, n) | n. aged now k shelf n \<and> n \<notin> set kept}"
      by (simp add: chosen_def Some)
    have big: "100000 < length shelf \<Longrightarrow> crowded s0" using Some by (auto simp: crowded_def)
    have less: "inside c Z W s0 t" if "inside c Z (W \<union> chosen now kept s0 k) s0 t" for t
      using that by (simp add: inside_def)
    have "wp (prune_kind D now kept k shelf) (\<lambda>n. wp (hio io) (\<lambda>_. Q (a @ [n])) E) E t" if "inside c Z W s0 t" for t
      by (rule wp_prune_kind [OF that ok [OF Some] kinds_sealed [OF assms(2)]])
        (use assms(3) c big in \<open>auto intro!: Q E less inside_io simp: not_le\<close>)
    then have "wp (hio io) (\<lambda>_. wp (prune_kind D now kept k shelf) (\<lambda>n. wp (hio io) (\<lambda>_. Q (a @ [n])) E) E) E t"
      if "inside c Z W s0 t" for t
      by (intro inside_io [OF that]) (auto intro: E)
    then show ?thesis
      unfolding prune_shelf_def wp_eseq wp_ebind wp_eget
      by (intro keep assms(1) same) (use Some in \<open>simp_all add: wp_points\<close>)
  qed
qed

lemma other_prune:
  "g \<noteq> kd_folder k \<Longrightarrow> keeps (\<lambda>s. bt_get (shelves s) g) (prune_shelf D now kept k a)"
  unfolding prune_shelf_def by (intro keeps_intros other_shelves) simp_all

lemma wp_prune_shelves:
  assumes "inside c Z {} s s" "\<And>f m. bt_get (shelves s) f = Some m \<Longrightarrow> bt_ok m"
    and Z: "\<And>k. k \<in> set kinds \<Longrightarrow> chosen now kept s k \<subseteq> Z"
    and u: "inside c Z {} s u" "shelves u = shelves s"
    and Q: "\<And>r t. inside c Z (\<Union>k \<in> set kinds. chosen now kept s k) s t \<Longrightarrow> Q r t"
    and E: "\<And>e t. inside c Z {} s t \<Longrightarrow> \<not> (c \<and> \<not> crowded s) \<Longrightarrow> E e t"
  shows "wp (efor (prune_shelf D now kept) kinds a) Q E u"
proof -
  let ?W = "\<lambda>ks. \<Union>k \<in> set ks. chosen now kept s k"
  let ?same = "\<lambda>(ks :: kind list) (t :: history). map (\<lambda>j. bt_get (shelves t) (kd_folder j)) ks = map (\<lambda>j. bt_get (shelves s) (kd_folder j)) ks"
  have "wp (efor (prune_shelf D now kept) kinds a) (\<lambda>_ t. inside c Z (?W kinds) s t \<and> ?same [] t) E u"
  proof (rule wp_efor_step [where I = "\<lambda>ys zs _ t. inside c Z (?W ys) s t \<and> ?same zs t"])
    show "inside c Z (?W []) s u \<and> ?same kinds u" using u by simp
  next
    fix ks k ls b t assume k: "kinds = ks @ k # ls" and t: "inside c Z (?W ks) s t \<and> ?same (k # ls) t"
    have kin: "k \<in> set kinds" by (simp add: k)
    have "keeps (\<lambda>t. map (\<lambda>j. bt_get (shelves t) (kd_folder j)) ls) (prune_shelf D now kept k b)"
      using other_prune kinds_split [OF k] by (auto simp: keeps_def)
    then have a: "wp (prune_shelf D now kept k b) (\<lambda>_. ?same ls) (\<lambda>_ _. True) t"
      by (rule wp_keeps) (use t in auto)
    have "inside c Z {} s v" if "inside c Z (?W ks) s v" for v using that by (simp add: inside_def)
    then have b: "wp (prune_shelf D now kept k b) (\<lambda>_. inside c Z (?W ks \<union> chosen now kept s k) s) E t"
      by (intro wp_prune_shelf [OF _ kin Z [OF kin] assms(2)]) (use t E in auto)
    show "wp (prune_shelf D now kept k b) (\<lambda>_ t. inside c Z (?W (ks @ [k])) s t \<and> ?same ls t) E t"
      by (rule wp_mono [OF wp_conj [OF b a]]) (auto simp: Un_commute)
  qed
  then show ?thesis by (rule wp_mono) (auto intro: Q)
qed

lemma wp_prune:
  assumes calm: "c \<Longrightarrow> calm (hs_disk s)" and ok: "\<And>f m. bt_get (shelves s) f = Some m \<Longrightarrow> bt_ok m"
    and Q: "\<And>r t. all_read (records_of s) \<Longrightarrow> inside c (unkept now held s) (unkept now held s) s t \<Longrightarrow> Q r t"
    and E: "\<And>e t. agree (if all_read (records_of s) then unkept now held s else {}) s t \<Longrightarrow>
      \<not> plain c s (records_of s) \<Longrightarrow> E e t"
  shows "wp (prune D now held) Q E s"
proof -
  let ?U = "unkept now held s"
  have start: "inside c Z {} s s" for Z using calm by (simp add: inside_def)
  have loop: "wp (efor (prune_shelf D now (found @ held)) kinds []) (\<lambda>r. wp (hio check_lease) (\<lambda>_. wp (hio io) (\<lambda>_. Q r) E) E) E t"
    if t: "unread c s t" and found: "gathers c (records_of s) [] found" for found t
  proof -
    have lower: "named_by (records_of s) \<subseteq> set found"
      using found unfolding gathers_def named_by_def by fastforce
    then have Z: "chosen now (found @ held) s k \<subseteq> ?U" if "k \<in> set kinds" for k
      using that unfolding chosen_def unkept_def by auto
    have all: "c \<Longrightarrow> ?U \<subseteq> (\<Union>k \<in> set kinds. chosen now (found @ held) s k)"
    proof -
      assume c
      then have "set found \<subseteq> named_by (records_of s)" using found by (simp add: gathers_def)
      then show ?thesis unfolding chosen_def unkept_def by (clarsimp, blast)
    qed
    have E': "E e v" if "inside c ?U W s v" "\<not> (c \<and> \<not> crowded s)" for e v W
      using that gathers_read [OF found] by (intro E) (auto simp: inside_def plain_def)
    have last: "wp (hio check_lease) (\<lambda>_. wp (hio io) (\<lambda>_. Q r) E) E v"
      if "inside c ?U (\<Union>k \<in> set kinds. chosen now (found @ held) s k) s v" for r v
    proof -
      have "inside c ?U ?U s v" by (rule inside_mono [OF that all])
      then show ?thesis by (intro inside_lease inside_io) (auto intro: Q gathers_read [OF found] E')
    qed
    show ?thesis
      by (rule wp_prune_shelves [OF start ok Z inside_unread [OF start t] unread_sel(4) [OF t]])
        (auto intro: last E')
  qed
  have early: "E e t" if "unread c s t" "\<not> plain c s (records_of s)" for e t
    using that(2) by (rule E [OF unread_agree [OF that(1)]])
  have never: "\<not> c \<Longrightarrow> \<not> plain c s fs" for fs by (simp add: plain_def)
  have "unread c s s" using calm by (rule unread_refl)
  then show ?thesis
    unfolding prune_def wp_eseq wp_ebind wp_points
    by (intro unread_io unread_lease wp_referenced) (auto intro: loop early never)
qed

end
