(* ===== verification/HistoryOutcomes.thy ===== *)
theory HistoryOutcomes
  imports HistoryRetention
begin

text \<open>
  The properties of the retention: what the search for references finds, that a run keeps what is
  new, recent or referred to whatever its system calls do, that an undisturbed run removes exactly
  the rest, and that a pending session survives it.
\<close>

lemma agreeD:
  assumes "agree Z s t"
  shows "(f, n) \<notin> Z \<Longrightarrow> listed t f n = listed s f n"
    "(''cloud-saves'', n) \<notin> Z \<Longrightarrow> bt_get (snapshots (hs_disk t)) n = bt_get (snapshots (hs_disk s)) n"
    "(''cloud-import-backups'', n) \<notin> Z \<Longrightarrow> bt_get (backups (hs_disk t)) n = bt_get (backups (hs_disk s)) n"
    "journal (hs_disk t) = journal (hs_disk s)"
proof -
  have e: "aside t = aside s" using assms by (simp add: agree_def)
  show "journal (hs_disk t) = journal (hs_disk s)"
    using arg_cong [OF e, of "journal \<circ> hs_disk"] by (simp add: aside_def idle_def)
qed (use assms in \<open>simp_all add: agree_def\<close>)

text \<open>What a run may change: nothing at all if a record cannot be read.\<close>

definition removable :: "nat \<Rightarrow> string list \<Rightarrow> history \<Rightarrow> (string \<times> string) set" where
  "removable now held s = (if all_read (records_of s) then unkept now held s else {})"

text \<open>A listing has each name once.\<close>

definition shelves_ok :: "history \<Rightarrow> bool" where
  "shelves_ok s \<longleftrightarrow> list_all (\<lambda>(_, m). bt_ok m) (shelves s)"

lemma shelves_okD: "shelves_ok s \<Longrightarrow> bt_get (shelves s) f = Some m \<Longrightarrow> bt_ok m"
  by (auto simp: shelves_ok_def list_all_iff bt_get_def dest!: map_of_SomeD)

lemma prune_agrees:
  assumes "shelves_ok s" "prune D now held s = (r, t)"
  shows "agree (removable now held s) s t"
proof -
  have "wp (prune D now held) (\<lambda>_. agree (removable now held s) s) (\<lambda>_. agree (removable now held s) s) s"
    by (rule wp_prune [of "calm (hs_disk s)"]) (use shelves_okD [OF assms(1)] in \<open>auto simp: inside_def removable_def\<close>)
  with assms(2) show ?thesis by (cases r) (auto simp: wp_def)
qed

text \<open>C38. The search of a record adds exactly the identifiers that stand anywhere in its bytes: a snapshot or backup
  prefix with thirty-two lower case hexadecimal digits. Nothing is missed by the jump past a prefix,
  although the loop never looks at a position twice.\<close>

theorem references_exact: "set (references b found) = set found \<union> named_in b"
  by (rule set_references)

text \<open>C35. Whatever the system calls of a run do, the run only changes entries that twenty newer ones of their
  folder follow, that are older than thirty days, that are not held and that no record names; and it
  changes nothing when one of these records cannot be read. The records are those of the snapshot cache
  and of the sessions, the pending file, and the baseline of each folder of saves but of those whose
  metadata cannot be read, which the code passes over.\<close>

theorem prune_keeps:
  assumes "shelves_ok s" "prune D now held s = (r, t)"
  shows "agree (removable now held s) s t"
  by (rule prune_agrees [OF assms])

text \<open>C36. An undisturbed run over readable records returns and removes exactly those entries.\<close>

theorem prune_exact:
  assumes "shelves_ok s" "calm (hs_disk s)" "all_read (records_of s)" "\<not> crowded s"
  shows "\<exists>r t. prune D now held s = (Inr r, t) \<and>
    (\<forall>f n. listed t f n = (if (f, n) \<in> unkept now held s then None else listed s f n))"
proof -
  have "wp (prune D now held) (\<lambda>_. inside True (unkept now held s) (unkept now held s) s) (\<lambda>_ _. False) s"
    by (rule wp_prune [of True]) (use assms shelves_okD [OF assms(1)] in \<open>auto simp: plain_def\<close>)
  then obtain r t where t: "prune D now held s = (Inr r, t)" "inside True (unkept now held s) (unkept now held s) s t"
    by (auto simp: wp_def split: prod.splits sum.splits)
  then have "listed t f n = (if (f, n) \<in> unkept now held s then None else listed s f n)" for f n
    using agreeD(1) [of "unkept now held s" s t f n] by (auto simp: inside_def)
  with t(1) show ?thesis by blast
qed

section \<open>Sessions\<close>

definition session_ids :: "session \<Rightarrow> string list" where
  "session_ids r = [rf_id (ss_snapshot r), ss_initial_backup r, ss_target_backup r] @
     (case ss_confirmed r of None \<Rightarrow> [] | Some n \<Rightarrow> [n])"

text \<open>The text of a session's record has its identifiers in it as they are.\<close>

definition session_written :: "history \<Rightarrow> bool" where
  "session_written s \<longleftrightarrow> (case journal (hs_disk s) of Some (Parsed r) \<Rightarrow>
      list_ex (\<lambda>f. case f of None \<Rightarrow> False | Some b \<Rightarrow> list_all (\<lambda>n. sublist (bytes_of n) b) (session_ids r))
        (files_in s ''cloud-sessions'')
    | _ \<Rightarrow> True)"

lemma session_ids_valid:
  assumes "session_ok K runtime b ns r d" "n \<in> set (session_ids r)"
  shows "\<exists>p \<in> {''snapshot-'', ''backup-''}. cloud_identifier n p"
proof -
  have read: "read_backup K b ns n f = Inr bd \<Longrightarrow> cloud_identifier n ''backup-''" for n f bd
    by (auto simp: read_backup_def result_simps)
  show ?thesis
    using assms read
    by (auto simp: session_ids_def session_ok_def session_form_def initial_ok_def target_ok_def confirmed_ok_def split: option.splits)
qed

lemma session_ok_same:
  assumes "session_ok K runtime b ns r d" "\<And>n. n \<in> set (session_ids r) \<Longrightarrow> bt_get (snapshots e) n = bt_get (snapshots d) n"
    "\<And>n. n \<in> set (session_ids r) \<Longrightarrow> bt_get (backups e) n = bt_get (backups d) n"
  shows "session_ok K runtime b ns r e"
  using assms
  by (auto simp: session_ids_def session_ok_def remote_ok_def initial_ok_def target_ok_def confirmed_ok_def split: option.splits)

text \<open>C37. A session that is pending is whole after a run, whatever the run's system calls do: its record is unchanged
  and the snapshot and the backups it names are still the ones it was checked against, so that it
  can be loaded and taken up again.\<close>

theorem prune_keeps_session:
  assumes "shelves_ok s" "prune D now held s = (x, t)"
    and "journal_sound K runtime sc (hs_disk s)" "session_written s"
  shows "journal (hs_disk t) = journal (hs_disk s) \<and> journal_sound K runtime sc (hs_disk t)"
proof -
  note agree = prune_agrees [OF assms(1,2)]
  show ?thesis
  proof (cases "journal (hs_disk s)")
    case None
    then show ?thesis using agreeD(4) [OF agree] by (simp add: journal_sound_def)
  next
    case (Some f)
    then obtain r where r: "journal (hs_disk s) = Some (Parsed r)"
      using assms(3) by (cases f) (auto simp: journal_sound_def)
    obtain ns where ns: "scope_namespace (sha K) (uuid_of K) sc = Inr ns"
        "session_ok K runtime (scope_binding (sha K) sc) ns r (hs_disk s)"
      using assms(3) journal_sound_parsed [OF r] by blast
    obtain b where b: "Some b \<in> set (files_in s ''cloud-sessions'')" "\<forall>n \<in> set (session_ids r). sublist (bytes_of n) b"
      using assms(4) by (auto simp: session_written_def r list_ex_iff list_all_iff split: option.splits)
    then have "n \<in> named_by (records_of s)" if "n \<in> set (session_ids r)" for n
      using that session_ids_valid [OF ns(2) that] by (auto simp: records_of_def named_by_def named_in_def)
    then have "(g, n) \<notin> removable now held s" if "n \<in> set (session_ids r)" for g n
      using that by (auto simp: removable_def unkept_def)
    then have "session_ok K runtime (scope_binding (sha K) sc) ns r (hs_disk t)"
      by (intro session_ok_same [OF ns(2)] agreeD(2,3) [OF agree])
    then show ?thesis using agreeD(4) [OF agree] r ns(1) by (simp add: journal_sound_def)
  qed
qed

section \<open>Examples\<close>

definition old_backup :: "nat \<Rightarrow> string" where
  "old_backup i = ''backup-'' @ replicate 30 (CHR ''0'') @ [char_of (48 + i div 10), char_of (48 + i mod 10)]"

text \<open>Twenty-one backups, a second apart, in a runtime with one local save whose baseline is the oldest.\<close>

definition old_shelf :: "(string, entry_meta) btree" where
  "old_shelf = map (\<lambda>i. (old_backup i, \<lparr>en_dir = True, en_own = True, en_mtime = int i\<rparr>)) [0..<21]"

definition old_archive :: "session store \<Rightarrow> bool option \<Rightarrow> u8 list option \<Rightarrow> u8 list \<Rightarrow> history" where
  "old_archive d meta baseline b = \<lparr>hs_disk = d, shelves = [(''cloud-import-backups'', old_shelf)],
     record_files = [(''cloud-sessions'', [(''record.json'', Some b)])],
     save_folders = Some [(''aa'', meta, baseline)], pending_file = None, receipts_there = False\<rparr>"

definition harmless :: damage where
  "harmless = \<lparr>broken_snapshot = id, broken_backup = id\<rparr>"

definition later :: nat where
  "later = 100 * 24 * 3600 * 1000000000"

lemma old_goes: "fst (prune harmless later [] (old_archive trial_disk (Some True) None [])) = Inr [0, 0, 1]"
  by code_simp

lemma old_stays: "fst (prune harmless later [] (old_archive trial_disk (Some True) (Some (bytes_of (old_backup 0))) [])) = Inr [0, 0, 0]"
  by code_simp

lemma old_shelf_ok: "bt_ok old_shelf" "length old_shelf \<le> 100000"
  by code_simp+

lemma old_archive_ok: "shelves_ok (old_archive d q p b)"
  by (simp add: shelves_ok_def old_archive_def old_shelf_ok)

lemma aged_code [code]: "aged now k shelf n \<longleftrightarrow> list_ex (\<lambda>(since, m). m = n \<and>
    KEPT \<le> newer (entries_of k shelf) (since, n) \<and> \<not> recent now since) (entries_of k shelf)"
  by (auto simp: aged_def list_ex_iff)

lemma old_aged: "aged later (kinds ! 2) old_shelf (old_backup 0)"
  by code_simp

lemma prune_keeps_witness:
  "listed (snd (prune harmless later [old_backup 0] (old_archive (trial_disk\<lparr>io_script := [Fine, Fine, Refused local_failure]\<rparr>) (Some True) None [])))
     ''cloud-import-backups'' (old_backup 0) \<noteq> None"
proof -
  let ?s = "old_archive (trial_disk\<lparr>io_script := [Fine, Fine, Refused local_failure]\<rparr>) (Some True) None []"
  obtain r t where t: "prune harmless later [old_backup 0] ?s = (r, t)" by (rule prod.exhaust)
  have "agree (removable later [old_backup 0] ?s) ?s t"
    by (rule prune_keeps [OF old_archive_ok t])
  moreover have "(''cloud-import-backups'', old_backup 0) \<notin> removable later [old_backup 0] ?s"
    by (auto simp: removable_def unkept_def)
  moreover have "listed ?s ''cloud-import-backups'' (old_backup 0) \<noteq> None" by code_simp
  ultimately show ?thesis using t agreeD(1) by simp
qed

lemma nothing_named: "named_in [] = {}"
proof -
  have "bytes_of n = [] \<Longrightarrow> \<not> cloud_identifier n p" for n p
    by (auto simp: bytes_of_def cloud_identifier_iff)
  then show ?thesis by (fastforce simp: named_in_def)
qed

lemma prune_exact_witness:
  "\<exists>r t. prune harmless later [] (old_archive trial_disk (Some True) None []) = (Inr r, t) \<and>
     listed t ''cloud-import-backups'' (old_backup 0) = None"
proof -
  let ?s = "old_archive trial_disk (Some True) None []"
  have read: "all_read (records_of ?s)"
    by (simp add: all_read_def records_of_def files_in_def file_of_def baseline_of_def old_archive_def bt_get_def)
  have free: "\<not> crowded ?s"
    using old_shelf_ok(2) by (auto simp: crowded_def old_archive_def bt_get_def split: if_splits)
  have "named_by (records_of ?s) = named_in []"
    by (simp add: named_by_def records_of_def files_in_def file_of_def baseline_of_def old_archive_def bt_get_def)
  then have "named_by (records_of ?s) = {}" by (simp only: nothing_named)
  moreover have "kd_folder (kinds ! 2) = ''cloud-import-backups''" "kinds ! 2 \<in> set kinds" by (simp_all add: kinds_def)
  moreover have "bt_get (shelves ?s) ''cloud-import-backups'' = Some old_shelf" by (simp add: old_archive_def bt_get_def)
  ultimately have gone: "(''cloud-import-backups'', old_backup 0) \<in> unkept later [] ?s"
    using old_aged unfolding unkept_def
    by (intro CollectI exI [of _ "kinds ! 2"] exI [of _ "old_backup 0"] exI [of _ old_shelf]) simp
  have calm: "calm (hs_disk ?s)" by (simp add: old_archive_def trial_disk_def calm_def)
  from prune_exact [where D = harmless and now = later and held = "[]", OF old_archive_ok calm read free] obtain r t where
    "prune harmless later [] ?s = (Inr r, t)"
    "\<forall>f n. listed t f n = (if (f, n) \<in> unkept later [] ?s then None else listed ?s f n)"
    by blast
  with gone show ?thesis by auto
qed

lemma prune_keeps_session_witness:
  "\<exists>r. journal (snd trial_begin) = Some (Parsed r) \<and>
     journal_sound trial_kit [] trial_scope (hs_disk (snd (prune harmless later []
       (old_archive (snd trial_begin) (Some True) None (concat (map bytes_of (session_ids r)))))))"
proof -
  obtain r where r: "journal (snd trial_begin) = Some (Parsed r)" using trial_record by blast
  let ?s = "old_archive (snd trial_begin) (Some True) None (concat (map bytes_of (session_ids r)))"
  obtain x t where t: "prune harmless later [] ?s = (x, t)" by (rule prod.exhaust)
  have disk: "hs_disk ?s = snd trial_begin" by (simp add: old_archive_def)
  have "sublist (bytes_of n) (concat (map bytes_of ns))" if "n \<in> set ns" for n ns
    using that by (auto dest!: split_list intro: sublist_appendI)
  then have "session_written ?s"
    by (simp add: session_written_def disk r files_in_def list_all_iff) (simp add: old_archive_def bt_get_def)
  moreover have "journal_sound trial_kit [] trial_scope (hs_disk ?s)"
    using run_sound [OF trial_history(3) trial_sound(1) trial_history(1) fresh_sound [OF trial_history(2)]] by (simp add: disk)
  ultimately show ?thesis
    using prune_keeps_session [OF old_archive_ok t] r t by auto
qed

text \<open>A folder of saves whose metadata cannot be read is passed over with its baseline: the backup it names goes.\<close>

lemma baseline_passed_over:
  "fst (prune harmless later [] (old_archive trial_disk None (Some (bytes_of (old_backup 0))) [])) = Inr [0, 0, 1]"
  by code_simp

end
