(* ===== verification/CloudPipe.thy ===== *)
theory CloudPipe
  imports CloudClient
begin

text \<open>
  \<^verbatim>\<open>native/cloud_pipe.rs\<close>: the framing over the pipes of the authenticated helper. The system is
  what its calls answer, by the number of the call; the channel is what went through the two pipes.
  A loop that the answers of the system can keep running for ever is a partial function, and \<open>None\<close>
  is the run that does not end.
\<close>

definition MAX_PIPE_FRAME :: nat where
  "MAX_PIPE_FRAME = 256 * 1024"

definition helper_error :: "json \<Rightarrow> failure" where
  "helper_error answer =
     (let st = Option.bind (as_u64 (jget answer ''http_status'')) (\<lambda>v. if 100 \<le> v \<and> v \<le> 599 then Some v else None);
          hr = Option.bind (as_u64 (jget answer ''hresult'')) (\<lambda>v. if v < 4294967296 then Some v else None);
          reason = jget answer ''error'';
          c = (if st \<in> {Some 401, Some 403} then ''authentication''
            else if hr \<in> {Some 0x800705B4, Some 0x80072EE2, Some 0x8007274C} \<or> st \<in> {Some 408, Some 504} then ''deadline''
            else if hr \<in> {Some 0x800703E3, Some 0x80072EE7, Some 0x80072EFD, Some 0x80072EFE, Some 0x80072F8F} \<or>
                (case st of None \<Rightarrow> False | Some v \<Rightarrow> v = 429 \<or> 500 \<le> v) then ''transport''
            else if reason = JStr ''authentication'' then ''authentication''
            else if reason = JStr ''title_binding'' then ''invalid_scope''
            else ''transport'')
      in (Failure c)\<lparr>http_status := map_option word_of_nat st, native_hresult := map_option word_of_nat hr\<rparr>)"

section \<open>System and channel\<close>

datatype poll_answer = Idle | Ready | Poll_interrupted | Poll_failed

text \<open>\<^verbatim>\<open>WOULDBLOCK\<close> and \<^verbatim>\<open>INTR\<close> are one answer: both try again.\<close>

datatype write_answer = Wrote nat | Write_again | Write_failed

datatype read_answer = Got "u8 list" | Read_again | Read_failed

datatype exit_answer = Running | Exited | Wait_failed failure

record system =
  clock :: "nat \<Rightarrow> nat"
  cancelled_at :: "nat \<Rightarrow> bool"
  poll_at :: "nat \<Rightarrow> bool \<Rightarrow> nat \<Rightarrow> poll_answer"
  write_at :: "nat \<Rightarrow> write_answer"
  read_at :: "nat \<Rightarrow> read_answer"
  exit_at :: "nat \<Rightarrow> exit_answer"
  terminate_at :: "nat \<Rightarrow> failure + unit"

record channel =
  tick :: nat
  sent :: "u8 list"
  taken :: "u8 list"

type_synonym 'a channel_act = "channel \<Rightarrow> ((failure + 'a) \<times> channel) option"

definition pbind :: "'a channel_act \<Rightarrow> ('a \<Rightarrow> 'b channel_act) \<Rightarrow> 'b channel_act" where
  "pbind m f w = Option.bind (m w) (\<lambda>(r, w). case r of Inl e \<Rightarrow> Some (Inl e, w) | Inr a \<Rightarrow> f a w)"

definition pret :: "'a \<Rightarrow> 'a channel_act" where
  "pret a w = Some (Inr a, w)"

definition plift :: "failure + 'a \<Rightarrow> 'a channel_act" where
  "plift r w = Some (r, w)"

definition pnow :: "system \<Rightarrow> nat channel_act" where
  "pnow S w = Some (Inr (clock S (tick w)), w\<lparr>tick := Suc (tick w)\<rparr>)"

definition pcheck :: "system \<Rightarrow> unit channel_act" where
  "pcheck S w = Some (cloud_check (cancelled_at S (tick w)), w\<lparr>tick := Suc (tick w)\<rparr>)"

section \<open>Waiting, writing, reading\<close>

partial_function (option) ready ::
  "system \<Rightarrow> bool \<Rightarrow> nat \<Rightarrow> bool \<Rightarrow> channel \<Rightarrow> ((failure + unit) \<times> channel) option" where
  "ready S writing until clean w =
     (let i = tick w; w = w\<lparr>tick := Suc i\<rparr> in
      if \<not> clean \<and> cancelled_at S i then Some (Inl (Failure ''cancelled''), w)
      else if until \<le> clock S i then Some (Inl (Failure ''deadline''), w)
      else (case poll_at S i writing (min (until - clock S i) 100000000) of
          Idle \<Rightarrow> ready S writing until clean w
        | Ready \<Rightarrow> Some (Inr (), w)
        | Poll_interrupted \<Rightarrow> ready S writing until clean w
        | Poll_failed \<Rightarrow> Some (Inl (Failure ''transport''), w)))"

partial_function (option) write_all ::
  "system \<Rightarrow> nat \<Rightarrow> bool \<Rightarrow> u8 list \<Rightarrow> channel \<Rightarrow> ((failure + unit) \<times> channel) option" where
  "write_all S until clean bytes w =
     (if bytes = [] then Some (Inr (), w)
      else Option.bind (ready S True until clean w) (\<lambda>(r, w).
        case r of Inl e \<Rightarrow> Some (Inl e, w)
        | Inr _ \<Rightarrow>
            let i = tick w; w = w\<lparr>tick := Suc i\<rparr> in
            (case write_at S i of
               Wrote n \<Rightarrow>
                 if min n (length bytes) = 0 then Some (Inl (Failure ''transport''), w)
                 else write_all S until clean (drop n bytes) (w\<lparr>sent := sent w @ take n bytes\<rparr>)
             | Write_again \<Rightarrow> write_all S until clean bytes w
             | Write_failed \<Rightarrow> Some (Inl (Failure ''transport''), w))))"

text \<open>The buffer is what is filled of it and the room that is left.\<close>

partial_function (option) read_all ::
  "system \<Rightarrow> nat \<Rightarrow> bool \<Rightarrow> nat \<Rightarrow> u8 list \<Rightarrow> channel \<Rightarrow> ((failure + u8 list) \<times> channel) option" where
  "read_all S until clean room filled w =
     (if room = 0 then Some (Inr filled, w)
      else Option.bind (ready S False until clean w) (\<lambda>(r, w).
        case r of Inl e \<Rightarrow> Some (Inl e, w)
        | Inr _ \<Rightarrow>
            let i = tick w; w = w\<lparr>tick := Suc i\<rparr> in
            (case read_at S i of
               Got bs \<Rightarrow>
                 if bs = [] then Some (Inl (Failure ''transport''), w)
                 else let got = take room bs in
                   read_all S until clean (room - length got) (filled @ got) (w\<lparr>taken := taken w @ got\<rparr>)
             | Read_again \<Rightarrow> read_all S until clean room filled w
             | Read_failed \<Rightarrow> Some (Inl (Failure ''transport''), w))))"

text \<open>For evaluation.\<close>

declare ready.simps [code] write_all.simps [code] read_all.simps [code]

definition read_exact :: "system \<Rightarrow> nat \<Rightarrow> bool \<Rightarrow> nat \<Rightarrow> u8 list channel_act" where
  "read_exact S until clean n = read_all S until clean n []"

section \<open>The pipe\<close>

record pipe =
  failed_pipe :: bool
  closed_pipe :: bool
  input_open :: bool
  output_open :: bool

text \<open>What serde_json makes of a value and of bytes.\<close>

record codec =
  to_vec :: "json \<Rightarrow> u8 list"
  of_vec :: "u8 list \<Rightarrow> json option"

definition new_pipe :: "(failure + unit) \<Rightarrow> bool \<Rightarrow> bool \<Rightarrow> failure + pipe" where
  "new_pipe flags stdin_there stdout_there =
     rbind (cloud_require stdin_there ''transport'') (\<lambda>_.
     rbind (cloud_require stdout_there ''transport'') (\<lambda>_.
     rbind flags (\<lambda>_.
     Inr \<lparr>failed_pipe = False, closed_pipe = False, input_open = True, output_open = True\<rparr>)))"

definition fail_pipe :: "pipe \<Rightarrow> pipe" where
  "fail_pipe p = p\<lparr>failed_pipe := True\<rparr>"

definition send_request :: "system \<Rightarrow> nat \<Rightarrow> bool \<Rightarrow> u8 list \<Rightarrow> u8 list \<Rightarrow> unit channel_act" where
  "send_request S until clean payload content =
     pbind (write_all S until clean (le32 (word_of_nat (length payload)))) (\<lambda>_.
     pbind (write_all S until clean payload) (\<lambda>_.
     write_all S until clean content))"

definition take_answer :: "system \<Rightarrow> codec \<Rightarrow> nat \<Rightarrow> bool \<Rightarrow> nat \<Rightarrow> (json \<times> u8 list) channel_act" where
  "take_answer S J until clean maximum =
     pbind (read_exact S until clean 4) (\<lambda>head.
     let len = unat (from_le32 head) in
     pbind (plift (cloud_require (0 < len \<and> len \<le> MAX_PIPE_FRAME) ''bounds'')) (\<lambda>_.
     pbind (read_exact S until clean len) (\<lambda>bytes.
     pbind (plift (cloud_json (of_vec J) bytes)) (\<lambda>answer.
     if jget answer ''ok'' \<noteq> JBool True then plift (Inl (helper_error answer))
     else
       pbind (plift (cloud_number (case jfind answer ''body_bytes'' of None \<Rightarrow> jnum 0 | Some v \<Rightarrow> v) maximum)) (\<lambda>size.
       pbind (read_exact S until clean size) (\<lambda>content.
       pret (answer, content)))))))"

definition talk ::
  "system \<Rightarrow> codec \<Rightarrow> pipe \<Rightarrow> json \<Rightarrow> u8 list \<Rightarrow> nat \<Rightarrow> nat \<Rightarrow> bool \<Rightarrow> (json \<times> u8 list) channel_act" where
  "talk S J p request content maximum wait clean =
     (let payload = to_vec J request in
     pbind (plift (cloud_require (length payload \<le> MAX_PIPE_FRAME) ''bounds'')) (\<lambda>_.
     pbind (pnow S) (\<lambda>start.
     let until = start + wait in
     pbind (plift (cloud_require (input_open p) ''transport'')) (\<lambda>_.
     pbind (plift (cloud_require (output_open p) ''transport'')) (\<lambda>_.
     pbind (send_request S until clean payload content) (\<lambda>_.
     take_answer S J until clean maximum))))))"

definition pipe_exchange ::
  "system \<Rightarrow> codec \<Rightarrow> json \<Rightarrow> u8 list \<Rightarrow> nat \<Rightarrow> nat \<Rightarrow> bool \<Rightarrow> pipe \<times> channel \<Rightarrow>
     ((failure + json \<times> u8 list) \<times> pipe \<times> channel) option" where
  "pipe_exchange S J request content maximum wait clean = (\<lambda>(p, w).
     if failed_pipe p \<or> closed_pipe p \<or> wait = 0 then Some (Inl (Failure ''transport''), p, w)
     else Option.bind ((if clean then pret () else pcheck S) w) (\<lambda>(r, w).
       case r of Inl e \<Rightarrow> Some (Inl e, p, w)
       | Inr _ \<Rightarrow>
           Option.bind (talk S J p request content maximum wait clean w) (\<lambda>(r, w).
           Some (r, if is_ok r then p else fail_pipe p, w))))"

text \<open>The wait for the helper to end; between two looks it sleeps.\<close>

partial_function (option) wait_exit :: "system \<Rightarrow> nat \<Rightarrow> channel \<Rightarrow> ((failure + unit) \<times> channel) option" where
  "wait_exit S until w =
     (let i = tick w; w = w\<lparr>tick := Suc i\<rparr> in
      case exit_at S i of Wait_failed f \<Rightarrow> Some (Inl f, w)
      | Exited \<Rightarrow> Some (Inr (), w)
      | Running \<Rightarrow> if clock S i < until then wait_exit S until w else Some (Inr (), w))"

declare wait_exit.simps [code]

definition close_pipe :: "system \<Rightarrow> pipe \<times> channel \<Rightarrow> ((failure + unit) \<times> pipe \<times> channel) option" where
  "close_pipe S = (\<lambda>(p, w).
     if closed_pipe p then Some (Inr (), p, w)
     else let p = p\<lparr>closed_pipe := True, input_open := False\<rparr> in
       Option.bind (pbind (pnow S) (\<lambda>start.
         pbind (wait_exit S (start + 3000000000)) (\<lambda>_ w.
         Some (terminate_at S (tick w), w\<lparr>tick := Suc (tick w)\<rparr>))) w) (\<lambda>(r, w).
       Some (r, if is_ok r then p\<lparr>output_open := False\<rparr> else p, w)))"

end
