(* ===== verification/PipeRules.thy ===== *)
theory PipeRules
  imports CloudPipe
begin

text \<open>
  Runs over the pipes of the helper. On a system whose clock passes every instant each loop ends,
  since a wait that starts after the deadline fails; and what an exchange sends and takes is a whole
  frame or, on a pipe that is failed for good, the beginning of one.
\<close>

section \<open>Loops\<close>

definition clock_passes :: "system \<Rightarrow> bool" where
  "clock_passes S \<longleftrightarrow> (\<forall>i j. i \<le> j \<longrightarrow> clock S i \<le> clock S j) \<and> (\<forall>d. \<exists>i. d \<le> clock S i)"

lemma clock_passesD: "clock_passes S \<Longrightarrow> \<exists>k. \<forall>i \<ge> k. until \<le> clock S i"
  unfolding clock_passes_def by (meson order_trans)

lemma ready_ends:
  assumes "\<forall>i \<ge> k. until \<le> clock S i"
  shows "\<exists>r w'. ready S wr until clean w = Some (r, w') \<and> tick w < tick w' \<and> sent w' = sent w \<and> taken w' = taken w \<and>
    (is_ok r \<longrightarrow> tick w < k)"
proof (induction "k - tick w" arbitrary: w)
  case 0
  then have "until \<le> clock S (tick w)" using assms by simp
  then show ?case by (subst ready.simps) (simp add: Let_def)
next
  case (Suc n)
  let ?w = "w\<lparr>tick := Suc (tick w)\<rparr>"
  have "n = k - tick ?w" using Suc(2) by simp
  from Suc(1) [OF this] have "\<exists>r w'. ready S wr until clean ?w = Some (r, w') \<and> tick w < tick w' \<and> sent w' = sent w \<and>
      taken w' = taken w \<and> (is_ok r \<longrightarrow> tick w < k)"
    by fastforce
  then show ?case
    using Suc(2) by (subst ready.simps) (auto simp: Let_def split: poll_answer.split)
qed

definition writes :: "u8 list \<Rightarrow> channel \<Rightarrow> (failure + 'a) \<Rightarrow> channel \<Rightarrow> bool" where
  "writes bytes w r w' \<longleftrightarrow> taken w' = taken w \<and>
     (\<exists>q. prefix q bytes \<and> sent w' = sent w @ q \<and> (is_ok r \<longrightarrow> q = bytes))"

lemma write_all_ends:
  assumes "\<forall>i \<ge> k. until \<le> clock S i"
  shows "\<exists>r w'. write_all S until clean bytes w = Some (r, w') \<and> writes bytes w r w'"
proof (induction "k - tick w" arbitrary: w bytes rule: less_induct)
  case less
  show ?case
  proof (cases "bytes = []")
    case True
    then show ?thesis by (subst write_all.simps) (simp add: writes_def)
  next
    case False
    obtain r w1 where r: "ready S True until clean w = Some (r, w1)" "tick w < tick w1" "sent w1 = sent w" "taken w1 = taken w"
        "is_ok r \<longrightarrow> tick w < k"
      using ready_ends [OF assms, of True clean w] by blast
    show ?thesis
    proof (cases r)
      case (Inl e)
      with False r show ?thesis by (subst write_all.simps) (auto simp: writes_def)
    next
      case (Inr u)
      have again: "\<exists>r w'. write_all S until clean b v = Some (r, w') \<and> writes b v r w'" if "tick v = Suc (tick w1)" for b v
        using less [of v b] that r(2,5) Inr by auto
      show ?thesis
      proof (cases "write_at S (tick w1)")
        case (Wrote n)
        show ?thesis
        proof (cases "n = 0")
          case True
          with False r Inr Wrote show ?thesis by (subst write_all.simps) (auto simp: writes_def Let_def)
        next
          case n: False
          let ?v = "w1\<lparr>tick := Suc (tick w1), sent := sent w1 @ take n bytes\<rparr>"
          obtain r' w' where w': "write_all S until clean (drop n bytes) ?v = Some (r', w')" "writes (drop n bytes) ?v r' w'"
            using again [of ?v "drop n bytes"] by auto
          then obtain q where q: "prefix q (drop n bytes)" "sent w' = sent w @ take n bytes @ q" "is_ok r' \<longrightarrow> q = drop n bytes"
              "taken w' = taken w"
            using r by (auto simp: writes_def)
          moreover have "prefix (take n bytes @ q) bytes"
            using q(1) same_prefix_prefix [of "take n bytes" q "drop n bytes"] by (simp del: same_prefix_prefix)
          ultimately have "writes bytes w r' w'"
            unfolding writes_def append_take_drop_id by (intro conjI exI [of _ "take n bytes @ q"]) auto
          then show ?thesis using w'(1) False r Inr Wrote n
            by (subst write_all.simps) (auto simp: Let_def min_def split: if_splits)
        qed
      next
        case Write_again
        with False r Inr again [of "w1\<lparr>tick := Suc (tick w1)\<rparr>"] show ?thesis
          by (subst write_all.simps) (auto simp: writes_def Let_def)
      next
        case Write_failed
        with False r Inr show ?thesis by (subst write_all.simps) (auto simp: writes_def Let_def)
      qed
    qed
  qed
qed

definition reads :: "nat \<Rightarrow> u8 list \<Rightarrow> channel \<Rightarrow> (failure + u8 list) \<Rightarrow> channel \<Rightarrow> bool" where
  "reads room filled w r w' \<longleftrightarrow> sent w' = sent w \<and> (\<exists>q. taken w' = taken w @ q \<and>
     (\<forall>bs. r = Inr bs \<longrightarrow> bs = filled @ q \<and> length q = room))"

lemma read_all_ends:
  assumes "\<forall>i \<ge> k. until \<le> clock S i"
  shows "\<exists>r w'. read_all S until clean room filled w = Some (r, w') \<and> reads room filled w r w'"
proof (induction "k - tick w" arbitrary: w room filled rule: less_induct)
  case less
  show ?case
  proof (cases "room = 0")
    case True
    then show ?thesis by (subst read_all.simps) (simp add: reads_def)
  next
    case False
    obtain r w1 where r: "ready S False until clean w = Some (r, w1)" "tick w < tick w1" "sent w1 = sent w" "taken w1 = taken w"
        "is_ok r \<longrightarrow> tick w < k"
      using ready_ends [OF assms, of False clean w] by blast
    show ?thesis
    proof (cases r)
      case (Inl e)
      with False r show ?thesis by (subst read_all.simps) (auto simp: reads_def)
    next
      case (Inr u)
      have again: "\<exists>r w'. read_all S until clean n b v = Some (r, w') \<and> reads n b v r w'" if "tick v = Suc (tick w1)" for n b v
        using less [of v n b] that r(2,5) Inr by auto
      show ?thesis
      proof (cases "read_at S (tick w1)")
        case (Got bs)
        show ?thesis
        proof (cases "bs = []")
          case True
          with False r Inr Got show ?thesis by (subst read_all.simps) (auto simp: reads_def Let_def)
        next
          case bs: False
          let ?g = "take room bs"
          let ?v = "w1\<lparr>tick := Suc (tick w1), taken := taken w1 @ ?g\<rparr>"
          obtain r' w' where w': "read_all S until clean (room - length ?g) (filled @ ?g) ?v = Some (r', w')"
              "reads (room - length ?g) (filled @ ?g) ?v r' w'"
            using again [of ?v "room - length ?g" "filled @ ?g"] by auto
          then have "reads room filled w r' w'"
            using r by (auto simp: reads_def)
          with w'(1) False r Inr Got bs show ?thesis
            by (subst read_all.simps) (auto simp: Let_def)
        qed
      next
        case Read_again
        with False r Inr again [of "w1\<lparr>tick := Suc (tick w1)\<rparr>"] show ?thesis
          by (subst read_all.simps) (auto simp: reads_def Let_def)
      next
        case Read_failed
        with False r Inr show ?thesis by (subst read_all.simps) (auto simp: reads_def Let_def)
      qed
    qed
  qed
qed

lemma wait_exit_ends:
  assumes "\<forall>i \<ge> k. until \<le> clock S i"
  shows "\<exists>r w'. wait_exit S until w = Some (r, w') \<and> sent w' = sent w \<and> taken w' = taken w"
proof (induction "k - tick w" arbitrary: w rule: less_induct)
  case less
  have "clock S (tick w) < until \<Longrightarrow> tick w < k" using assms by (meson leD leI)
  then have "clock S (tick w) < until \<Longrightarrow> \<exists>r w'. wait_exit S until (w\<lparr>tick := Suc (tick w)\<rparr>) = Some (r, w') \<and>
      sent w' = sent w \<and> taken w' = taken w"
    using less [of "w\<lparr>tick := Suc (tick w)\<rparr>"] by auto
  then show ?case by (subst wait_exit.simps) (auto simp: Let_def split: exit_answer.split)
qed

section \<open>Programs over the channel\<close>

named_theorems pwp_simps "runs of programs over the channel"

text \<open>The run ends, in \<open>Q\<close> or with a failure in \<open>E\<close>.\<close>

definition pwp :: "'a channel_act \<Rightarrow> ('a \<Rightarrow> channel \<Rightarrow> bool) \<Rightarrow> (failure \<Rightarrow> channel \<Rightarrow> bool) \<Rightarrow> channel \<Rightarrow> bool" where
  "pwp m Q E w = (case m w of None \<Rightarrow> False | Some (Inl e, w') \<Rightarrow> E e w' | Some (Inr a, w') \<Rightarrow> Q a w')"

lemma pwp_pbind [pwp_simps]: "pwp (pbind m f) Q E w = pwp m (\<lambda>a. pwp (f a) Q E) E w"
  by (auto simp: pwp_def pbind_def split: option.splits prod.splits sum.splits)

lemma pwp_pret [pwp_simps]: "pwp (pret a) Q E w = Q a w"
  by (simp add: pwp_def pret_def)

lemma pwp_plift [pwp_simps]: "pwp (plift r) Q E w = (case r of Inl e \<Rightarrow> E e w | Inr a \<Rightarrow> Q a w)"
  by (simp add: pwp_def plift_def split: sum.split)

lemma pwp_pnow [pwp_simps]: "pwp (pnow S) Q E w = Q (clock S (tick w)) (w\<lparr>tick := Suc (tick w)\<rparr>)"
  by (simp add: pwp_def pnow_def)

lemma pwpD: "pwp m Q E w \<Longrightarrow> \<exists>r w'. m w = Some (r, w') \<and> (case r of Inl e \<Rightarrow> E e w' | Inr a \<Rightarrow> Q a w')"
  by (auto simp: pwp_def split: option.splits prod.splits sum.splits)

lemma pwp_write:
  assumes "clock_passes S" "\<And>w'. taken w' = taken w \<Longrightarrow> sent w' = sent w @ bytes \<Longrightarrow> Q () w'"
    "\<And>e w' q. taken w' = taken w \<Longrightarrow> sent w' = sent w @ q \<Longrightarrow> prefix q bytes \<Longrightarrow> E e w'"
  shows "pwp (write_all S until clean bytes) Q E w"
proof -
  obtain k where "\<forall>i \<ge> k. until \<le> clock S i" using clock_passesD [OF assms(1)] by blast
  from write_all_ends [OF this, of clean bytes w] obtain r w' where
    "write_all S until clean bytes w = Some (r, w')" "writes bytes w r w'" by blast
  then show ?thesis by (cases r) (auto simp: pwp_def writes_def assms(2,3))
qed

lemma pwp_read:
  assumes "clock_passes S" "\<And>w' bs. sent w' = sent w \<Longrightarrow> taken w' = taken w @ bs \<Longrightarrow> length bs = n \<Longrightarrow> Q bs w'"
    "\<And>e w' q. sent w' = sent w \<Longrightarrow> taken w' = taken w @ q \<Longrightarrow> E e w'"
  shows "pwp (read_exact S until clean n) Q E w"
proof -
  obtain k where "\<forall>i \<ge> k. until \<le> clock S i" using clock_passesD [OF assms(1)] by blast
  from read_all_ends [OF this, of clean n "[]" w] obtain r w' where
    "read_all S until clean n [] w = Some (r, w')" "reads n [] w r w'" by blast
  then show ?thesis by (cases r) (auto simp: pwp_def read_exact_def reads_def assms(2,3))
qed

section \<open>Frames\<close>

definition framed :: "u8 list \<Rightarrow> u8 list" where
  "framed b = le32 (word_of_nat (length b)) @ b"

definition requested :: "codec \<Rightarrow> json \<Rightarrow> u8 list \<Rightarrow> u8 list" where
  "requested J request content = framed (to_vec J request) @ content"

definition answered :: "codec \<Rightarrow> nat \<Rightarrow> json \<times> u8 list \<Rightarrow> u8 list \<Rightarrow> bool" where
  "answered J maximum = (\<lambda>(answer, content) bytes. \<exists>b. bytes = framed b @ content \<and> 0 < length b \<and> length b \<le> MAX_PIPE_FRAME \<and>
     cloud_json (of_vec J) b = Inr answer \<and> jget answer ''ok'' = JBool True \<and>
     cloud_number (case jfind answer ''body_bytes'' of None \<Rightarrow> jnum 0 | Some v \<Rightarrow> v) maximum = Inr (length content))"

lemma pwp_send:
  assumes "clock_passes S" "\<And>w'. taken w' = taken w \<Longrightarrow> sent w' = sent w @ framed payload @ content \<Longrightarrow> Q () w'"
    "\<And>e w' q. taken w' = taken w \<Longrightarrow> sent w' = sent w @ q \<Longrightarrow> prefix q (framed payload @ content) \<Longrightarrow> E e w'"
  shows "pwp (send_request S until clean payload content) Q E w"
  unfolding send_request_def pwp_simps framed_def
  by (rule pwp_write [OF assms(1)], rule pwp_write [OF assms(1)], rule pwp_write [OF assms(1)])
    (auto intro!: assms(2,3) simp: framed_def prefix_def)

lemma pwp_answer:
  assumes "clock_passes S" "\<And>x w' a. sent w' = sent w \<Longrightarrow> taken w' = taken w @ a \<Longrightarrow> answered J maximum x a \<Longrightarrow> Q x w'"
    "\<And>e w' a. sent w' = sent w \<Longrightarrow> taken w' = taken w @ a \<Longrightarrow> E e w'"
  shows "pwp (take_answer S J until clean maximum) Q E w"
  unfolding take_answer_def pwp_simps Let_def
proof (rule pwp_read [OF assms(1)])
  fix w1 :: channel and head assume w1: "sent w1 = sent w" "taken w1 = taken w @ head" "length head = 4"
  let ?len = "unat (from_le32 head)"
  have head: "head = le32 (word_of_nat ?len)" using le32_from_le32 [OF w1(3)] by simp
  have frame: "length b = ?len \<Longrightarrow> framed b = head @ b" for b using head by (simp add: framed_def)
  have body: "pwp (read_exact S until clean size) (\<lambda>content. pwp (pret (answer, content)) Q E) E w2"
    if "0 < ?len" "?len \<le> MAX_PIPE_FRAME" "sent w2 = sent w" "taken w2 = taken w @ head @ b" "length b = ?len"
      "cloud_json (of_vec J) b = Inr answer" "jget answer ''ok'' = JBool True"
      "cloud_number (case jfind answer ''body_bytes'' of None \<Rightarrow> jnum 0 | Some v \<Rightarrow> v) maximum = Inr size" for w2 b answer size
  proof (rule pwp_read [OF assms(1)])
    fix w3 :: channel and content assume "sent w3 = sent w2" "taken w3 = taken w2 @ content" "length content = size"
    moreover have "answered J maximum (answer, content) (framed b @ content)" if "length content = size"
      unfolding answered_def prod.case by (rule exI [of _ b]) (use that \<open>0 < ?len\<close> \<open>?len \<le> MAX_PIPE_FRAME\<close> \<open>length b = ?len\<close>
        \<open>cloud_json (of_vec J) b = Inr answer\<close> \<open>jget answer ''ok'' = JBool True\<close>
        \<open>cloud_number (case jfind answer ''body_bytes'' of None \<Rightarrow> jnum 0 | Some v \<Rightarrow> v) maximum = Inr size\<close> in auto)
    ultimately show "pwp (pret (answer, content)) Q E w3"
      unfolding pwp_pret using that(3,4) frame [OF that(5)] by (intro assms(2) [of w3 "framed b @ content"]) auto
  qed (use that(3,4) in \<open>auto intro!: assms(3)\<close>)
  have rest: "case cloud_json (of_vec J) b of Inl e \<Rightarrow> E e w2
      | Inr answer \<Rightarrow> pwp (if jget answer ''ok'' \<noteq> JBool True then plift (Inl (helper_error answer))
          else pbind (plift (cloud_number (case jfind answer ''body_bytes'' of None \<Rightarrow> jnum 0 | Some v \<Rightarrow> v) maximum))
            (\<lambda>size. pbind (read_exact S until clean size) (\<lambda>content. pret (answer, content)))) Q E w2"
    if w2: "0 < ?len" "?len \<le> MAX_PIPE_FRAME" "sent w2 = sent w" "taken w2 = taken w @ head @ b" "length b = ?len" for w2 :: channel and b
  proof -
    have "E e w2" for e by (rule assms(3) [OF w2(3,4)])
    then show ?thesis using body [OF w2] by (auto simp: pwp_simps split: sum.split)
  qed
  show "case cloud_require (0 < ?len \<and> ?len \<le> MAX_PIPE_FRAME) ''bounds'' of Inl e \<Rightarrow> E e w1
    | Inr _ \<Rightarrow> pwp (read_exact S until clean ?len) (\<lambda>bytes w'. case cloud_json (of_vec J) bytes of Inl e \<Rightarrow> E e w'
      | Inr answer \<Rightarrow> pwp (if jget answer ''ok'' \<noteq> JBool True then plift (Inl (helper_error answer))
          else pbind (plift (cloud_number (case jfind answer ''body_bytes'' of None \<Rightarrow> jnum 0 | Some v \<Rightarrow> v) maximum))
            (\<lambda>size. pbind (read_exact S until clean size) (\<lambda>content. pret (answer, content)))) Q E w') E w1"
  proof (cases "0 < ?len \<and> ?len \<le> MAX_PIPE_FRAME")
    case True
    show ?thesis
      unfolding cloud_require_def if_P [OF True] sum.case
      by (rule pwp_read [OF assms(1)]) (use True w1 rest assms(3) in \<open>simp_all\<close>)
  next
    case False
    then show ?thesis unfolding cloud_require_def if_not_P [OF False] sum.case by (intro assms(3) [OF w1(1,2)])
  qed
qed (auto intro: assms(3))

lemma pwp_talk:
  assumes "clock_passes S"
    and Q: "\<And>x w' a. sent w' = sent w @ requested J request content \<Longrightarrow> taken w' = taken w @ a \<Longrightarrow> answered J maximum x a \<Longrightarrow> Q x w'"
    and E: "\<And>e w' q a. sent w' = sent w @ q \<Longrightarrow> prefix q (requested J request content) \<Longrightarrow> taken w' = taken w @ a \<Longrightarrow> E e w'"
  shows "pwp (talk S J p request content maximum wait clean) Q E w"
proof -
  have stop: "E e w'" if "sent w' = sent w" "taken w' = taken w" for e w'
    using E [of w' "[]" "[]" e] that by simp
  have "pwp (send_request S until clean (to_vec J request) content) (\<lambda>_. pwp (take_answer S J until clean maximum) Q E) E w1"
    if w1: "sent w1 = sent w" "taken w1 = taken w" for until and w1 :: channel
  proof (rule pwp_send [OF assms(1)])
    fix w2 :: channel
    assume w2: "taken w2 = taken w1" "sent w2 = sent w1 @ framed (to_vec J request) @ content"
    show "pwp (take_answer S J until clean maximum) Q E w2"
      by (rule pwp_answer [OF assms(1)])
        (use w1 w2 in \<open>auto simp: requested_def intro: Q E [of _ "framed (to_vec J request) @ content"]\<close>)
  next
    fix e q and w2 :: channel
    assume "taken w2 = taken w1" "sent w2 = sent w1 @ q" "prefix q (framed (to_vec J request) @ content)"
    then show "E e w2" using w1 by (intro E [of w2 q "[]"]) (simp_all add: requested_def)
  qed
  then show ?thesis
    unfolding talk_def Let_def pwp_simps by (auto simp: cloud_require_def intro: stop split: sum.split)
qed

section \<open>Exchanges\<close>

record exchange_request =
  xr_request :: json
  xr_body :: "u8 list"
  xr_maximum :: nat
  xr_wait :: nat
  xr_clean :: bool

fun exchanges :: "system \<Rightarrow> codec \<Rightarrow> exchange_request list \<Rightarrow> pipe \<times> channel \<Rightarrow>
    ((failure + json \<times> u8 list) list \<times> pipe \<times> channel) option" where
  "exchanges S J [] s = Some ([], s)"
| "exchanges S J (x # xs) s =
     Option.bind (pipe_exchange S J (xr_request x) (xr_body x) (xr_maximum x) (xr_wait x) (xr_clean x) s) (\<lambda>(r, s).
     Option.bind (exchanges S J xs s) (\<lambda>(rs, s). Some (r # rs, s)))"

text \<open>One exchange: refused and nothing moved, or answered, or broken off with the pipe failed.\<close>

definition exchanged :: "codec \<Rightarrow> exchange_request \<Rightarrow> pipe \<times> channel \<Rightarrow> failure + json \<times> u8 list \<Rightarrow> pipe \<times> channel \<Rightarrow> bool" where
  "exchanged J x = (\<lambda>(p, w) r (p', w').
     (case r of
        Inr y \<Rightarrow> \<not> failed_pipe p \<and> p' = p \<and> sent w' = sent w @ requested J (xr_request x) (xr_body x) \<and>
          (\<exists>a. taken w' = taken w @ a \<and> answered J (xr_maximum x) y a)
      | Inl _ \<Rightarrow> (p' = p \<and> sent w' = sent w \<and> taken w' = taken w) \<or>
          (\<not> failed_pipe p \<and> p' = fail_pipe p \<and> (\<exists>q a. sent w' = sent w @ q \<and>
             prefix q (requested J (xr_request x) (xr_body x)) \<and> taken w' = taken w @ a))))"

lemma exchange_ends:
  assumes "clock_passes S"
  shows "\<exists>r s'. pipe_exchange S J (xr_request x) (xr_body x) (xr_maximum x) (xr_wait x) (xr_clean x) s = Some (r, s') \<and>
    exchanged J x s r s'"
proof (cases s)
  case (Pair p w)
  let ?talk = "talk S J p (xr_request x) (xr_body x) (xr_maximum x) (xr_wait x) (xr_clean x)"
  show ?thesis
  proof (cases "failed_pipe p \<or> closed_pipe p \<or> xr_wait x = 0")
    case True
    then show ?thesis by (simp add: pipe_exchange_def Pair exchanged_def)
  next
    case False
    have talked: "\<exists>r w'. ?talk v = Some (r, w') \<and> exchanged J x (p, w) r (if is_ok r then p else fail_pipe p, w')"
      if v: "sent v = sent w" "taken v = taken w" for v
    proof -
      have "pwp ?talk (\<lambda>y w'. exchanged J x (p, w) (Inr y) (p, w')) (\<lambda>e w'. exchanged J x (p, w) (Inl e) (fail_pipe p, w')) v"
        by (rule pwp_talk [OF assms]) (use False v in \<open>auto simp: exchanged_def\<close>)
      from pwpD [OF this] obtain r w' where "?talk v = Some (r, w')"
        "case r of Inl e \<Rightarrow> exchanged J x (p, w) (Inl e) (fail_pipe p, w') | Inr y \<Rightarrow> exchanged J x (p, w) (Inr y) (p, w')"
        by blast
      then show ?thesis by (cases r) auto
    qed
    obtain r v where v: "(if xr_clean x then pret () else pcheck S) w = Some (r, v)" "sent v = sent w" "taken v = taken w"
      by (cases "xr_clean x") (auto simp: pret_def pcheck_def)
    show ?thesis
    proof (cases r)
      case (Inl e)
      with False v show ?thesis by (auto simp: pipe_exchange_def Pair exchanged_def)
    next
      case (Inr u)
      from talked [OF v(2,3)] obtain r' w' where
        "?talk v = Some (r', w')" "exchanged J x (p, w) r' (if is_ok r' then p else fail_pipe p, w')" by blast
      with False v(1) Inr show ?thesis by (auto simp: pipe_exchange_def Pair)
    qed
  qed
qed

end
