(* ===== verification/PipeOutcomes.thy ===== *)
theory PipeOutcomes
  imports PipeRules
begin

text \<open>
  The properties of the pipe: its operations return, and the two streams stay in step with the
  requests and answers.
\<close>

lemma exchanges_end:
  assumes "clock_passes S"
  shows "\<exists>r. exchanges S J xs s = Some r"
proof (induction xs arbitrary: s)
  case (Cons x xs)
  obtain r s' where "pipe_exchange S J (xr_request x) (xr_body x) (xr_maximum x) (xr_wait x) (xr_clean x) s = Some (r, s')"
    using exchange_ends [OF assms] by blast
  moreover obtain rs t where "exchanges S J xs s' = Some (rs, t)" using Cons by fastforce
  ultimately show ?case by simp
qed simp

lemma close_ends:
  assumes "clock_passes S"
  shows "\<exists>r. close_pipe S s = Some r"
proof -
  obtain p w where s: "s = (p, w)" by (cases s)
  obtain k where "\<forall>i \<ge> k. clock S (tick w) + 3000000000 \<le> clock S i" using clock_passesD [OF assms] by blast
  from wait_exit_ends [OF this, of "w\<lparr>tick := Suc (tick w)\<rparr>"] obtain r w' where
    "wait_exit S (clock S (tick w) + 3000000000) (w\<lparr>tick := Suc (tick w)\<rparr>) = Some (r, w')" by blast
  then show ?thesis
    by (cases r) (auto simp: s close_pipe_def pbind_def pnow_def Let_def)
qed


definition answers :: "exchange_request list \<Rightarrow> (failure + json \<times> u8 list) list \<Rightarrow> (exchange_request \<times> json \<times> u8 list) list" where
  "answers xs rs = concat (map (\<lambda>(x, r). case r of Inl _ \<Rightarrow> [] | Inr y \<Rightarrow> [(x, y)]) (zip xs rs))"

lemma answers_simps [simp]: "answers [] rs = []" "answers (x # xs) (Inl e # rs) = answers xs rs"
  "answers (x # xs) (Inr y # rs) = (x, y) # answers xs rs"
  by (simp_all add: answers_def)

definition sent_for :: "codec \<Rightarrow> exchange_request \<Rightarrow> u8 list" where
  "sent_for J x = requested J (xr_request x) (xr_body x)"

lemma exchanges_Cons:
  assumes "clock_passes S" "exchanges S J (x # xs) s = Some (rs, t)"
  obtains r qs s' where "rs = r # qs" "exchanged J x s r s'" "exchanges S J xs s' = Some (qs, t)"
proof -
  obtain r s' where r: "pipe_exchange S J (xr_request x) (xr_body x) (xr_maximum x) (xr_wait x) (xr_clean x) s = Some (r, s')"
      "exchanged J x s r s'"
    using exchange_ends [OF assms(1)] by blast
  moreover obtain qs u where "exchanges S J xs s' = Some (qs, u)" using exchanges_end [OF assms(1), of J xs s'] by auto
  ultimately show ?thesis using assms(2) that [of r qs s'] by simp
qed

lemma exchanges_failed:
  assumes "clock_passes S" "failed_pipe p" "exchanges S J xs (p, w) = Some (rs, p', w')"
  shows "answers xs rs = [] \<and> p' = p \<and> sent w' = sent w \<and> taken w' = taken w"
  using assms(3)
proof (induction xs arbitrary: w rs)
  case (Cons x xs)
  obtain r qs s where r: "rs = r # qs" "exchanged J x (p, w) r s" "exchanges S J xs s = Some (qs, p', w')"
    using exchanges_Cons [OF assms(1) Cons.prems] .
  then obtain e v where "r = Inl e" "s = (p, v)" "sent v = sent w" "taken v = taken w"
    using assms(2) by (cases s) (auto simp: exchanged_def split: sum.splits)
  with r Cons.IH [of v qs] show ?case by simp
qed simp

lemma exchanges_in_step:
  assumes "clock_passes S" "exchanges S J xs (p, w) = Some (rs, p', w')"
  shows "\<exists>as q a. sent w' = sent w @ concat (map (\<lambda>z. sent_for J (fst z)) (answers xs rs)) @ q \<and> taken w' = taken w @ concat as @ a \<and>
    list_all2 (\<lambda>(x, y). answered J (xr_maximum x) y) (answers xs rs) as \<and>
    (failed_pipe p' \<or> q = [] \<and> a = []) \<and> (q = [] \<or> (\<exists>x \<in> set xs. prefix q (sent_for J x)))"
  using assms(2)
proof (induction xs arbitrary: p w rs)
  case Nil
  then show ?case by (intro exI [of _ "[]"]) simp
next
  case (Cons x xs)
  obtain r qs s where r: "rs = r # qs" "exchanged J x (p, w) r s" "exchanges S J xs s = Some (qs, p', w')"
    using exchanges_Cons [OF assms(1) Cons.prems] .
  obtain p1 v where s: "s = (p1, v)" by (cases s)
  obtain as q a where IH: "sent w' = sent v @ concat (map (\<lambda>z. sent_for J (fst z)) (answers xs qs)) @ q" "taken w' = taken v @ concat as @ a"
      "list_all2 (\<lambda>(x, y). answered J (xr_maximum x) y) (answers xs qs) as"
      "failed_pipe p' \<or> q = [] \<and> a = []" "q = [] \<or> (\<exists>x \<in> set xs. prefix q (sent_for J x))"
    using Cons.IH r(3) unfolding s by blast
  show ?case
  proof (cases r)
    case (Inr y)
    obtain b where "sent v = sent w @ sent_for J x" "taken v = taken w @ b" "answered J (xr_maximum x) y b"
      using r(2) by (auto simp: s Inr exchanged_def sent_for_def)
    with IH Inr show ?thesis unfolding r(1)
      by - (rule exI [of _ "b # as"], rule exI [of _ q], rule exI [of _ a], auto)
  next
    case (Inl e)
    show ?thesis
    proof (cases "sent v = sent w \<and> taken v = taken w")
      case True
      with IH Inl show ?thesis unfolding r(1) by - (rule exI [of _ as], rule exI [of _ q], rule exI [of _ a], auto)
    next
      case False
      then obtain q' a' where f: "p1 = fail_pipe p" "sent v = sent w @ q'" "prefix q' (sent_for J x)" "taken v = taken w @ a'"
        using r(2) by (auto simp: s Inl exchanged_def sent_for_def)
      have "failed_pipe p1" by (simp add: f(1) fail_pipe_def)
      from exchanges_failed [OF assms(1) this r(3) [unfolded s]] show ?thesis
        using f \<open>failed_pipe p1\<close> Inl unfolding r(1)
        by - (rule exI [of _ "[]"], rule exI [of _ q'], rule exI [of _ a'], auto)
    qed
  qed
qed

text \<open>C40. The streams stay in step. However writes and reads are cut and whatever fails, what a sequence of exchanges
  has written is the whole frames of the answered requests, in order, and what it has read is their
  answers, each a frame that says so and a body of the length it announces, within the limit. Only a
  last request may be cut short, and then the pipe is failed and nothing is sent after it.\<close>

theorem pipe_in_step:
  assumes "clock_passes S" "exchanges S J xs (p, w) = Some (rs, p', w')"
  shows "\<exists>as q a. sent w' = sent w @ concat (map (\<lambda>z. sent_for J (fst z)) (answers xs rs)) @ q \<and> taken w' = taken w @ concat as @ a \<and>
    list_all2 (\<lambda>(x, y). answered J (xr_maximum x) y) (answers xs rs) as \<and>
    (failed_pipe p' \<or> q = [] \<and> a = []) \<and> (q = [] \<or> (\<exists>x \<in> set xs. prefix q (sent_for J x)))"
  by (rule exchanges_in_step [OF assms])

section \<open>Example\<close>

text \<open>A wait that is interrupted once, a request in two writes and an answer without a body.\<close>

definition trial_system :: system where
  "trial_system = \<lparr>clock = id, cancelled_at = (\<lambda>_. False),
     poll_at = (\<lambda>i _ _. if i = 2 then Poll_interrupted else Ready),
     write_at = (\<lambda>i. if i = 6 then Wrote 1 else Wrote 100),
     read_at = (\<lambda>i. if i = 10 then Got [2, 0, 0, 0] else Got [123, 125]), exit_at = (\<lambda>_. Exited), terminate_at = (\<lambda>_. Inr ())\<rparr>"

definition trial_codec :: codec where
  "trial_codec = \<lparr>to_vec = (\<lambda>_. [1, 2, 3]), of_vec = (\<lambda>_. Some (JObj [(''ok'', JBool True)]))\<rparr>"

definition trial_request :: exchange_request where
  "trial_request = \<lparr>xr_request = JNull, xr_body = [], xr_maximum = 10, xr_wait = 1000, xr_clean = False\<rparr>"

definition trial_pipe :: "pipe \<times> channel" where
  "trial_pipe = (\<lparr>failed_pipe = False, closed_pipe = False, input_open = True, output_open = True\<rparr>,
     \<lparr>tick = 0, sent = [], taken = []\<rparr>)"

lemma trial_exchanges: "exchanges trial_system trial_codec [trial_request] trial_pipe =
   Some ([Inr (JObj [(''ok'', JBool True)], [])], fst trial_pipe,
     \<lparr>tick = 13, sent = [3, 0, 0, 0, 1, 2, 3], taken = [2, 0, 0, 0, 123, 125]\<rparr>)"
  by code_simp

lemma trial_clock: "clock_passes trial_system"
  by (auto simp: clock_passes_def trial_system_def)


lemma pipe_in_step_witness:
  "\<exists>as. [2, 0, 0, 0, 123, 125] = concat as \<and> list_all2 (\<lambda>(x, y). answered trial_codec (xr_maximum x) y)
     [(trial_request, JObj [(''ok'', JBool True)], [])] as"
proof -
  have run: "exchanges trial_system trial_codec [trial_request] (fst trial_pipe, snd trial_pipe) =
     Some ([Inr (JObj [(''ok'', JBool True)], [])], fst trial_pipe,
       \<lparr>tick = 13, sent = [3, 0, 0, 0, 1, 2, 3], taken = [2, 0, 0, 0, 123, 125]\<rparr>)"
    using trial_exchanges by simp
  have "\<not> failed_pipe (fst trial_pipe)" "taken (snd trial_pipe) = []" by (simp_all add: trial_pipe_def)
  with pipe_in_step [OF trial_clock run] show ?thesis by auto
qed

end
