(* ===== verification/Spec2Isabelle.thy ===== *)
theory Spec2Isabelle
  imports CloudPolicy Progress UiGate CloudWriteLog Coordination NeuralRecords NeuralBridge ProtonExchange ImportPolicy FlowOutcomes HistoryOutcomes PipeOutcomes
begin

text \<open>
  A verification library of the Flightdeck launcher (the Rust sources under \<^verbatim>\<open>src/native\<close>).

  \<^bold>\<open>The program.\<close> Flightdeck installs and starts Microsoft Flight Simulator under Wine. Its own core
  is the safe keeping of saves: a local save (\<^verbatim>\<open>save_state.rs\<close>) is compared with the cloud
  (\<^verbatim>\<open>cloud_storage.rs\<close>, \<^verbatim>\<open>cloud_policy.rs\<close>), imported after a backup (\<^verbatim>\<open>cloud_import.rs\<close>), uploaded
  under a lease (\<^verbatim>\<open>cloud_write.rs\<close>) and journalled over a game session (\<^verbatim>\<open>cloud_session.rs\<close>); the flow
  around a game puts these together (\<^verbatim>\<open>cloud_flow.rs\<close>), a helper under Wine speaks to the service
  (\<^verbatim>\<open>cloud_pipe.rs\<close>), and old backups and snapshots are removed later (\<^verbatim>\<open>save_history.rs\<close>). One
  coordinator owns jobs, leases and processes (\<^verbatim>\<open>backend.rs\<close>); the interface decides which request
  may be sent to it (\<^verbatim>\<open>ui/src/model.rs\<close>). Beside this it converts renderer coefficients
  (\<^verbatim>\<open>neural_decode.rs\<close>) and exchanges Wine profiles (\<^verbatim>\<open>proton_exchange.rs\<close>).

  \<^bold>\<open>Theories.\<close>
  \<^item> \<open>Prelude\<close> (results, text, words), \<open>OrderedMap\<close> (\<^verbatim>\<open>BTreeMap\<close> and \<^verbatim>\<open>BTreeSet\<close>), \<open>Bytes\<close> (integers in
    bytes, UTF-8, numbers, hex digests of \<^verbatim>\<open>files.rs\<close>), \<open>Json\<close> (\<^verbatim>\<open>serde_json\<close> values and
    \<^verbatim>\<open>strict_json.rs\<close>), \<open>Errors\<close> (\<^verbatim>\<open>error.rs\<close>, \<^verbatim>\<open>cloud.rs\<close>), \<open>Effects\<close> (stateful operations that may fail,
    and their weakest preconditions).
  \<^item> \<open>SaveState\<close>, \<open>SaveCodec\<close>: \<^verbatim>\<open>save_state.rs\<close>. The codec against a wire format: round trips, bounds, no
    trailing bytes, canonical content, safe names.
  \<^item> \<open>CloudPolicy\<close>: \<^verbatim>\<open>cloud_policy.rs\<close>. The decision against a three-way merge. The merge needs a baseline:
    a first synchronisation takes the cloud's save unless it is empty (\<open>decide_first_sync\<close>).
  \<^item> \<open>Progress\<close>: \<^verbatim>\<open>progress.rs\<close>. Framing against the list of lines.
  \<^item> \<open>UiState\<close>, \<open>UiRequest\<close>, \<open>UiGate\<close>: \<^verbatim>\<open>ui/src/model.rs\<close> with what it reads of \<^verbatim>\<open>steam.rs\<close>,
    \<^verbatim>\<open>client.rs\<close>, \<^verbatim>\<open>controller.rs\<close> and \<^verbatim>\<open>lib.rs\<close>. What a request about an add-on rests on, and what a Steam
    installation is never asked.
  \<^item> \<open>CloudStorage\<close>: the scope and the bounded reader of \<^verbatim>\<open>cloud_storage.rs\<close>.
  \<^item> \<open>CloudWrite\<close>, \<open>CloudWriteLog\<close>: \<^verbatim>\<open>cloud_write.rs\<close> over any service; its properties are about the log of
    the calls a run makes.
  \<^item> \<open>CloudStore\<close> (\<^verbatim>\<open>cloud_fs.rs\<close> and \<^verbatim>\<open>Local\<close>), \<open>CloudSnapshot\<close>, \<open>CloudImport\<close>: \<^verbatim>\<open>cloud_import.rs\<close>. \<open>ImportPolicy\<close>
    shows that the choice of an import selects the target of the policy (with a baseline; on a first
    synchronisation only the cloud's side is chosen), \<open>ImportSafety\<close> that no run loses a save and that an
    import can be undone.
  \<^item> \<open>CloudSession\<close>: \<^verbatim>\<open>cloud_session.rs\<close>. \<open>SessionChecks\<close>, \<open>SessionJournal\<close>, \<open>SessionHistory\<close>: the journal
    over any history of sessions.
  \<^item> \<open>CloudDownload\<close> (downloading over a kept snapshot, \<^verbatim>\<open>cloud_storage.rs\<close> and \<^verbatim>\<open>cloud_cache.rs\<close>),
    \<open>CloudClient\<close> (the client of \<^verbatim>\<open>cloud_runtime.rs\<close>: the service as requests to the helper), \<open>CloudFlow\<close>: \<^verbatim>\<open>cloud_flow.rs\<close>
    over any helper and any choice of the user. \<open>FlowRules\<close>, \<open>ClientRules\<close>, \<open>FlowSafety\<close>: what its parts
    keep. \<open>FlowHistory\<close>: runs are histories of the journal and lose no save; \<open>FlowOutcomes\<close>: what asking the
    user and success mean.
  \<^item> \<open>SaveHistory\<close>: \<^verbatim>\<open>save_history.rs\<close>. \<open>HistoryRetention\<close>, \<open>HistoryOutcomes\<close>: the search for references is
    exact; a run only removes what nothing keeps, an undisturbed one all of it. A baseline in a folder
    whose metadata cannot be read is passed over by the code, and does not count in these theorems.
  \<^item> \<open>CloudPipe\<close>: \<^verbatim>\<open>cloud_pipe.rs\<close>. \<open>PipeRules\<close>, \<open>PipeOutcomes\<close>: its loops end and its streams stay in step.
  \<^item> \<open>StoreRules\<close>: views of the private storage that operations keep, as locales, with their
    interpretations; runs on a storage whose system calls all succeed.
  \<^item> \<open>Coordinator\<close>, \<open>Coordination\<close>: the mutex-protected state of \<^verbatim>\<open>backend.rs\<close>, its operations as steps, and
    the invariant of every reachable state.
  \<^item> \<open>NeuralBits\<close>, \<open>NeuralScalars\<close>, \<open>NeuralTables\<close>, \<open>NeuralBlocks\<close>, \<open>NeuralArchive\<close>: \<^verbatim>\<open>neural_decode.rs\<close> with its
    table contract of \<^verbatim>\<open>neural_assets.rs\<close>, panics included. \<open>NeuralConversion\<close>, \<open>NeuralRecords\<close>,
    \<open>NeuralBridge\<close>: the conversion meets the contract and refuses exactly non-zero padding, the archive reads
    back, the bridges are inverse.
  \<^item> \<open>ProtonExchange\<close>: \<^verbatim>\<open>proton_exchange.rs\<close> over the renames of \<^verbatim>\<open>transaction.rs\<close>. No profile is ever lost; that
    the arrangement stays a known one and that attempts finish needs the hypothesis \<open>honest\<close>: no rename
    is done and then, as its sync fails, reported with 22, 38 or 95, the errors the code takes for an
    unsupported rename. Without it an exchange can be stuck (\<open>unsynced_exchange_is_stuck\<close>).

  \<^bold>\<open>How the code is modelled.\<close> Structs are records, enums datatypes, \<^verbatim>\<open>Result\<close> a sum, machine integers words
  where they may wrap and naturals where the code has checked their range, \<^verbatim>\<open>String\<close> a string of its
  bytes, \<^verbatim>\<open>BTreeMap\<close> a list of pairs sorted by its keys. What a run cannot control - a service, a
  clock, the cancellation flag, another process - is a parameter or a world that may answer anything
  at every call; system calls on the private storage end as a script says, which may refuse them or
  let a flush fail after the change. A property with no hypothesis on the script or the service holds
  for all of them.

  \<^bold>\<open>Parameters and hypotheses.\<close> SHA-256 is any function with results of 32 bytes (\<open>is_sha256\<close>); where a
  collision would matter the property says so. \<open>sound_kit\<close> adds that the JSON reader of a manifest
  yields texts that are UTF-8; \<open>uuids\<close> that random identifiers are 32 lower-case hex digits. The JSON
  tokenizer, the reader of UUIDs and \<^verbatim>\<open>chrono\<close> are parameters.

  \<^bold>\<open>Bounds and fuel.\<close> Loops are recursions over their data, or have the bound of the code as fuel: the
  paged inventory its number of pages, the archive reader the length of its input. Sizes and counts
  are the constants of the code. The loops over the pipes end because the clock passes their deadline;
  they are partial functions of which that is proved.

  \<^bold>\<open>Not modelled.\<close> What walks directories, starts processes, speaks to the network or draws windows: the
  installation of the game and of add-ons, runners and Wine, diagnostics, the HTTP service, the
  widgets, the maintainer tools and the C++ runtime; of the saves, the launcher actions around the flow
  (\<^verbatim>\<open>cloud_auto.rs\<close>, \<^verbatim>\<open>cloud_sync.rs\<close>), the helper's prefix and process guard, and the logs of runs. JSON
  files are values or unreadable: their bytes, and with them the limits on their size (4096 and 16384 in
  \<^verbatim>\<open>cloud_import.rs\<close>, 32768 in \<^verbatim>\<open>cloud_session.rs\<close>), are not part of the storage, nor are temporary names and the set of
  namespaces open in one process. Removing a folder is one step, done, refused or left part-way.
\<close>

end
